(* ===== verification/Arrival_Prelude.thy ===== *)
theory Arrival_Prelude
  imports Main "HOL-Library.AList"
begin

text \<open>
  Shared vocabulary of the development: the orderings of Rust's \<^verbatim>\<open>std::cmp::Ordering\<close>,
  hash maps as association lists, results of fallible Rust code, and the generic lemmas the
  component theories rely on.
\<close>

named_theorems hm_simps \<open>lookup after an update of a hash map\<close>

section \<open>Rust's comparison results\<close>

datatype ordering = Less | Equal | Greater

text \<open>Rust derives \<open>\<le>\<close> and \<open>\<ge>\<close> of a \<^verbatim>\<open>PartialOrd\<close> type from \<^verbatim>\<open>partial_cmp\<close>.\<close>

fun cmp_le :: "ordering option \<Rightarrow> bool" where
  "cmp_le (Some Less) = True"
| "cmp_le (Some Equal) = True"
| "cmp_le _ = False"

fun cmp_ge :: "ordering option \<Rightarrow> bool" where
  "cmp_ge (Some Greater) = True"
| "cmp_ge (Some Equal) = True"
| "cmp_ge _ = False"

section \<open>Results of fallible code\<close>

text \<open>
  \<^verbatim>\<open>Result<A, E>\<close> of Rust code that may also panic: \<open>Panic\<close> is an \<^verbatim>\<open>unwrap\<close>, an
  \<^verbatim>\<open>expect\<close>, an assertion, an index out of range or an arithmetic overflow (overflow checks
  enabled).
\<close>

datatype ('e, 'a) outcome = Ok 'a | Err 'e | Panic

fun oc_bind :: "('e, 'a) outcome \<Rightarrow> ('a \<Rightarrow> ('e, 'b) outcome) \<Rightarrow> ('e, 'b) outcome" where
  "oc_bind (Ok a) f = f a"
| "oc_bind (Err e) f = Err e"
| "oc_bind Panic f = Panic"

lemma oc_bind_eq_Ok_iff [simp]: "oc_bind r f = Ok b \<longleftrightarrow> (\<exists>a. r = Ok a \<and> f a = Ok b)"
  by (cases r) auto

text \<open>\<^verbatim>\<open>Iterator::try_for_each\<close>: stops at the first failure.\<close>

fun try_for_each :: "('a \<Rightarrow> ('e, unit) outcome) \<Rightarrow> 'a list \<Rightarrow> ('e, unit) outcome" where
  "try_for_each f [] = Ok ()"
| "try_for_each f (x # xs) = oc_bind (f x) (\<lambda>_. try_for_each f xs)"

lemma try_for_each_Ok_iff: "try_for_each f xs = Ok () \<longleftrightarrow> (\<forall>x\<in>set xs. f x = Ok ())"
  by (induction xs) auto

text \<open>\<^verbatim>\<open>usize\<close> on the 64-bit targets the tools run on.\<close>

definition usize_limit :: nat where
  "usize_limit = 2 ^ 64"

section \<open>Hash maps\<close>

text \<open>
  A \<^verbatim>\<open>HashMap\<close> is an association list: its iteration order is the order of the list, so a
  statement about every list is a statement about every iteration order.
\<close>

type_synonym ('k, 'v) hashmap = "('k \<times> 'v) list"

abbreviation hm_get :: "('k, 'v) hashmap \<Rightarrow> 'k \<Rightarrow> 'v option" where
  "hm_get m k \<equiv> map_of m k"

abbreviation hm_insert :: "'k \<Rightarrow> 'v \<Rightarrow> ('k, 'v) hashmap \<Rightarrow> ('k, 'v) hashmap" where
  "hm_insert k v m \<equiv> AList.update k v m"

abbreviation hm_remove :: "'k \<Rightarrow> ('k, 'v) hashmap \<Rightarrow> ('k, 'v) hashmap" where
  "hm_remove k m \<equiv> AList.delete k m"

definition hm_ok :: "('k, 'v) hashmap \<Rightarrow> bool" where
  "hm_ok m \<longleftrightarrow> distinct (map fst m)"

lemma hm_get_insert [hm_simps, simp]:
  "hm_get (hm_insert k v m) x = (if x = k then Some v else hm_get m x)"
  by (simp add: update_conv')

lemma hm_get_remove [hm_simps, simp]:
  "hm_get (hm_remove k m) x = (if x = k then None else hm_get m x)"
  by (simp add: delete_conv')

lemma hm_ok_Nil [simp]: "hm_ok []"
  by (simp add: hm_ok_def)

lemma hm_ok_insert [simp, intro]: "hm_ok m \<Longrightarrow> hm_ok (hm_insert k v m)"
  unfolding hm_ok_def by (rule distinct_update)

lemma hm_ok_remove [simp, intro]: "hm_ok m \<Longrightarrow> hm_ok (hm_remove k m)"
  unfolding hm_ok_def by (rule distinct_delete)

lemma hm_mem_get: "hm_ok m \<Longrightarrow> (k, v) \<in> set m \<longleftrightarrow> hm_get m k = Some v"
  unfolding hm_ok_def by simp

lemma hm_length_dom: "hm_ok m \<Longrightarrow> length m = card (dom (hm_get m))"
  unfolding hm_ok_def
  by (metis distinct_card dom_map_of_conv_image_fst length_map set_map)

lemma hm_get_remove_all:
  "hm_get (foldl (\<lambda>m y. hm_remove y m) m ys) a = (if a \<in> set ys then None else hm_get m a)"
  by (induction ys arbitrary: m) auto

lemma hm_ok_remove_all: "hm_ok m \<Longrightarrow> hm_ok (foldl (\<lambda>m y. hm_remove y m) m ys)"
  by (induction ys arbitrary: m) auto

section \<open>Code with loops\<close>

text \<open>
  The result of code with a loop that may not end: \<open>None\<close> is not returning. \<open>ends r Q\<close>:
  the code returns a value with \<open>Q\<close>, or panics.
\<close>

type_synonym 'a run = "(unit, 'a) outcome option"

definition after :: "'a run \<Rightarrow> ('a \<Rightarrow> 'b run) \<Rightarrow> 'b run" where
  "after r f = (case r of None \<Rightarrow> None | Some (Ok a) \<Rightarrow> f a | Some (Err e) \<Rightarrow> Some (Err e) | Some Panic \<Rightarrow> Some Panic)"

definition ends :: "'a run \<Rightarrow> ('a \<Rightarrow> bool) \<Rightarrow> bool" where
  "ends r Q \<longleftrightarrow> r = Some Panic \<or> (\<exists>a. r = Some (Ok a) \<and> Q a)"

lemma after_Ok [simp]: "after (Some (Ok a)) f = f a"
  by (simp add: after_def)

lemma after_Panic [simp]: "after (Some Panic) f = Some Panic"
  by (simp add: after_def)

lemma after_assoc: "after (after r f) g = after r (\<lambda>a. after (f a) g)"
  by (auto simp: after_def split: option.splits outcome.splits)

lemma after_eq_Ok_iff: "after r f = Some (Ok b) \<longleftrightarrow> (\<exists>a. r = Some (Ok a) \<and> f a = Some (Ok b))"
  by (auto simp: after_def split: option.splits outcome.splits)

lemma ends_Ok [simp]: "ends (Some (Ok a)) Q \<longleftrightarrow> Q a"
  by (simp add: ends_def)

lemma ends_Panic [simp, intro]: "ends (Some Panic) Q"
  by (simp add: ends_def)

lemma ends_after: "ends r P \<Longrightarrow> (\<And>a. P a \<Longrightarrow> ends (f a) Q) \<Longrightarrow> ends (after r f) Q"
  unfolding ends_def [of r P] by auto

lemma ends_after2:
  "ends r (\<lambda>(a, b). P a b) \<Longrightarrow> (\<And>a b. P a b \<Longrightarrow> ends (f a b) Q) \<Longrightarrow> ends (after r (\<lambda>(a, b). f a b)) Q"
  by (auto simp: ends_def [of r])

lemma ends_weaken2: "ends r (\<lambda>(a, b). P a b) \<Longrightarrow> (\<And>a b. P a b \<Longrightarrow> Q a b) \<Longrightarrow> ends r (\<lambda>(a, b). Q a b)"
  by (auto simp: ends_def)

lemma ends_weaken: "ends r P \<Longrightarrow> (\<And>a. P a \<Longrightarrow> Q a) \<Longrightarrow> ends r Q"
  by (auto simp: ends_def)

lemma ends_conj: "ends r P \<Longrightarrow> ends r Q \<Longrightarrow> ends r (\<lambda>a. P a \<and> Q a)"
  by (auto simp: ends_def)

lemma ends_OkD: "ends r Q \<Longrightarrow> r = Some (Ok a) \<Longrightarrow> Q a"
  by (auto simp: ends_def)

text \<open>Partial functions may be defined with \<open>after\<close>.\<close>

lemma after_bind: "after r f = Option.bind r (\<lambda>v. case v of Ok a \<Rightarrow> f a | Err e \<Rightarrow> Some (Err e) | Panic \<Rightarrow> Some Panic)"
  by (auto simp: after_def split: option.splits)

lemma after_mono [partial_function_mono]:
  assumes "mono_option B" "\<And>a. mono_option (\<lambda>f. C a f)"
  shows "mono_option (\<lambda>f. after (B f) (\<lambda>a. C a f))"
  unfolding after_bind
proof (rule bind_mono [OF assms(1)])
  show "mono_option (\<lambda>f. case v of Ok a \<Rightarrow> C a f | Err e \<Rightarrow> Some (Err e) | Panic \<Rightarrow> Some Panic)" for v
    by (cases v) (auto intro: assms(2) option.const_mono)
qed

text \<open>A \<^verbatim>\<open>for\<close> loop: the body updates the state, item by item.\<close>

fun each :: "('a \<Rightarrow> 's \<Rightarrow> 's run) \<Rightarrow> 'a list \<Rightarrow> 's \<Rightarrow> 's run" where
  "each f [] s = Some (Ok s)"
| "each f (x # xs) s = after (f x s) (each f xs)"

text \<open>The invariant may speak of the items done so far.\<close>

lemma ends_each_prefix:
  assumes "\<And>ys x zs s. xs = ys @ x # zs \<Longrightarrow> I ys s \<Longrightarrow> ends (f x s) (I (ys @ [x]))" "I [] s"
  shows "ends (each f xs s) (I xs)"
proof -
  have "xs = ys @ zs \<Longrightarrow> I ys s \<Longrightarrow> ends (each f zs s) (I xs)" for ys zs s
  proof (induction zs arbitrary: ys s)
    case (Cons z zs)
    show ?case
      unfolding each.simps by (rule ends_after [OF assms(1)]) (use Cons in auto)
  qed simp
  from this [of "[]" xs s] show ?thesis using assms(2) by simp
qed

lemma ends_each:
  assumes "\<And>x s. x \<in> set xs \<Longrightarrow> I s \<Longrightarrow> ends (f x s) I" "I s"
  shows "ends (each f xs s) I"
  by (rule ends_each_prefix [of xs "\<lambda>_. I"]) (use assms in auto)

end
