(* ===== verification/Veri_Types.thy ===== *)
theory Veri_Types
  imports Arrival_Prelude
begin

text \<open>
  The specification types of the verification engine, \<^verbatim>\<open>veri/src/types.rs\<close>: bit-vector
  widths, primitive types and constants, with the partial orders the type solver merges along.
\<close>

section \<open>Widths and primitive types\<close>

datatype width = WUnknown | Bits nat

definition as_bits :: "width \<Rightarrow> nat option" where
  "as_bits w = (case w of WUnknown \<Rightarrow> None | Bits n \<Rightarrow> Some n)"

fun width_partial_cmp :: "width \<Rightarrow> width \<Rightarrow> ordering option" where
  "width_partial_cmp WUnknown WUnknown = Some Equal"
| "width_partial_cmp WUnknown (Bits _) = Some Less"
| "width_partial_cmp (Bits _) WUnknown = Some Greater"
| "width_partial_cmp (Bits l) (Bits r) = (if l = r then Some Equal else None)"

datatype ty = TUnspecified | TUnknown | TBitVector width | TInt | TBool | TUnit

fun is_concrete :: "ty \<Rightarrow> bool" where
  "is_concrete TUnspecified = True"
| "is_concrete TUnknown = False"
| "is_concrete (TBitVector WUnknown) = False"
| "is_concrete (TBitVector (Bits _)) = True"
| "is_concrete TInt = True"
| "is_concrete TBool = True"
| "is_concrete TUnit = True"

definition as_bit_vector_width :: "ty \<Rightarrow> width option" where
  "as_bit_vector_width t = (case t of TBitVector w \<Rightarrow> Some w | _ \<Rightarrow> None)"

fun is_compatible_with :: "ty \<Rightarrow> ty \<Rightarrow> bool" where
  "is_compatible_with TUnknown _ = True"
| "is_compatible_with _ TUnknown = True"
| "is_compatible_with TUnspecified TUnspecified = True"
| "is_compatible_with TUnit TUnit = True"
| "is_compatible_with TBool TBool = True"
| "is_compatible_with TInt TInt = True"
| "is_compatible_with (TBitVector _) (TBitVector _) = True"
| "is_compatible_with _ _ = False"

fun ty_partial_cmp :: "ty \<Rightarrow> ty \<Rightarrow> ordering option" where
  "ty_partial_cmp TUnspecified TUnspecified = Some Equal"
| "ty_partial_cmp TUnspecified _ = None"
| "ty_partial_cmp _ TUnspecified = None"
| "ty_partial_cmp TUnknown TUnknown = Some Equal"
| "ty_partial_cmp TUnknown _ = Some Less"
| "ty_partial_cmp _ TUnknown = Some Greater"
| "ty_partial_cmp (TBitVector l) (TBitVector r) = width_partial_cmp l r"
| "ty_partial_cmp TInt TInt = Some Equal"
| "ty_partial_cmp TBool TBool = Some Equal"
| "ty_partial_cmp TUnit TUnit = Some Equal"
| "ty_partial_cmp _ _ = None"

section \<open>Constants\<close>

datatype const = CBool bool | CInt int | CBitVector nat nat | CUnspecified

fun const_ty :: "const \<Rightarrow> ty" where
  "const_ty (CBool _) = TBool"
| "const_ty (CInt _) = TInt"
| "const_ty (CBitVector w _) = TBitVector (Bits w)"
| "const_ty CUnspecified = TUnspecified"

definition as_bool :: "const \<Rightarrow> bool option" where
  "as_bool c = (case c of CBool b \<Rightarrow> Some b | _ \<Rightarrow> None)"

definition as_int :: "const \<Rightarrow> int option" where
  "as_int c = (case c of CInt v \<Rightarrow> Some v | _ \<Rightarrow> None)"

section \<open>The orders\<close>

instantiation width :: order
begin
definition less_eq_width :: "width \<Rightarrow> width \<Rightarrow> bool" where
  "less_eq_width a b = cmp_le (width_partial_cmp a b)"
definition less_width :: "width \<Rightarrow> width \<Rightarrow> bool" where
  "less_width a b = (a \<le> b \<and> \<not> b \<le> (a :: width))"
instance
proof
  fix x y z :: width
  show "(x < y) = (x \<le> y \<and> \<not> y \<le> x)" by (simp add: less_width_def)
  show "x \<le> x" by (cases x) (simp_all add: less_eq_width_def)
  show "x \<le> y \<Longrightarrow> y \<le> z \<Longrightarrow> x \<le> z"
    by (cases x; cases y; cases z) (auto simp: less_eq_width_def split: if_splits)
  show "x \<le> y \<Longrightarrow> y \<le> x \<Longrightarrow> x = y"
    by (cases x; cases y) (auto simp: less_eq_width_def split: if_splits)
qed
end

lemma width_le_simps [simp]:
  "WUnknown \<le> w"
  "Bits n \<le> w \<longleftrightarrow> w = Bits n"
  by (cases w; auto simp: less_eq_width_def)+

instantiation ty :: order
begin
definition less_eq_ty :: "ty \<Rightarrow> ty \<Rightarrow> bool" where
  "less_eq_ty a b = cmp_le (ty_partial_cmp a b)"
definition less_ty :: "ty \<Rightarrow> ty \<Rightarrow> bool" where
  "less_ty a b = (a \<le> b \<and> \<not> b \<le> (a :: ty))"
instance
proof
  fix x y z :: ty
  show "(x < y) = (x \<le> y \<and> \<not> y \<le> x)" by (simp add: less_ty_def)
  show "x \<le> x" by (cases x) (simp_all add: less_eq_ty_def flip: less_eq_width_def)
  show "x \<le> y \<Longrightarrow> y \<le> z \<Longrightarrow> x \<le> z"
    by (cases x; cases y; cases z) (auto simp: less_eq_ty_def simp flip: less_eq_width_def)
  show "x \<le> y \<Longrightarrow> y \<le> x \<Longrightarrow> x = y"
    by (cases x; cases y) (auto simp: less_eq_ty_def simp flip: less_eq_width_def)
qed
end

lemma ty_le_simps [simp]:
  "TUnspecified \<le> t \<longleftrightarrow> t = TUnspecified"
  "TUnknown \<le> t \<longleftrightarrow> t \<noteq> TUnspecified"
  "TInt \<le> t \<longleftrightarrow> t = TInt"
  "TBool \<le> t \<longleftrightarrow> t = TBool"
  "TUnit \<le> t \<longleftrightarrow> t = TUnit"
  "TBitVector w \<le> t \<longleftrightarrow> (\<exists>v. t = TBitVector v \<and> w \<le> v)"
  by (cases t; auto simp: less_eq_ty_def less_eq_width_def)+

lemma ty_le_concrete: "is_concrete t \<Longrightarrow> t \<le> u \<longleftrightarrow> u = t"
  by (cases t rule: is_concrete.cases) auto

lemma width_partial_cmp_char:
  "width_partial_cmp a b =
     (if a = b then Some Equal else if a \<le> b then Some Less
      else if b \<le> a then Some Greater else None)"
  by (cases a; cases b) (auto simp: less_eq_width_def)

lemma ty_partial_cmp_char:
  "ty_partial_cmp a b =
     (if a = b then Some Equal else if a \<le> b then Some Less
      else if b \<le> a then Some Greater else None)"
  by (cases a; cases b) (auto simp: width_partial_cmp_char)

lemma accessor_Some_iffs [simp]:
  "as_bits w = Some n \<longleftrightarrow> w = Bits n"
  "as_bit_vector_width t = Some w \<longleftrightarrow> t = TBitVector w"
  "as_bool c = Some b \<longleftrightarrow> c = CBool b"
  "as_int c = Some v \<longleftrightarrow> c = CInt v"
  by (auto simp: as_bits_def as_bit_vector_width_def as_bool_def as_int_def
      split: width.splits ty.splits const.splits)

lemma const_ty_concrete [simp]: "is_concrete (const_ty c)"
  by (cases c) auto

end
