(* ===== verification/Type_Values.thy ===== *)
theory Type_Values
  imports Veri_Types
begin

text \<open>
  What the type solver knows of an expression, the enum \<^verbatim>\<open>TypeValue\<close> of
  \<^verbatim>\<open>veri/src/type_inference.rs\<close>: a type, or a constant together with its type. The solver
  moves up the order \<^verbatim>\<open>PartialOrd for TypeValue\<close> by \<^verbatim>\<open>TypeValue::merge\<close>. The locale
  \<open>merge_order\<close> states what the solver relies on: merging gives the least common
  refinement whenever there is a common refinement at all, and chains have bounded length.
\<close>

section \<open>The interface of a mergeable order\<close>

locale merge_order =
  fixes merge :: "'v::order \<Rightarrow> 'v \<Rightarrow> 'v option"
    and height :: "'v \<Rightarrow> nat"
    and bound :: nat
  assumes merge_upper: "merge a b = Some m \<Longrightarrow> a \<le> m \<and> b \<le> m"
    and merge_least: "merge a b = Some m \<Longrightarrow> a \<le> u \<Longrightarrow> b \<le> u \<Longrightarrow> m \<le> u"
    and merge_defined: "a \<le> u \<Longrightarrow> b \<le> u \<Longrightarrow> merge a b \<noteq> None"
    and height_less: "a < b \<Longrightarrow> height a < height b"
    and height_bound: "height a \<le> bound"
begin

lemma merge_eq_Some_iff: "merge a b = Some m \<longleftrightarrow> a \<le> m \<and> b \<le> m \<and> (\<forall>u. a \<le> u \<longrightarrow> b \<le> u \<longrightarrow> m \<le> u)"
proof
  assume R: "a \<le> m \<and> b \<le> m \<and> (\<forall>u. a \<le> u \<longrightarrow> b \<le> u \<longrightarrow> m \<le> u)"
  then obtain m' where m': "merge a b = Some m'" using merge_defined by blast
  then have "m' = m" using R merge_upper merge_least by (meson antisym)
  with m' show "merge a b = Some m" by simp
qed (use merge_upper merge_least in blast)

lemma merge_None_iff: "merge a b = None \<longleftrightarrow> (\<nexists>u. a \<le> u \<and> b \<le> u)"
  by (metis merge_defined merge_upper not_None_eq)

lemma merge_unchanged_iff: "merge a b = Some a \<longleftrightarrow> b \<le> a"
  by (auto simp: merge_eq_Some_iff)

lemma merge_commute: "merge a b = merge b a"
proof (cases "merge a b")
  case None
  then have "merge b a = None" by (auto simp: merge_None_iff)
  with None show ?thesis by simp
next
  case (Some m)
  then have "merge b a = Some m" by (auto simp: merge_eq_Some_iff)
  with Some show ?thesis by simp
qed

lemma merge_changed_height: "merge a b = Some m \<Longrightarrow> m \<noteq> a \<Longrightarrow> height a < height m"
  using merge_upper [of a b m] by (intro height_less) auto

lemma height_mono: "a \<le> b \<Longrightarrow> height a \<le> height b"
  using height_less by (fastforce simp: order_le_less)

end

section \<open>Type values\<close>

datatype type_value = TVType ty | TVValue const

fun tv_ty :: "type_value \<Rightarrow> ty" where
  "tv_ty (TVType t) = t"
| "tv_ty (TVValue c) = const_ty c"

definition as_value :: "type_value \<Rightarrow> const option" where
  "as_value tv = (case tv of TVValue c \<Rightarrow> Some c | _ \<Rightarrow> None)"

fun tv_partial_cmp :: "type_value \<Rightarrow> type_value \<Rightarrow> ordering option" where
  "tv_partial_cmp (TVType l) (TVType r) = ty_partial_cmp l r"
| "tv_partial_cmp (TVType t) (TVValue v) =
     (if cmp_le (ty_partial_cmp t (const_ty v)) then Some Less else None)"
| "tv_partial_cmp (TVValue v) (TVType t) =
     (if cmp_ge (ty_partial_cmp (const_ty v) t) then Some Greater else None)"
| "tv_partial_cmp (TVValue l) (TVValue r) = (if l = r then Some Equal else None)"

definition refines_type :: "type_value \<Rightarrow> ty \<Rightarrow> bool" where
  "refines_type tv t = cmp_ge (tv_partial_cmp tv (TVType t))"

definition tv_merge :: "type_value \<Rightarrow> type_value \<Rightarrow> type_value option" where
  "tv_merge l r =
     (case tv_partial_cmp l r of
        Some Greater \<Rightarrow> Some l
      | Some Less \<Rightarrow> Some r
      | Some Equal \<Rightarrow> Some r
      | None \<Rightarrow> None)"

instantiation type_value :: order
begin
definition less_eq_type_value :: "type_value \<Rightarrow> type_value \<Rightarrow> bool" where
  "less_eq_type_value a b = cmp_le (tv_partial_cmp a b)"
definition less_type_value :: "type_value \<Rightarrow> type_value \<Rightarrow> bool" where
  "less_type_value a b = (a \<le> b \<and> \<not> b \<le> (a :: type_value))"
instance
proof
  fix x y z :: type_value
  show "(x < y) = (x \<le> y \<and> \<not> y \<le> x)" by (simp add: less_type_value_def)
  show "x \<le> x" by (cases x) (simp_all add: less_eq_type_value_def flip: less_eq_ty_def)
  show "x \<le> y \<Longrightarrow> y \<le> z \<Longrightarrow> x \<le> z"
    by (cases x; cases y; cases z)
      (auto simp: less_eq_type_value_def simp flip: less_eq_ty_def split: if_splits)
  show "x \<le> y \<Longrightarrow> y \<le> x \<Longrightarrow> x = y"
    by (cases x; cases y)
      (auto simp: less_eq_type_value_def simp flip: less_eq_ty_def split: if_splits)
qed
end

lemma as_value_Some_iff [simp]: "as_value tv = Some c \<longleftrightarrow> tv = TVValue c"
  by (auto simp: as_value_def split: type_value.splits)

lemma cmp_ge_ty: "cmp_ge (ty_partial_cmp a b) \<longleftrightarrow> b \<le> a"
  by (auto simp: ty_partial_cmp_char)

lemma tv_le_simps [simp]:
  "TVType a \<le> TVType b \<longleftrightarrow> a \<le> b"
  "TVType a \<le> TVValue c \<longleftrightarrow> a \<le> const_ty c"
  "TVValue c \<le> tv \<longleftrightarrow> tv = TVValue c"
  by (cases tv; auto simp: less_eq_type_value_def less_eq_ty_def)+

lemma tv_partial_cmp_char:
  "tv_partial_cmp a b =
     (if a = b then Some Equal else if a \<le> b then Some Less
      else if b \<le> a then Some Greater else None)"
  by (cases a; cases b) (auto simp: ty_partial_cmp_char cmp_ge_ty simp flip: less_eq_ty_def)

lemma refines_type_iff: "refines_type tv t \<longleftrightarrow> TVType t \<le> tv"
  by (auto simp: refines_type_def tv_partial_cmp_char)

lemma tv_merge_char:
  "tv_merge a b = (if a \<le> b then Some b else if b \<le> a then Some a else None)"
  by (auto simp: tv_merge_def tv_partial_cmp_char)

lemma tv_ty_mono: "a \<le> b \<Longrightarrow> tv_ty a \<le> tv_ty b"
  by (cases a; cases b) auto

lemma TVType_tv_ty_le: "TVType (tv_ty tv) \<le> tv"
  by (cases tv) auto

lemma TVType_le_iff: "TVType t \<le> tv \<longleftrightarrow> t \<le> tv_ty tv"
  by (cases tv) auto

text \<open>What lies below a type value is a chain, so two type values with a common refinement compare.\<close>

lemma width_below_chain: "(a::width) \<le> u \<Longrightarrow> b \<le> u \<Longrightarrow> a \<le> b \<or> b \<le> a"
  by (cases a; cases b) auto

lemma ty_below_chain: "(a::ty) \<le> u \<Longrightarrow> b \<le> u \<Longrightarrow> a \<le> b \<or> b \<le> a"
  by (cases a; cases b) (auto dest: width_below_chain)

lemma tv_below_chain: "(a::type_value) \<le> u \<Longrightarrow> b \<le> u \<Longrightarrow> a \<le> b \<or> b \<le> a"
  by (cases a; cases b; cases u) (auto dest: ty_below_chain)

fun tv_height :: "type_value \<Rightarrow> nat" where
  "tv_height (TVType TUnknown) = 0"
| "tv_height (TVType (TBitVector WUnknown)) = 1"
| "tv_height (TVType _) = 2"
| "tv_height (TVValue _) = 3"

lemma tv_height_less: "a < b \<Longrightarrow> tv_height a < tv_height b"
proof -
  assume "a < b"
  then have "a \<le> b" "a \<noteq> b" by auto
  then show ?thesis
    by (cases a rule: tv_height.cases; cases b rule: tv_height.cases) auto
qed

interpretation tv: merge_order tv_merge tv_height 3
proof
  fix a b m u :: type_value
  show "tv_merge a b = Some m \<Longrightarrow> a \<le> m \<and> b \<le> m"
    by (auto simp: tv_merge_char split: if_splits)
  show "tv_merge a b = Some m \<Longrightarrow> a \<le> u \<Longrightarrow> b \<le> u \<Longrightarrow> m \<le> u"
    by (auto simp: tv_merge_char split: if_splits)
  show "a \<le> u \<Longrightarrow> b \<le> u \<Longrightarrow> tv_merge a b \<noteq> None"
    by (auto simp: tv_merge_char dest: tv_below_chain)
  show "a < b \<Longrightarrow> tv_height a < tv_height b" by (rule tv_height_less)
  show "tv_height a \<le> 3" by (cases a rule: tv_height.cases) auto
qed

text \<open>
  C12. Merging two type values keeps exactly their common refinements: it fails only when there is
  none, and otherwise the refinements of the result are those of both arguments.
\<close>
theorem merge_common_refinements:
  "{u. cmp_le (tv_partial_cmp a u) \<and> cmp_le (tv_partial_cmp b u)} =
     (case tv_merge a b of None \<Rightarrow> {} | Some m \<Rightarrow> {u. cmp_le (tv_partial_cmp m u)})"
proof (cases "tv_merge a b")
  case None
  with tv.merge_None_iff [of a b] show ?thesis by (auto simp flip: less_eq_type_value_def)
next
  case (Some m)
  with tv.merge_eq_Some_iff [of a b m] show ?thesis
    by (auto simp flip: less_eq_type_value_def intro: order_trans)
qed

end
