(* ===== verification/Veri_Expr.thy ===== *)
theory Veri_Expr
  imports Veri_Types
begin

text \<open>
  The expressions of verification conditions, the enum \<^verbatim>\<open>Expr\<close> of \<^verbatim>\<open>veri/src/veri.rs\<close>:
  one constructor per variant, operands as indices into the expression table.
\<close>

type_synonym expr_id = nat
type_synonym variable_id = nat

datatype (plugins only: size) expr =
    EConst const
  | EVariable variable_id
  | ENot expr_id
  | EAnd expr_id expr_id
  | EOr expr_id expr_id
  | EImp expr_id expr_id
  | EEq expr_id expr_id
  | ELt expr_id expr_id
  | ELte expr_id expr_id
  | EBVUgt expr_id expr_id
  | EBVUge expr_id expr_id
  | EBVUlt expr_id expr_id
  | EBVUle expr_id expr_id
  | EBVSgt expr_id expr_id
  | EBVSge expr_id expr_id
  | EBVSlt expr_id expr_id
  | EBVSle expr_id expr_id
  | EBVSaddo expr_id expr_id
  | EBVNot expr_id
  | EBVNeg expr_id
  | ECls expr_id
  | EClz expr_id
  | ERev expr_id
  | EPopcnt expr_id
  | EAdd expr_id expr_id
  | ESub expr_id expr_id
  | EMul expr_id expr_id
  | EBVAdd expr_id expr_id
  | EBVSub expr_id expr_id
  | EBVMul expr_id expr_id
  | EBVSDiv expr_id expr_id
  | EBVUDiv expr_id expr_id
  | EBVSRem expr_id expr_id
  | EBVURem expr_id expr_id
  | EBVAnd expr_id expr_id
  | EBVOr expr_id expr_id
  | EBVXor expr_id expr_id
  | EBVShl expr_id expr_id
  | EBVLShr expr_id expr_id
  | EBVAShr expr_id expr_id
  | EBVRotl expr_id expr_id
  | EBVRotr expr_id expr_id
  | EConditional expr_id expr_id expr_id
  | EBVZeroExt expr_id expr_id
  | EBVSignExt expr_id expr_id
  | EBVConvTo expr_id expr_id
  | EBVExtract nat nat expr_id
  | EBVConcat expr_id expr_id
  | EInt2BV expr_id expr_id
  | EBV2Nat expr_id
  | EWidthOf expr_id
  | EToFP expr_id expr_id
  | EToFPUnsigned expr_id expr_id
  | EToFPFromFP expr_id expr_id
  | EFPToUBV expr_id expr_id
  | EFPToSBV expr_id expr_id
  | EFPPositiveInfinity expr_id
  | EFPNegativeInfinity expr_id
  | EFPPositiveZero expr_id
  | EFPNegativeZero expr_id
  | EFPNaN expr_id
  | EFPEq expr_id expr_id
  | EFPNe expr_id expr_id
  | EFPLt expr_id expr_id
  | EFPGt expr_id expr_id
  | EFPLe expr_id expr_id
  | EFPGe expr_id expr_id
  | EFPAdd expr_id expr_id
  | EFPSub expr_id expr_id
  | EFPMul expr_id expr_id
  | EFPDiv expr_id expr_id
  | EFPMin expr_id expr_id
  | EFPMax expr_id expr_id
  | EFPNeg expr_id
  | EFPCeil expr_id
  | EFPFloor expr_id
  | EFPSqrt expr_id
  | EFPTrunc expr_id
  | EFPNearest expr_id
  | EFPIsZero expr_id
  | EFPIsInfinite expr_id
  | EFPIsNaN expr_id
  | EFPIsNegative expr_id
  | EFPIsPositive expr_id

definition is_variable :: "expr \<Rightarrow> bool" where
  "is_variable e = (case e of EVariable _ \<Rightarrow> True | _ \<Rightarrow> False)"

definition expr_pure :: "expr \<Rightarrow> bool" where
  "expr_pure e = (case e of EBVConvTo _ _ \<Rightarrow> False | _ \<Rightarrow> True)"

primrec sources :: "expr \<Rightarrow> expr_id list" where
  "sources (EConst _) = []"
| "sources (EVariable _) = []"
| "sources (ENot x) = [x]"
| "sources (EAnd x y) = [x, y]"
| "sources (EOr x y) = [x, y]"
| "sources (EImp x y) = [x, y]"
| "sources (EEq x y) = [x, y]"
| "sources (ELt x y) = [x, y]"
| "sources (ELte x y) = [x, y]"
| "sources (EBVUgt x y) = [x, y]"
| "sources (EBVUge x y) = [x, y]"
| "sources (EBVUlt x y) = [x, y]"
| "sources (EBVUle x y) = [x, y]"
| "sources (EBVSgt x y) = [x, y]"
| "sources (EBVSge x y) = [x, y]"
| "sources (EBVSlt x y) = [x, y]"
| "sources (EBVSle x y) = [x, y]"
| "sources (EBVSaddo x y) = [x, y]"
| "sources (EBVNot x) = [x]"
| "sources (EBVNeg x) = [x]"
| "sources (ECls x) = [x]"
| "sources (EClz x) = [x]"
| "sources (ERev x) = [x]"
| "sources (EPopcnt x) = [x]"
| "sources (EAdd x y) = [x, y]"
| "sources (ESub x y) = [x, y]"
| "sources (EMul x y) = [x, y]"
| "sources (EBVAdd x y) = [x, y]"
| "sources (EBVSub x y) = [x, y]"
| "sources (EBVMul x y) = [x, y]"
| "sources (EBVSDiv x y) = [x, y]"
| "sources (EBVUDiv x y) = [x, y]"
| "sources (EBVSRem x y) = [x, y]"
| "sources (EBVURem x y) = [x, y]"
| "sources (EBVAnd x y) = [x, y]"
| "sources (EBVOr x y) = [x, y]"
| "sources (EBVXor x y) = [x, y]"
| "sources (EBVShl x y) = [x, y]"
| "sources (EBVLShr x y) = [x, y]"
| "sources (EBVAShr x y) = [x, y]"
| "sources (EBVRotl x y) = [x, y]"
| "sources (EBVRotr x y) = [x, y]"
| "sources (EConditional x y z) = [x, y, z]"
| "sources (EBVZeroExt x y) = [x, y]"
| "sources (EBVSignExt x y) = [x, y]"
| "sources (EBVConvTo x y) = [x, y]"
| "sources (EBVExtract _ _ x) = [x]"
| "sources (EBVConcat x y) = [x, y]"
| "sources (EInt2BV x y) = [x, y]"
| "sources (EBV2Nat x) = [x]"
| "sources (EWidthOf x) = [x]"
| "sources (EToFP x y) = [x, y]"
| "sources (EToFPUnsigned x y) = [x, y]"
| "sources (EToFPFromFP x y) = [x, y]"
| "sources (EFPToUBV x y) = [x, y]"
| "sources (EFPToSBV x y) = [x, y]"
| "sources (EFPPositiveInfinity x) = [x]"
| "sources (EFPNegativeInfinity x) = [x]"
| "sources (EFPPositiveZero x) = [x]"
| "sources (EFPNegativeZero x) = [x]"
| "sources (EFPNaN x) = [x]"
| "sources (EFPEq x y) = [x, y]"
| "sources (EFPNe x y) = [x, y]"
| "sources (EFPLt x y) = [x, y]"
| "sources (EFPGt x y) = [x, y]"
| "sources (EFPLe x y) = [x, y]"
| "sources (EFPGe x y) = [x, y]"
| "sources (EFPAdd x y) = [x, y]"
| "sources (EFPSub x y) = [x, y]"
| "sources (EFPMul x y) = [x, y]"
| "sources (EFPDiv x y) = [x, y]"
| "sources (EFPMin x y) = [x, y]"
| "sources (EFPMax x y) = [x, y]"
| "sources (EFPNeg x) = [x]"
| "sources (EFPCeil x) = [x]"
| "sources (EFPFloor x) = [x]"
| "sources (EFPSqrt x) = [x]"
| "sources (EFPTrunc x) = [x]"
| "sources (EFPNearest x) = [x]"
| "sources (EFPIsZero x) = [x]"
| "sources (EFPIsInfinite x) = [x]"
| "sources (EFPIsNaN x) = [x]"
| "sources (EFPIsNegative x) = [x]"
| "sources (EFPIsPositive x) = [x]"

end
