(* ===== verification/Type_Constraints.thy ===== *)
theory Type_Constraints
  imports Type_Values Veri_Expr
begin

text \<open>
  Type constraints and assignments of \<^verbatim>\<open>veri/src/type_inference.rs\<close>, and the reference check
  \<^verbatim>\<open>Assignment::satisfies_constraints\<close> that an assignment satisfies a list of constraints.
\<close>

section \<open>Constraints\<close>

datatype literal = LVar expr_id | LNot expr_id

datatype ty_constraint =
    CType expr_id ty
  | CSameType expr_id expr_id
  | CIdentical expr_id expr_id
  | CWidthOf expr_id expr_id
  | CConcat expr_id expr_id expr_id
  | CValue expr_id const
  | CImplies expr_id ty_constraint
  | CClause "literal list"

section \<open>Assignments\<close>

text \<open>The struct \<^verbatim>\<open>Assignment\<close> has the one field \<^verbatim>\<open>expr_type_value\<close>.\<close>

type_synonym assignment = "(expr_id, type_value) hashmap"

definition assignment_is_concrete :: "assignment \<Rightarrow> bool" where
  "assignment_is_concrete A = list_all (\<lambda>tv. is_concrete (tv_ty tv)) (map snd A)"

datatype check_error =
    MissingAssignment expr_id
  | NotKnownValue expr_id
  | NotRefinement type_value ty
  | NotSameType expr_id expr_id ty ty
  | NotIdentical expr_id expr_id type_value type_value
  | NotKnownWidth expr_id
  | NotConcatenation expr_id expr_id expr_id
  | UnexpectedValue const const
  | FalseClause

type_synonym check = "(check_error, unit) outcome"

definition try_assignment :: "assignment \<Rightarrow> expr_id \<Rightarrow> (check_error, type_value) outcome" where
  "try_assignment A x =
     (case hm_get A x of None \<Rightarrow> Err (MissingAssignment x) | Some tv \<Rightarrow> Ok tv)"

definition value_at :: "assignment \<Rightarrow> expr_id \<Rightarrow> const option" where
  "value_at A x = Option.bind (hm_get A x) as_value"

definition try_value :: "assignment \<Rightarrow> expr_id \<Rightarrow> (check_error, const) outcome" where
  "try_value A x = (case value_at A x of None \<Rightarrow> Err (NotKnownValue x) | Some c \<Rightarrow> Ok c)"

definition bool_value :: "assignment \<Rightarrow> expr_id \<Rightarrow> bool option" where
  "bool_value A x = Option.bind (value_at A x) as_bool"

definition int_value :: "assignment \<Rightarrow> expr_id \<Rightarrow> int option" where
  "int_value A x = Option.bind (value_at A x) as_int"

fun literal_value :: "assignment \<Rightarrow> literal \<Rightarrow> bool option" where
  "literal_value A (LVar x) = bool_value A x"
| "literal_value A (LNot x) = map_option Not (bool_value A x)"

definition bit_vector_width :: "assignment \<Rightarrow> expr_id \<Rightarrow> nat option" where
  "bit_vector_width A x =
     Option.bind (hm_get A x) (\<lambda>tv. Option.bind (as_bit_vector_width (tv_ty tv)) as_bits)"

definition try_bit_vector_width :: "assignment \<Rightarrow> expr_id \<Rightarrow> (check_error, nat) outcome" where
  "try_bit_vector_width A x =
     (case bit_vector_width A x of None \<Rightarrow> Err (NotKnownWidth x) | Some w \<Rightarrow> Ok w)"

section \<open>The reference check\<close>

definition expect_expr_type_refinement :: "assignment \<Rightarrow> expr_id \<Rightarrow> ty \<Rightarrow> check" where
  "expect_expr_type_refinement A x base =
     oc_bind (try_assignment A x) (\<lambda>tv.
       if \<not> refines_type tv base then Err (NotRefinement tv base) else Ok ())"

definition expect_same_type :: "assignment \<Rightarrow> expr_id \<Rightarrow> expr_id \<Rightarrow> check" where
  "expect_same_type A x y =
     oc_bind (try_assignment A x) (\<lambda>tvx.
     oc_bind (try_assignment A y) (\<lambda>tvy.
       if tv_ty tvx \<noteq> tv_ty tvy then Err (NotSameType x y (tv_ty tvx) (tv_ty tvy)) else Ok ()))"

definition expect_identical :: "assignment \<Rightarrow> expr_id \<Rightarrow> expr_id \<Rightarrow> check" where
  "expect_identical A x y =
     oc_bind (try_assignment A x) (\<lambda>tvx.
     oc_bind (try_assignment A y) (\<lambda>tvy.
       if tvx \<noteq> tvy then Err (NotIdentical x y tvx tvy) else Ok ()))"

definition expect_value :: "assignment \<Rightarrow> expr_id \<Rightarrow> const \<Rightarrow> check" where
  "expect_value A x expect =
     oc_bind (try_value A x) (\<lambda>got.
       if got \<noteq> expect then Err (UnexpectedValue expect got) else Ok ())"

definition expect_width_of :: "assignment \<Rightarrow> expr_id \<Rightarrow> expr_id \<Rightarrow> check" where
  "expect_width_of A x w =
     oc_bind (try_bit_vector_width A x) (\<lambda>width. expect_value A w (CInt (int width)))"

definition expect_concat :: "assignment \<Rightarrow> expr_id \<Rightarrow> expr_id \<Rightarrow> expr_id \<Rightarrow> check" where
  "expect_concat A x l r =
     oc_bind (try_bit_vector_width A x) (\<lambda>x_width.
     oc_bind (try_bit_vector_width A l) (\<lambda>l_width.
     oc_bind (try_bit_vector_width A r) (\<lambda>r_width.
       if l_width + r_width \<ge> usize_limit then Panic
       else if x_width \<noteq> l_width + r_width then Err (NotConcatenation x l r) else Ok ())))"

fun expect_clause :: "assignment \<Rightarrow> literal list \<Rightarrow> check" where
  "expect_clause A [] = Err FalseClause"
| "expect_clause A (lit # literals) =
     (case literal_value A lit of
        Some True \<Rightarrow> Ok ()
      | None \<Rightarrow> Ok ()
      | Some False \<Rightarrow> expect_clause A literals)"

fun satisfies_constraint :: "assignment \<Rightarrow> ty_constraint \<Rightarrow> check" where
  "satisfies_constraint A (CType x t) = expect_expr_type_refinement A x t"
| "satisfies_constraint A (CSameType x y) = expect_same_type A x y"
| "satisfies_constraint A (CIdentical x y) = expect_identical A x y"
| "satisfies_constraint A (CWidthOf x w) = expect_width_of A x w"
| "satisfies_constraint A (CConcat x l r) = expect_concat A x l r"
| "satisfies_constraint A (CValue x c) = expect_value A x c"
| "satisfies_constraint A (CImplies c then') =
     (if bool_value A c = Some True then satisfies_constraint A then' else Ok ())"
| "satisfies_constraint A (CClause literals) = expect_clause A literals"

definition satisfies_constraints :: "assignment \<Rightarrow> ty_constraint list \<Rightarrow> check" where
  "satisfies_constraints A cs = try_for_each (satisfies_constraint A) cs"

section \<open>What the check means\<close>

lemma value_at_Some [simp]: "value_at A x = Some c \<longleftrightarrow> hm_get A x = Some (TVValue c)"
  by (auto simp: value_at_def bind_eq_Some_conv)

lemma bool_value_Some [simp]: "bool_value A x = Some b \<longleftrightarrow> hm_get A x = Some (TVValue (CBool b))"
  by (auto simp: bool_value_def bind_eq_Some_conv)

lemma int_value_Some [simp]: "int_value A x = Some v \<longleftrightarrow> hm_get A x = Some (TVValue (CInt v))"
  by (auto simp: int_value_def bind_eq_Some_conv)

lemma bit_vector_width_Some [simp]:
  "bit_vector_width A x = Some w \<longleftrightarrow>
     (\<exists>tv. hm_get A x = Some tv \<and> tv_ty tv = TBitVector (Bits w))"
  by (auto simp: bit_vector_width_def bind_eq_Some_conv)

lemma try_Ok_simps [simp]:
  "try_assignment A x = Ok tv \<longleftrightarrow> hm_get A x = Some tv"
  "try_value A x = Ok c \<longleftrightarrow> value_at A x = Some c"
  "try_bit_vector_width A x = Ok w \<longleftrightarrow> bit_vector_width A x = Some w"
  by (simp_all add: try_assignment_def try_value_def try_bit_vector_width_def
      del: value_at_Some bit_vector_width_Some split: option.split)

lemma satisfies_iffs:
  "satisfies_constraint A (CType x t) = Ok () \<longleftrightarrow>
     (\<exists>tv. hm_get A x = Some tv \<and> TVType t \<le> tv)"
  "satisfies_constraint A (CSameType x y) = Ok () \<longleftrightarrow>
     (\<exists>tvx tvy. hm_get A x = Some tvx \<and> hm_get A y = Some tvy \<and> tv_ty tvx = tv_ty tvy)"
  "satisfies_constraint A (CIdentical x y) = Ok () \<longleftrightarrow>
     (\<exists>tv. hm_get A x = Some tv \<and> hm_get A y = Some tv)"
  "satisfies_constraint A (CWidthOf x w) = Ok () \<longleftrightarrow>
     (\<exists>n. bit_vector_width A x = Some n \<and> hm_get A w = Some (TVValue (CInt (int n))))"
  "satisfies_constraint A (CConcat x l r) = Ok () \<longleftrightarrow>
     (\<exists>lw rw. bit_vector_width A l = Some lw \<and> bit_vector_width A r = Some rw \<and>
        bit_vector_width A x = Some (lw + rw) \<and> lw + rw < usize_limit)"
  "satisfies_constraint A (CValue x c) = Ok () \<longleftrightarrow> hm_get A x = Some (TVValue c)"
  by (auto simp: expect_expr_type_refinement_def expect_same_type_def expect_identical_def
      expect_width_of_def expect_concat_def expect_value_def refines_type_iff
      simp del: bit_vector_width_Some split: if_splits)

lemma expect_clause_Ok_iff:
  "expect_clause A lits = Ok () \<longleftrightarrow> (\<exists>l\<in>set lits. literal_value A l \<noteq> Some False)"
  by (induction lits) (auto split: option.splits bool.splits)

end
