(* ===== verification/Type_Solver.thy ===== *)
theory Type_Solver
  imports Type_Constraints
begin

text \<open>
  The type solver \<^verbatim>\<open>Solver\<close> of \<^verbatim>\<open>veri/src/type_inference.rs\<close>: constraint propagation to a
  fixpoint. A solver action takes the assignment and returns the assignment it leaves behind
  together with the result, so that a failing action still shows how far it got.
\<close>

section \<open>Status of a solution\<close>

text \<open>The formatted reason of a conflict is kept as the data it prints.\<close>

datatype reason =
    ConcreteTypeError type_value type_value
  | InapplicableTypeValue type_value type_value
  | InapplicableConcatLeft expr_id expr_id
  | InapplicableConcatRight expr_id expr_id
  | InapplicableConcatKnown expr_id expr_id

record conflict =
  conflict_x :: expr_id
  conflict_reason :: reason

datatype status = Solved | Inapplicable conflict | Underconstrained | TypeError conflict

type_synonym 'a solver = "assignment \<Rightarrow> assignment \<times> (status, 'a) outcome"

section \<open>Solver actions\<close>

text \<open>\<^verbatim>\<open>Ok(f? | g?)\<close>: both sides run unless the first fails.\<close>

definition s_or :: "bool solver \<Rightarrow> bool solver \<Rightarrow> bool solver" where
  "s_or f g A =
     (case f A of
        (A', Ok a) \<Rightarrow> (case g A' of (A'', r) \<Rightarrow> (A'', oc_bind r (\<lambda>b. Ok (a \<or> b))))
      | (A', r) \<Rightarrow> (A', r))"

definition set_type_value :: "expr_id \<Rightarrow> type_value \<Rightarrow> bool solver" where
  "set_type_value x tv A =
     (case hm_get A x of
        None \<Rightarrow> (hm_insert x tv A, Ok True)
      | Some existing \<Rightarrow>
          (case tv_merge existing tv of
             None \<Rightarrow>
               (A, Err (if \<not> is_compatible_with (tv_ty existing) (tv_ty tv)
                        then TypeError \<lparr>conflict_x = x, conflict_reason = ConcreteTypeError existing tv\<rparr>
                        else Inapplicable \<lparr>conflict_x = x, conflict_reason = InapplicableTypeValue existing tv\<rparr>))
           | Some merged \<Rightarrow>
               if merged \<noteq> existing then (hm_insert x merged A, Ok True) else (A, Ok False)))"

definition set_type :: "expr_id \<Rightarrow> ty \<Rightarrow> bool solver" where
  "set_type x t = set_type_value x (TVType t)"

definition set_bit_vector_width :: "expr_id \<Rightarrow> nat \<Rightarrow> bool solver" where
  "set_bit_vector_width x bits = set_type x (TBitVector (Bits bits))"

definition set_value :: "expr_id \<Rightarrow> const \<Rightarrow> bool solver" where
  "set_value x c = set_type_value x (TVValue c)"

definition set_bool_value :: "expr_id \<Rightarrow> bool \<Rightarrow> bool solver" where
  "set_bool_value x b = set_value x (CBool b)"

definition set_int_value :: "expr_id \<Rightarrow> int \<Rightarrow> bool solver" where
  "set_int_value x v = set_value x (CInt v)"

fun set_literal :: "literal \<Rightarrow> bool \<Rightarrow> bool solver" where
  "set_literal (LVar x) b = set_bool_value x b"
| "set_literal (LNot x) b = set_bool_value x (\<not> b)"

definition same_type :: "expr_id \<Rightarrow> expr_id \<Rightarrow> bool solver" where
  "same_type x y A =
     (case (hm_get A x, hm_get A y) of
        (None, None) \<Rightarrow> (A, Ok False)
      | (Some tvx, None) \<Rightarrow> set_type y (tv_ty tvx) A
      | (None, Some tvy) \<Rightarrow> set_type x (tv_ty tvy) A
      | (Some tvx, Some tvy) \<Rightarrow> s_or (set_type x (tv_ty tvy)) (set_type y (tv_ty tvx)) A)"

definition identical :: "expr_id \<Rightarrow> expr_id \<Rightarrow> bool solver" where
  "identical x y A =
     (case (hm_get A x, hm_get A y) of
        (None, None) \<Rightarrow> (A, Ok False)
      | (Some tvx, None) \<Rightarrow> set_type_value y tvx A
      | (None, Some tvy) \<Rightarrow> set_type_value x tvy A
      | (Some tvx, Some tvy) \<Rightarrow> s_or (set_type_value x tvy) (set_type_value y tvx) A)"

definition width_of :: "expr_id \<Rightarrow> expr_id \<Rightarrow> bool solver" where
  "width_of x w A =
     (case hm_get A x of
        Some (TVType (TBitVector (Bits width))) \<Rightarrow> set_int_value w (int width) A
      | Some (TVValue (CBitVector width _)) \<Rightarrow> set_int_value w (int width) A
      | _ \<Rightarrow>
          (case hm_get A w of
             Some (TVValue (CInt v)) \<Rightarrow>
               if 0 \<le> v \<and> v < int usize_limit then set_bit_vector_width x (nat v) A else (A, Panic)
           | _ \<Rightarrow> (A, Ok False)))"

definition concat_widths :: "expr_id \<Rightarrow> expr_id \<Rightarrow> expr_id \<Rightarrow> bool solver" where
  "concat_widths x l r A =
     (case (bit_vector_width A x, bit_vector_width A l, bit_vector_width A r) of
        (None, Some lw, Some rw) \<Rightarrow>
          if lw + rw < usize_limit then set_bit_vector_width x (lw + rw) A else (A, Panic)
      | (Some xw, None, Some rw) \<Rightarrow>
          if rw \<le> xw then set_bit_vector_width l (xw - rw) A
          else (A, Err (Inapplicable \<lparr>conflict_x = l, conflict_reason = InapplicableConcatLeft l r\<rparr>))
      | (Some xw, Some lw, None) \<Rightarrow>
          if lw \<le> xw then set_bit_vector_width r (xw - lw) A
          else (A, Err (Inapplicable \<lparr>conflict_x = r, conflict_reason = InapplicableConcatRight l r\<rparr>))
      | (Some xw, Some lw, Some rw) \<Rightarrow>
          if \<not> lw + rw < usize_limit then (A, Panic)
          else if xw \<noteq> lw + rw
          then (A, Err (Inapplicable \<lparr>conflict_x = x, conflict_reason = InapplicableConcatKnown l r\<rparr>))
          else (A, Ok False)
      | _ \<Rightarrow> (A, Ok False))"

text \<open>The scan of \<^verbatim>\<open>clause\<close>: the one unknown literal, if every other literal is false.\<close>

fun clause_unknown :: "assignment \<Rightarrow> literal option \<Rightarrow> literal list \<Rightarrow> literal option" where
  "clause_unknown A unknown [] = unknown"
| "clause_unknown A unknown (lit # literals) =
     (case (literal_value A lit, unknown) of
        (Some True, _) \<Rightarrow> None
      | (Some False, _) \<Rightarrow> clause_unknown A unknown literals
      | (None, None) \<Rightarrow> clause_unknown A (Some lit) literals
      | (None, Some _) \<Rightarrow> None)"

definition clause :: "literal list \<Rightarrow> bool solver" where
  "clause literals A =
     (case clause_unknown A None literals of
        Some lit \<Rightarrow> set_literal lit True A
      | None \<Rightarrow> (A, Ok False))"

fun constraint_step :: "ty_constraint \<Rightarrow> bool solver" where
  "constraint_step (CType x t) A = set_type x t A"
| "constraint_step (CSameType x y) A = same_type x y A"
| "constraint_step (CIdentical x y) A = identical x y A"
| "constraint_step (CWidthOf x w) A = width_of x w A"
| "constraint_step (CConcat x l r) A = concat_widths x l r A"
| "constraint_step (CValue x c) A = set_value x c A"
| "constraint_step (CImplies c then') A =
     (if bool_value A c = Some True then constraint_step then' A else (A, Ok False))"
| "constraint_step (CClause literals) A = clause literals A"

text \<open>\<^verbatim>\<open>iterate\<close>: one pass over the constraints, stopping at the first failure.\<close>

fun iterate :: "ty_constraint list \<Rightarrow> bool solver" where
  "iterate [] A = (A, Ok False)"
| "iterate (c # cs) A = s_or (constraint_step c) (iterate cs) A"

section \<open>Every action only refines, within the expressions it names\<close>

definition below :: "assignment \<Rightarrow> assignment \<Rightarrow> bool" where
  "below A B \<longleftrightarrow>
     (\<forall>x tv. hm_get A x = Some tv \<longrightarrow> (\<exists>tv'. hm_get B x = Some tv' \<and> tv \<le> tv'))"

lemma below_refl [simp]: "below A A"
  by (auto simp: below_def)

lemma below_trans: "below A B \<Longrightarrow> below B C \<Longrightarrow> below A C"
  unfolding below_def by (meson order_trans)

lemma belowD: "below A B \<Longrightarrow> hm_get A x = Some tv \<Longrightarrow> \<exists>tv'. hm_get B x = Some tv' \<and> tv \<le> tv'"
  by (auto simp: below_def)

definition slack :: "expr_id set \<Rightarrow> assignment \<Rightarrow> nat" where
  "slack V A = (\<Sum>x\<in>V. case hm_get A x of None \<Rightarrow> 4 | Some tv \<Rightarrow> 3 - tv_height tv)"

text \<open>A failing action names a conflict.\<close>

fun is_conflict :: "status \<Rightarrow> bool" where
  "is_conflict (Inapplicable _) = True"
| "is_conflict (TypeError _) = True"
| "is_conflict _ = False"

definition refines_step :: "expr_id set \<Rightarrow> assignment \<Rightarrow> assignment \<times> (status, bool) outcome \<Rightarrow> bool" where
  "refines_step V A res \<longleftrightarrow>
     (case res of (A', r) \<Rightarrow>
        below A A' \<and> (\<forall>x. x \<notin> V \<longrightarrow> hm_get A' x = hm_get A x) \<and> (hm_ok A \<longrightarrow> hm_ok A') \<and>
        (r = Ok False \<longrightarrow> A' = A) \<and> (r = Ok True \<longrightarrow> slack V A' < slack V A) \<and>
        (\<forall>st. r = Err st \<longrightarrow> is_conflict st))"

lemma slack_mono:
  assumes "finite V" "below A B"
  shows "slack V B \<le> slack V A"
  unfolding slack_def
proof (rule sum_mono)
  fix x assume "x \<in> V"
  show "(case hm_get B x of None \<Rightarrow> 4 | Some tv \<Rightarrow> 3 - tv_height tv)
      \<le> (case hm_get A x of None \<Rightarrow> 4 | Some tv \<Rightarrow> 3 - tv_height tv)"
  proof (cases "hm_get A x")
    case None
    then show ?thesis by (auto split: option.splits)
  next
    case (Some tv)
    with assms(2) obtain tv' where "hm_get B x = Some tv'" "tv \<le> tv'" by (auto dest: belowD)
    with Some show ?thesis using tv.height_mono [of tv tv'] by (simp add: diff_le_mono2)
  qed
qed

lemma slack_insert_less:
  assumes "finite V" "x \<in> V"
    and "case hm_get A x of None \<Rightarrow> True | Some tv \<Rightarrow> tv < tv'"
  shows "slack V (hm_insert x tv' A) < slack V A"
  unfolding slack_def
proof (rule sum_strict_mono_ex1)
  show "finite V" by fact
  have *: "(case hm_get (hm_insert x tv' A) x of None \<Rightarrow> 4 | Some tv \<Rightarrow> 3 - tv_height tv)
      < (case hm_get A x of None \<Rightarrow> 4 | Some tv \<Rightarrow> 3 - tv_height tv)"
  proof (cases "hm_get A x")
    case (Some tv)
    with assms(3) have "tv_height tv < tv_height tv'" by (simp add: tv_height_less)
    with Some tv.height_bound [of tv'] show ?thesis by simp
  qed simp
  then show "\<exists>a\<in>V. (case hm_get (hm_insert x tv' A) a of None \<Rightarrow> 4 | Some tv \<Rightarrow> 3 - tv_height tv)
      < (case hm_get A a of None \<Rightarrow> 4 | Some tv \<Rightarrow> 3 - tv_height tv)"
    using assms(2) by blast
  show "\<forall>a\<in>V. (case hm_get (hm_insert x tv' A) a of None \<Rightarrow> 4 | Some tv \<Rightarrow> 3 - tv_height tv)
      \<le> (case hm_get A a of None \<Rightarrow> 4 | Some tv \<Rightarrow> 3 - tv_height tv)"
    using * by (auto simp: less_imp_le)
qed

named_theorems refining \<open>solver actions that only refine\<close>

lemma refining_unchanged [refining]:
  "refines_step V A (A, Ok False)" "refines_step V A (A, Panic)"
  "is_conflict st \<Longrightarrow> refines_step V A (A, Err st)"
  by (simp_all add: refines_step_def)

lemma refining_set_type_value [refining]:
  assumes "finite V" "x \<in> V"
  shows "refines_step V A (set_type_value x tv A)"
proof (cases "hm_get A x")
  case None
  then show ?thesis
    using slack_insert_less [OF assms, where A = A and tv' = tv]
    by (auto simp: refines_step_def set_type_value_def below_def assms)
next
  case (Some e)
  show ?thesis
  proof (cases "tv_merge e tv")
    case None
    with Some show ?thesis by (simp add: set_type_value_def refining)
  next
    case m: (Some m)
    have "e \<le> m" using m tv.merge_upper by blast
    with m Some show ?thesis
      using slack_insert_less [OF assms, where A = A and tv' = m]
      by (auto simp: refines_step_def set_type_value_def below_def assms)
  qed
qed

lemma refining_s_or [refining]:
  assumes "finite V" "refines_step V A (f A)" "\<And>A. refines_step V A (g A)"
  shows "refines_step V A (s_or f g A)"
proof -
  obtain A' r where f: "f A = (A', r)" by fastforce
  obtain A'' r' where g: "g A' = (A'', r')" by fastforce
  note F = assms(2) [unfolded refines_step_def f prod.case]
  note G = assms(3) [of A', unfolded refines_step_def g prod.case]
  have "slack V A' \<le> slack V A" "slack V A'' \<le> slack V A'"
    using F G slack_mono [OF assms(1)] by blast+
  with f g F G show ?thesis
    by (cases r; cases r') (auto simp: s_or_def refines_step_def intro: below_trans)
qed

lemma refining_set [refining]:
  assumes "finite V" "x \<in> V"
  shows "refines_step V A (set_type x t A)" "refines_step V A (set_value x c A)"
    "refines_step V A (set_bit_vector_width x n A)" "refines_step V A (set_int_value x v A)"
    "refines_step V A (set_bool_value x b A)"
  using refining_set_type_value [OF assms]
  by (auto simp: set_type_def set_value_def set_bit_vector_width_def set_int_value_def
      set_bool_value_def)

lemma refining_same_type [refining]:
  "finite V \<Longrightarrow> x \<in> V \<Longrightarrow> y \<in> V \<Longrightarrow> refines_step V A (same_type x y A)"
  by (auto simp: same_type_def intro!: refining split: option.split)

lemma refining_identical [refining]:
  "finite V \<Longrightarrow> x \<in> V \<Longrightarrow> y \<in> V \<Longrightarrow> refines_step V A (identical x y A)"
  by (auto simp: identical_def intro!: refining split: option.split)

lemma refining_width_of [refining]:
  "finite V \<Longrightarrow> x \<in> V \<Longrightarrow> w \<in> V \<Longrightarrow> refines_step V A (width_of x w A)"
  by (auto simp: width_of_def intro!: refining
      split: option.split type_value.split ty.split width.split const.split)

lemma refining_concat_widths [refining]:
  "finite V \<Longrightarrow> x \<in> V \<Longrightarrow> l \<in> V \<Longrightarrow> r \<in> V \<Longrightarrow> refines_step V A (concat_widths x l r A)"
  by (auto simp: concat_widths_def intro!: refining split: option.split)

fun literal_var :: "literal \<Rightarrow> expr_id" where
  "literal_var (LVar x) = x"
| "literal_var (LNot x) = x"

lemma clause_unknown_mem:
  "clause_unknown A u lits = Some l \<Longrightarrow> u = Some l \<or> l \<in> set lits"
  by (induction A u lits rule: clause_unknown.induct) (auto split: option.splits bool.splits)

lemma refining_clause [refining]:
  assumes "finite V" "literal_var ` set lits \<subseteq> V"
  shows "refines_step V A (clause lits A)"
proof (cases "clause_unknown A None lits")
  case (Some l)
  with assms have "literal_var l \<in> V" by (auto dest: clause_unknown_mem)
  with Some assms show ?thesis by (cases l) (auto simp: clause_def intro!: refining)
qed (simp add: clause_def refining)

fun cvars :: "ty_constraint \<Rightarrow> expr_id set" where
  "cvars (CType x _) = {x}"
| "cvars (CSameType x y) = {x, y}"
| "cvars (CIdentical x y) = {x, y}"
| "cvars (CWidthOf x w) = {x, w}"
| "cvars (CConcat x l r) = {x, l, r}"
| "cvars (CValue x _) = {x}"
| "cvars (CImplies c then') = insert c (cvars then')"
| "cvars (CClause lits) = literal_var ` set lits"

lemma finite_cvars [simp]: "finite (cvars c)"
  by (induction c) auto

lemma refining_constraint_step [refining]:
  "finite V \<Longrightarrow> cvars c \<subseteq> V \<Longrightarrow> refines_step V A (constraint_step c A)"
  by (induction c) (auto intro!: refining)

lemma refining_iterate [refining]:
  "finite V \<Longrightarrow> \<Union> (cvars ` set cs) \<subseteq> V \<Longrightarrow> refines_step V A (iterate cs A)"
  by (induction cs arbitrary: A) (auto intro!: refining)

section \<open>Propagation to a fixpoint\<close>

function propagate :: "ty_constraint list \<Rightarrow> unit solver" where
  "propagate cs A =
     (case iterate cs A of
        (A', Ok True) \<Rightarrow> propagate cs A'
      | (A', Ok False) \<Rightarrow> (A', Ok ())
      | (A', Err e) \<Rightarrow> (A', Err e)
      | (A', Panic) \<Rightarrow> (A', Panic))"
  by pat_completeness auto
termination
proof (relation "measure (\<lambda>(cs, A). slack (\<Union> (cvars ` set cs)) A)", goal_cases)
  case (2 cs A)
  have "refines_step (\<Union> (cvars ` set cs)) A (iterate cs A)" by (auto intro: refining)
  with 2 show ?case by (auto simp: refines_step_def dest: sym)
qed simp

declare propagate.simps [simp del]

text \<open>Rules that evaluate a propagation pass by pass.\<close>

lemma propagate_evals:
  "snd (iterate cs A) = Ok True \<Longrightarrow> propagate cs A = propagate cs (fst (iterate cs A))"
  "snd (iterate cs A) = Ok False \<Longrightarrow> propagate cs A = (fst (iterate cs A), Ok ())"
  "snd (iterate cs A) = Err st \<Longrightarrow> propagate cs A = (fst (iterate cs A), Err st)"
  by (cases "iterate cs A"; simp add: propagate.simps [of cs A])+

section \<open>Propagation stays below every solution\<close>

text \<open>
  A solution satisfies every constraint by the reference check, gives a value to each literal
  of a clause (the check itself lets an undecided literal pass), and has widths that are
  \<^verbatim>\<open>usize\<close> values.
\<close>

fun decides :: "assignment \<Rightarrow> ty_constraint \<Rightarrow> bool" where
  "decides M (CClause lits) = list_all (\<lambda>l. literal_value M l \<noteq> None) lits"
| "decides M (CImplies _ c) = decides M c"
| "decides M _ = True"

definition representable :: "assignment \<Rightarrow> bool" where
  "representable M \<longleftrightarrow>
     list_all (\<lambda>(_, tv). case tv_ty tv of TBitVector (Bits n) \<Rightarrow> n < usize_limit | _ \<Rightarrow> True) M"

definition solves :: "assignment \<Rightarrow> ty_constraint list \<Rightarrow> bool" where
  "solves M cs \<longleftrightarrow>
     satisfies_constraints M cs = Ok () \<and> list_all (decides M) cs \<and> representable M"

definition stays_below :: "assignment \<Rightarrow> assignment \<times> (status, 'a) outcome \<Rightarrow> bool" where
  "stays_below M res \<longleftrightarrow> (case res of (A', r) \<Rightarrow> below A' M \<and> (\<exists>b. r = Ok b))"

named_theorems staying \<open>solver actions that stay below a solution\<close>

lemma staying_unchanged [staying]: "below A M \<Longrightarrow> stays_below M (A, Ok b)"
  by (simp add: stays_below_def)

lemma staying_set_type_value:
  assumes "below A M" "hm_get M x = Some m" "tv \<le> m"
  shows "stays_below M (set_type_value x tv A)"
proof (cases "hm_get A x")
  case None
  with assms show ?thesis by (auto simp: stays_below_def set_type_value_def below_def)
next
  case (Some e)
  with assms have e: "e \<le> m" by (auto dest: belowD)
  then obtain m' where m': "tv_merge e tv = Some m'" using tv.merge_defined assms(3) by blast
  then have "m' \<le> m" using tv.merge_least e assms(3) by blast
  with m' Some assms show ?thesis by (auto simp: stays_below_def set_type_value_def below_def)
qed

lemma staying_set [staying]:
  assumes "below A M" "hm_get M x = Some m"
  shows "TVType t \<le> m \<Longrightarrow> stays_below M (set_type x t A)"
    and "m = TVValue c \<Longrightarrow> stays_below M (set_value x c A)"
    and "TVType (TBitVector (Bits n)) \<le> m \<Longrightarrow> stays_below M (set_bit_vector_width x n A)"
    and "m = TVValue (CInt v) \<Longrightarrow> stays_below M (set_int_value x v A)"
    and "m = TVValue (CBool b) \<Longrightarrow> stays_below M (set_bool_value x b A)"
  using staying_set_type_value [OF assms]
  by (auto simp: set_type_def set_value_def set_bit_vector_width_def set_int_value_def
      set_bool_value_def)

lemma staying_s_or [staying]:
  assumes "stays_below M (f A)" "\<And>A. below A M \<Longrightarrow> stays_below M (g A)"
  shows "stays_below M (s_or f g A)"
proof -
  obtain A' a where f: "f A = (A', Ok a)" and "below A' M"
    using assms(1) by (auto simp: stays_below_def)
  then obtain A'' b where "g A' = (A'', Ok b)" "below A'' M"
    using assms(2) by (fastforce simp: stays_below_def)
  with f show ?thesis by (simp add: s_or_def stays_below_def)
qed

lemma staying_same_type:
  assumes "below A M" "satisfies_constraint M (CSameType x y) = Ok ()"
  shows "stays_below M (same_type x y A)"
proof -
  obtain mx my where M: "hm_get M x = Some mx" "hm_get M y = Some my" "tv_ty mx = tv_ty my"
    using assms(2) unfolding satisfies_iffs by blast
  have "TVType (tv_ty tv) \<le> my" if "hm_get A x = Some tv" for tv
    using belowD [OF assms(1) that] M by (auto simp: TVType_le_iff dest: tv_ty_mono)
  moreover have "TVType (tv_ty tv) \<le> mx" if "hm_get A y = Some tv" for tv
    using belowD [OF assms(1) that] M by (auto simp: TVType_le_iff dest: tv_ty_mono)
  ultimately show ?thesis
    using assms(1) M
    by (auto simp: same_type_def intro!: staying staying_s_or split: option.split)
qed

lemma staying_identical:
  assumes "below A M" "satisfies_constraint M (CIdentical x y) = Ok ()"
  shows "stays_below M (identical x y A)"
proof -
  obtain m where M: "hm_get M x = Some m" "hm_get M y = Some m"
    using assms(2) unfolding satisfies_iffs by blast
  have "tv \<le> m" if "hm_get A x = Some tv \<or> hm_get A y = Some tv" for tv
    using belowD [OF assms(1)] that M by fastforce
  with assms(1) M show ?thesis
    by (auto simp: identical_def intro!: staying staying_set_type_value split: option.split)
qed

lemma below_width: "below A M \<Longrightarrow> bit_vector_width A x = Some n \<Longrightarrow> bit_vector_width M x = Some n"
  by (fastforce dest: belowD tv_ty_mono)

lemma below_value: "below A M \<Longrightarrow> hm_get A x = Some (TVValue c) \<Longrightarrow> hm_get M x = Some (TVValue c)"
  by (auto dest: belowD)

lemma below_literal: "below A M \<Longrightarrow> literal_value A l = Some b \<Longrightarrow> literal_value M l = Some b"
  by (cases l) (auto dest: below_value)

lemma width_of_unfold:
  "width_of x w A =
     (case bit_vector_width A x of
        Some n \<Rightarrow> set_int_value w (int n) A
      | None \<Rightarrow>
          (case int_value A w of
             Some v \<Rightarrow> if 0 \<le> v \<and> v < int usize_limit then set_bit_vector_width x (nat v) A else (A, Panic)
           | None \<Rightarrow> (A, Ok False)))"
  by (auto simp: width_of_def bit_vector_width_def int_value_def value_at_def as_value_def as_int_def
      as_bit_vector_width_def as_bits_def
      split: option.splits type_value.splits ty.splits width.splits const.splits)

lemma representable_width:
  "representable M \<Longrightarrow> bit_vector_width M x = Some n \<Longrightarrow> n < usize_limit"
  by (auto simp: representable_def list_all_iff dest!: map_of_SomeD split: prod.splits)

lemma staying_width_of:
  assumes "below A M" "satisfies_constraint M (CWidthOf x w) = Ok ()" "representable M"
  shows "stays_below M (width_of x w A)"
proof -
  obtain n where n: "bit_vector_width M x = Some n" "hm_get M w = Some (TVValue (CInt (int n)))"
    using assms(2) unfolding satisfies_iffs by blast
  then obtain m where m: "hm_get M x = Some m" "TVType (TBitVector (Bits n)) \<le> m"
    by (auto simp: TVType_le_iff)
  have "n < usize_limit" using representable_width assms(3) n(1) .
  moreover have "k = n" if "bit_vector_width A x = Some k" for k
    using below_width [OF assms(1) that] n by simp
  moreover have "v = int n" if "int_value A w = Some v" for v
    using below_value [OF assms(1)] that n by fastforce
  ultimately show ?thesis
    using assms(1) n m
    by (auto simp: width_of_unfold simp del: bit_vector_width_Some int_value_Some
        intro!: staying split: option.split)
qed

lemma staying_concat_widths:
  assumes "below A M" "satisfies_constraint M (CConcat x l r) = Ok ()"
  shows "stays_below M (concat_widths x l r A)"
proof -
  obtain lw rw where w: "bit_vector_width M l = Some lw" "bit_vector_width M r = Some rw"
      "bit_vector_width M x = Some (lw + rw)" "lw + rw < usize_limit"
    using assms(2) unfolding satisfies_iffs by blast
  then obtain mx ml mr where m:
      "hm_get M l = Some ml" "TVType (TBitVector (Bits lw)) \<le> ml"
      "hm_get M r = Some mr" "TVType (TBitVector (Bits rw)) \<le> mr"
      "hm_get M x = Some mx" "TVType (TBitVector (Bits (lw + rw))) \<le> mx"
    by (auto simp: TVType_le_iff)
  have "k = lw + rw" if "bit_vector_width A x = Some k" for k
    using below_width [OF assms(1) that] w by simp
  moreover have "k = lw" if "bit_vector_width A l = Some k" for k
    using below_width [OF assms(1) that] w by simp
  moreover have "k = rw" if "bit_vector_width A r = Some k" for k
    using below_width [OF assms(1) that] w by simp
  ultimately show ?thesis
    using assms(1) w(4) m
    by (auto simp: concat_widths_def simp del: bit_vector_width_Some
        intro!: staying split: option.split)
qed

text \<open>The scan finds the only literal that is not false yet.\<close>

lemma clause_unknown_kept: "clause_unknown A (Some k) lits = Some l \<Longrightarrow> l = k"
  by (induction lits) (auto split: option.splits bool.splits)

lemma clause_unknown_spec:
  "clause_unknown A u lits = Some l \<Longrightarrow>
     \<forall>l'\<in>set lits. l' = l \<or> literal_value A l' = Some False"
proof (induction A u lits rule: clause_unknown.induct)
  case (2 A u lit lits)
  then show ?case
    by (auto split: option.splits bool.splits dest: clause_unknown_kept)
qed simp

lemma staying_clause:
  assumes "below A M" "satisfies_constraint M (CClause lits) = Ok ()" "decides M (CClause lits)"
  shows "stays_below M (clause lits A)"
proof (cases "clause_unknown A None lits")
  case None
  with assms(1) show ?thesis by (simp add: clause_def staying)
next
  case (Some l)
  have "literal_value M l \<noteq> Some False"
  proof
    assume "literal_value M l = Some False"
    then have "\<forall>l'\<in>set lits. literal_value M l' = Some False"
      using clause_unknown_spec [OF Some] below_literal [OF assms(1)] by auto
    with assms(2) show False by (simp add: expect_clause_Ok_iff)
  qed
  moreover have "literal_value M l \<noteq> None"
    using assms(3) clause_unknown_mem [OF Some] by (auto simp: list_all_iff)
  ultimately have "literal_value M l = Some True" by auto
  with Some assms(1) show ?thesis
    by (cases l) (auto simp: clause_def intro!: staying)
qed

lemma staying_constraint_step:
  "below A M \<Longrightarrow> satisfies_constraint M c = Ok () \<Longrightarrow> decides M c \<Longrightarrow> representable M \<Longrightarrow>
     stays_below M (constraint_step c A)"
proof (induction c)
  case (CType x t)
  then show ?case unfolding satisfies_iffs by (auto intro: staying)
next
  case (CValue x c)
  then show ?case unfolding satisfies_iffs by (auto intro: staying)
next
  case (CImplies b c)
  show ?case
  proof (cases "bool_value A b = Some True")
    case True
    with CImplies.prems(1) have "bool_value M b = Some True" by (auto dest: below_value)
    with True CImplies show ?thesis by simp
  qed (use CImplies.prems in \<open>auto intro: staying\<close>)
qed (auto intro: staying_same_type staying_identical staying_width_of staying_concat_widths
    staying_clause)

lemma staying_iterate:
  "below A M \<Longrightarrow> solves M cs \<Longrightarrow> stays_below M (iterate cs A)"
proof (induction cs arbitrary: A)
  case (Cons c cs)
  then have "solves M cs" "satisfies_constraint M c = Ok ()" "decides M c" "representable M"
    by (auto simp: solves_def satisfies_constraints_def)
  with Cons show ?case by (auto intro!: staying staying_constraint_step)
qed (simp add: staying)

lemma staying_propagate:
  "below A M \<Longrightarrow> solves M cs \<Longrightarrow> stays_below M (propagate cs A)"
proof (induction cs A rule: propagate.induct)
  case (1 cs A)
  obtain A' b where it: "iterate cs A = (A', Ok b)" "below A' M"
    using staying_iterate [OF "1.prems"] by (auto simp: stays_below_def)
  with 1 show ?case
    by (cases b) (auto simp: propagate.simps [of cs A] staying)
qed

section \<open>What holds at a fixpoint\<close>

definition at_fixpoint :: "assignment \<Rightarrow> ty_constraint list \<Rightarrow> bool" where
  "at_fixpoint A cs \<longleftrightarrow> (\<forall>c\<in>set cs. constraint_step c A = (A, Ok False))"

lemma iterate_False:
  "iterate cs A = (A', Ok False) \<Longrightarrow> A' = A \<and> at_fixpoint A cs"
proof (induction cs arbitrary: A)
  case (Cons c cs)
  obtain B r where c: "constraint_step c A = (B, r)" by fastforce
  with Cons.prems have r: "r = Ok False" "iterate cs B = (A', Ok False)"
    by (auto simp: s_or_def split: outcome.splits prod.splits)
  have "refines_step (cvars c) A (constraint_step c A)" by (rule refining) auto
  with c r have "B = A" by (auto simp: refines_step_def)
  with c r Cons.IH show ?case by (auto simp: at_fixpoint_def)
qed (simp add: at_fixpoint_def)

lemma propagate_stable:
  "propagate cs A = (A', Ok ()) \<Longrightarrow> at_fixpoint A' cs"
proof (induction cs A rule: propagate.induct)
  case (1 cs A)
  from "1.prems" obtain B b where it: "iterate cs A = (B, Ok b)"
    by (subst (asm) propagate.simps) (auto split: prod.splits outcome.splits)
  show ?case
  proof (cases b)
    case True
    with it 1 show ?thesis by (auto simp: propagate.simps [of cs A])
  next
    case False
    with it "1.prems" have "A' = B" by (auto simp: propagate.simps [of cs A])
    with it False show ?thesis by (auto dest: iterate_False)
  qed
qed

lemma propagate_refines:
  "propagate cs A = (A', r) \<Longrightarrow>
     below A A' \<and> (hm_ok A \<longrightarrow> hm_ok A') \<and> (\<forall>st. r = Err st \<longrightarrow> is_conflict st)"
proof (induction cs A rule: propagate.induct)
  case (1 cs A)
  obtain B b where it: "iterate cs A = (B, b)" by fastforce
  have "refines_step (\<Union> (cvars ` set cs)) A (iterate cs A)" by (auto intro: refining)
  with it have B: "below A B" "hm_ok A \<longrightarrow> hm_ok B" "\<forall>st. b = Err st \<longrightarrow> is_conflict st"
    by (auto simp: refines_step_def)
  show ?case
  proof (cases "b = Ok True")
    case True
    with it "1.prems" have "propagate cs B = (A', r)" by (simp add: propagate.simps [of cs A])
    with 1 it True B show ?thesis by (auto intro: below_trans)
  next
    case False
    with it "1.prems" have "A' = B" "\<forall>st. r = Err st \<longrightarrow> b = Err st"
      by (auto simp: propagate.simps [of cs A] split: outcome.splits bool.splits)
    with B show ?thesis by simp
  qed
qed

text \<open>The constraints a fixpoint satisfies: all but clauses, once their expressions are assigned.\<close>

fun clause_free :: "ty_constraint \<Rightarrow> bool" where
  "clause_free (CClause _) = False"
| "clause_free (CImplies _ c) = clause_free c"
| "clause_free _ = True"

fun widths_known :: "assignment \<Rightarrow> ty_constraint \<Rightarrow> bool" where
  "widths_known A (CWidthOf x w) = (bit_vector_width A x \<noteq> None)"
| "widths_known A (CConcat x l r) =
     (bit_vector_width A x \<noteq> None \<and> bit_vector_width A l \<noteq> None \<and> bit_vector_width A r \<noteq> None)"
| "widths_known A (CImplies _ c) = widths_known A c"
| "widths_known A _ = True"

lemma set_type_value_stable:
  assumes "set_type_value x tv A = (B, Ok False)"
  shows "\<exists>e. hm_get A x = Some e \<and> tv \<le> e"
proof (cases "hm_get A x")
  case (Some e)
  with assms have "tv_merge e tv = Some e"
    by (auto simp: set_type_value_def split: option.splits if_splits)
  with Some show ?thesis by (simp add: tv.merge_unchanged_iff)
qed (use assms in \<open>simp add: set_type_value_def\<close>)

lemma set_stable:
  "set_type x t A = (B, Ok False) \<Longrightarrow> \<exists>e. hm_get A x = Some e \<and> TVType t \<le> e"
  "set_value x c A = (B, Ok False) \<Longrightarrow> hm_get A x = Some (TVValue c)"
  "set_int_value x v A = (B, Ok False) \<Longrightarrow> hm_get A x = Some (TVValue (CInt v))"
  unfolding set_type_def set_value_def set_int_value_def
  by (auto dest: set_type_value_stable)

lemma s_or_stable:
  assumes "s_or f g A = (A, Ok False)" "\<And>A. refines_step V A (f A)"
  shows "f A = (A, Ok False)" "g A = (A, Ok False)"
proof -
  obtain B r where f: "f A = (B, r)" by fastforce
  with assms(1) have r: "r = Ok False" "g B = (A, Ok False)"
    by (auto simp: s_or_def split: outcome.splits prod.splits)
  with f assms(2) [of A] have "B = A" by (auto simp: refines_step_def)
  with f r show "f A = (A, Ok False)" "g A = (A, Ok False)" by auto
qed

lemma same_type_stable:
  assumes "same_type x y A = (A, Ok False)" "hm_get A x \<noteq> None \<or> hm_get A y \<noteq> None"
  shows "satisfies_constraint A (CSameType x y) = Ok ()"
proof (cases "hm_get A x"; cases "hm_get A y")
  fix tvx tvy
  assume xy: "hm_get A x = Some tvx" "hm_get A y = Some tvy"
  with assms have *: "s_or (set_type x (tv_ty tvy)) (set_type y (tv_ty tvx)) A = (A, Ok False)"
    by (simp add: same_type_def)
  have "set_type x (tv_ty tvy) A = (A, Ok False)" "set_type y (tv_ty tvx) A = (A, Ok False)"
    using s_or_stable [OF *, of "{x}"] by (auto intro: refining)
  with xy have "tv_ty tvy \<le> tv_ty tvx" "tv_ty tvx \<le> tv_ty tvy"
    by (auto dest!: set_stable simp: TVType_le_iff)
  with xy show ?thesis unfolding satisfies_iffs by auto
qed (use assms in \<open>auto simp: same_type_def dest!: set_stable\<close>)

lemma identical_stable:
  assumes "identical x y A = (A, Ok False)" "hm_get A x \<noteq> None \<or> hm_get A y \<noteq> None"
  shows "satisfies_constraint A (CIdentical x y) = Ok ()"
proof (cases "hm_get A x"; cases "hm_get A y")
  fix tvx tvy
  assume xy: "hm_get A x = Some tvx" "hm_get A y = Some tvy"
  with assms have *: "s_or (set_type_value x tvy) (set_type_value y tvx) A = (A, Ok False)"
    by (simp add: identical_def)
  have "set_type_value x tvy A = (A, Ok False)" "set_type_value y tvx A = (A, Ok False)"
    using s_or_stable [OF *, of "{x}"] by (auto intro: refining)
  with xy have "tvy \<le> tvx" "tvx \<le> tvy" by (auto dest!: set_type_value_stable)
  with xy show ?thesis unfolding satisfies_iffs by auto
qed (use assms in \<open>auto simp: identical_def dest!: set_type_value_stable\<close>)

lemma stable_satisfies:
  "constraint_step c A = (A, Ok False) \<Longrightarrow> clause_free c \<Longrightarrow> widths_known A c \<Longrightarrow>
     \<forall>x\<in>cvars c. hm_get A x \<noteq> None \<Longrightarrow> satisfies_constraint A c = Ok ()"
proof (induction c)
  case (CType x t)
  then show ?case unfolding satisfies_iffs by (auto dest: set_stable)
next
  case (CValue x c)
  then show ?case unfolding satisfies_iffs by (auto dest: set_stable)
next
  case (CWidthOf x w)
  then show ?case unfolding satisfies_iffs
    by (auto simp: width_of_unfold simp del: bit_vector_width_Some dest!: set_stable(3))
next
  case (CConcat x l r)
  then show ?case unfolding satisfies_iffs
    by (auto simp: concat_widths_def simp del: bit_vector_width_Some split: if_splits)
next
  case (CSameType x y)
  then show ?case using same_type_stable [of x y A] by simp
next
  case (CIdentical x y)
  then show ?case using identical_stable [of x y A] by simp
next
  case (CImplies b c)
  then show ?case by (auto split: if_splits)
qed simp

end
