(* ===== verification/Isle_Pos.thy ===== *)
theory Isle_Pos
  imports Arrival_Prelude
begin

text \<open>
  Source positions (\<^verbatim>\<open>isle/src/lexer.rs\<close>), spans (\<^verbatim>\<open>isle/src/error.rs\<close>), identifiers (\<^verbatim>\<open>isle/src/ast.rs\<close>) and the
  integer ids of \<^verbatim>\<open>isle/src/sema.rs\<close>, shared by the compiler and the verification engine.
\<close>

record pos =
  pos_file :: nat
  pos_offset :: nat

definition pos_new :: "nat \<Rightarrow> nat \<Rightarrow> pos" where
  "pos_new file offset = \<lparr>pos_file = file, pos_offset = offset\<rparr>"

definition is_unknown :: "pos \<Rightarrow> bool" where
  "is_unknown p \<longleftrightarrow> p = \<lparr>pos_file = 0, pos_offset = 0\<rparr>"

record span =
  span_from :: pos
  span_to :: pos

definition span_single :: "pos \<Rightarrow> span" where
  "span_single p = \<lparr>span_from = p, span_to = \<lparr>pos_file = pos_file p, pos_offset = pos_offset p + 1\<rparr>\<rparr>"

type_synonym ident = "string \<times> pos"
type_synonym sym = nat
type_synonym type_id = nat
type_synonym variant_id = nat
type_synonym term_id = nat
type_synonym rule_id = nat

end
