(* ===== verification/Veri_Compound.thy ===== *)
theory Veri_Compound
  imports Type_Constraints Isle_Pos
begin

text \<open>
  Compound specification types of \<^verbatim>\<open>veri/src/types.rs\<close>: structs, enums and references to
  named types, their construction from the syntax tree, and the resolution of named types.
\<close>

section \<open>Model types of the syntax tree\<close>

datatype model_type =
    MUnspecified
  | MAuto
  | MInt
  | MBool
  | MUnit
  | MBitVec "nat option"
  | MStruct "(ident \<times> model_type) list"
  | MNamed ident

section \<open>Compound types\<close>

datatype compound =
    Primitive ty
  | Struct "vfield list"
  | Enum venum
  | Named ident
and vfield = VField (vfield_name: ident) (vfield_ty: compound)
and vvariant = VVariant (vvariant_name: ident) (vvariant_id: variant_id) (vvariant_fields: "vfield list")
and venum = VEnum (venum_name: ident) (venum_id: type_id) (venum_variants: "vvariant list")

definition variant_is_unit :: "vvariant \<Rightarrow> bool" where
  "variant_is_unit v \<longleftrightarrow> vvariant_fields v = []"

definition variant_ty :: "vvariant \<Rightarrow> compound" where
  "variant_ty v = Struct (vvariant_fields v)"

definition as_primitive :: "compound \<Rightarrow> ty option" where
  "as_primitive c = (case c of Primitive t \<Rightarrow> Some t | _ \<Rightarrow> None)"

definition as_enum :: "compound \<Rightarrow> venum option" where
  "as_enum c = (case c of Enum e \<Rightarrow> Some e | _ \<Rightarrow> None)"

fun compound_from_ast :: "model_type \<Rightarrow> compound" where
  "compound_from_ast MUnspecified = Primitive TUnspecified"
| "compound_from_ast MAuto = Primitive TUnknown"
| "compound_from_ast MInt = Primitive TInt"
| "compound_from_ast MBool = Primitive TBool"
| "compound_from_ast MUnit = Primitive TUnit"
| "compound_from_ast (MBitVec None) = Primitive (TBitVector WUnknown)"
| "compound_from_ast (MBitVec (Some bits)) = Primitive (TBitVector (Bits bits))"
| "compound_from_ast (MStruct flds) =
     Struct (map (\<lambda>(name, t). VField name (compound_from_ast t)) flds)"
| "compound_from_ast (MNamed name) = Named name"

section \<open>Resolution of named types\<close>

text \<open>
  \<^verbatim>\<open>Compound::resolve\<close> calls itself on whatever the lookup returns and so need not return when
  the named types are cyclic. The fuel counts nested lookups; \<open>None\<close> is running out of it.
\<close>

type_synonym 'e lookup = "ident \<Rightarrow> ('e, compound) outcome"

definition ob_bind :: "('e, 'a) outcome option \<Rightarrow> ('a \<Rightarrow> ('e, 'b) outcome option) \<Rightarrow> ('e, 'b) outcome option" where
  "ob_bind r f =
     (case r of None \<Rightarrow> None | Some (Ok a) \<Rightarrow> f a | Some (Err e) \<Rightarrow> Some (Err e) | Some Panic \<Rightarrow> Some Panic)"

fun resolve :: "'e lookup \<Rightarrow> nat \<Rightarrow> compound \<Rightarrow> ('e, compound) outcome option"
and resolve_fields :: "'e lookup \<Rightarrow> nat \<Rightarrow> vfield list \<Rightarrow> ('e, vfield list) outcome option"
and resolve_variants :: "'e lookup \<Rightarrow> nat \<Rightarrow> vvariant list \<Rightarrow> ('e, vvariant list) outcome option" where
  "resolve lk n (Primitive t) = Some (Ok (Primitive t))"
| "resolve lk n (Struct flds) = ob_bind (resolve_fields lk n flds) (\<lambda>fs. Some (Ok (Struct fs)))"
| "resolve lk n (Enum (VEnum name i variants)) =
     ob_bind (resolve_variants lk n variants) (\<lambda>vs. Some (Ok (Enum (VEnum name i vs))))"
| "resolve lk 0 (Named name) = None"
| "resolve lk (Suc n) (Named name) =
     (case lk name of Ok t \<Rightarrow> resolve lk n t | Err e \<Rightarrow> Some (Err e) | Panic \<Rightarrow> Some Panic)"
| "resolve_fields lk n [] = Some (Ok [])"
| "resolve_fields lk n (VField name t # flds) =
     ob_bind (resolve lk n t) (\<lambda>t'.
     ob_bind (resolve_fields lk n flds) (\<lambda>fs. Some (Ok (VField name t' # fs))))"
| "resolve_variants lk n [] = Some (Ok [])"
| "resolve_variants lk n (VVariant name i flds # variants) =
     ob_bind (resolve_fields lk n flds) (\<lambda>fs.
     ob_bind (resolve_variants lk n variants) (\<lambda>vs. Some (Ok (VVariant name i fs # vs))))"

text \<open>The names a compound type refers to.\<close>

fun names :: "compound \<Rightarrow> ident list"
and names_fields :: "vfield list \<Rightarrow> ident list"
and names_variants :: "vvariant list \<Rightarrow> ident list" where
  "names (Primitive t) = []"
| "names (Struct flds) = names_fields flds"
| "names (Enum (VEnum name i variants)) = names_variants variants"
| "names (Named name) = [name]"
| "names_fields [] = []"
| "names_fields (VField name t # flds) = names t @ names_fields flds"
| "names_variants [] = []"
| "names_variants (VVariant name i flds # variants) = names_fields flds @ names_variants variants"

lemma ob_bind_Ok [simp]: "ob_bind r f = Some (Ok b) \<longleftrightarrow> (\<exists>a. r = Some (Ok a) \<and> f a = Some (Ok b))"
  by (auto simp: ob_bind_def split: option.split outcome.split)

lemma resolve_no_names:
  "resolve lk n t = Some (Ok t') \<Longrightarrow> names t' = []"
  "resolve_fields lk n fs = Some (Ok fs') \<Longrightarrow> names_fields fs' = []"
  "resolve_variants lk n vs = Some (Ok vs') \<Longrightarrow> names_variants vs' = []"
  by (induction lk n t and lk n fs and lk n vs arbitrary: t' and fs' and vs'
      rule: resolve_resolve_fields_resolve_variants.induct)
    (auto split: outcome.splits)

lemma resolve_no_names_id:
  "names t = [] \<Longrightarrow> resolve lk n t = Some (Ok t)"
  "names_fields fs = [] \<Longrightarrow> resolve_fields lk n fs = Some (Ok fs)"
  "names_variants vs = [] \<Longrightarrow> resolve_variants lk n vs = Some (Ok vs)"
  by (induction lk n t and lk n fs and lk n vs
      rule: resolve_resolve_fields_resolve_variants.induct) auto

text \<open>With a rank that drops along every lookup, fuel above the ranks in the type is enough.\<close>

definition ranked :: "'e lookup \<Rightarrow> (ident \<Rightarrow> nat) \<Rightarrow> bool" where
  "ranked lk rank \<longleftrightarrow> (\<forall>name t. lk name = Ok t \<longrightarrow> (\<forall>m\<in>set (names t). rank m < rank name))"

lemma resolve_defined:
  assumes "ranked lk rank"
  shows "\<forall>m\<in>set (names t). rank m < n \<Longrightarrow> resolve lk n t \<noteq> None"
    "\<forall>m\<in>set (names_fields fs). rank m < n \<Longrightarrow> resolve_fields lk n fs \<noteq> None"
    "\<forall>m\<in>set (names_variants vs). rank m < n \<Longrightarrow> resolve_variants lk n vs \<noteq> None"
  using assms
proof (induction lk n t and lk n fs and lk n vs
      rule: resolve_resolve_fields_resolve_variants.induct)
  case (5 lk n name)
  show ?case
  proof (cases "lk name")
    case (Ok t)
    have "rank m < n" if "m \<in> set (names t)" for m
      using "5.prems" Ok that unfolding ranked_def by fastforce
    with 5 Ok show ?thesis by simp
  qed auto
qed (auto simp: ob_bind_def split: outcome.split)

lemma ob_bind_mono:
  assumes "ob_bind r f = Some b" "\<And>x. r = Some x \<Longrightarrow> r' = Some x"
    and "\<And>a. r = Some (Ok a) \<Longrightarrow> f a = Some b \<Longrightarrow> f' a = Some b"
  shows "ob_bind r' f' = Some b"
  using assms by (cases r) (auto simp: ob_bind_def split: outcome.splits)

lemma resolve_Suc:
  "resolve lk n t = Some r \<Longrightarrow> resolve lk (Suc n) t = Some r"
  "resolve_fields lk n fs = Some rf \<Longrightarrow> resolve_fields lk (Suc n) fs = Some rf"
  "resolve_variants lk n vs = Some rv \<Longrightarrow> resolve_variants lk (Suc n) vs = Some rv"
proof (induction lk n t and lk n fs and lk n vs arbitrary: r and rf and rv
      rule: resolve_resolve_fields_resolve_variants.induct)
  case (5 lk n name)
  then show ?case by (cases "lk name") auto
qed (auto elim!: ob_bind_mono simp del: resolve.simps(5))

lemma resolve_more_fuel: "n \<le> k \<Longrightarrow> resolve lk n t = Some r \<Longrightarrow> resolve lk k t = Some r"
  by (induction k rule: dec_induct) (auto intro: resolve_Suc)

text \<open>
  C11. Resolution of named types ends whenever the lookup is acyclic: fuel above the rank of every
  name in the type gives a result, which more fuel does not change, and a resolved type contains
  no named type.
\<close>
theorem resolve_terminates:
  assumes "ranked lk rank" "\<forall>m\<in>set (names t). rank m < n"
  shows "\<exists>r. (\<forall>k\<ge>n. resolve lk k t = Some r) \<and> (\<forall>t'. r = Ok t' \<longrightarrow> names t' = [])"
proof -
  obtain r where "resolve lk n t = Some r" using resolve_defined(1) [OF assms] by auto
  then show ?thesis by (intro exI [of _ r]) (auto intro: resolve_more_fuel dest: resolve_no_names(1))
qed

theorem resolve_terminates_witness:
  "\<exists>r. (\<forall>k\<ge>1. resolve (\<lambda>_. Ok (Primitive TInt) :: (unit, compound) outcome) k
       (Named (''Value'', pos_new 0 0)) = Some r) \<and> (\<forall>t'. r = Ok t' \<longrightarrow> names t' = [])"
  by (rule resolve_terminates [where rank = "\<lambda>_. 0"]) (auto simp: ranked_def)
end
