(* ===== verification/Veri_Symbolic.thy ===== *)
theory Veri_Symbolic
  imports Veri_Compound
begin

text \<open>
  Symbolic values and verification conditions of \<^verbatim>\<open>veri/src/veri.rs\<close>. The body of a macro is
  a specification expression and stays a parameter \<open>'m\<close> here.
\<close>

datatype 'm symbolic =
    Scalar expr_id
  | SStruct "'m sfield list"
  | SEnum "'m senum"
  | SOption expr_id "'m symbolic"
  | STuple "'m symbolic list"
  | SMacro 'm
and 'm sfield = SField (sfield_name: string) (sfield_value: "'m symbolic")
and 'm svariant = SVariant (svariant_name: string) (svariant_id: variant_id)
      (svariant_discriminant: nat) (svariant_value: "'m symbolic")
and 'm senum = SEnumV (senum_ty: type_id) (senum_discriminant: expr_id)
      (senum_variants: "'m svariant list")

record signature =
  sig_args :: "compound list"
  sig_ret :: compound

record 'm call =
  call_term :: term_id
  call_args :: "'m symbolic list"
  call_ret :: "'m symbolic"
  call_signatures :: "signature list"

record 'm qualifier =
  qualifier_value :: "'m symbolic"
  qualifier_ty :: compound

record var_decl =
  var_ty :: ty
  var_name :: string

record 'm conditions =
  cond_exprs :: "expr list"
  cond_assumptions :: "expr_id list"
  cond_assertions :: "expr_id list"
  cond_variables :: "var_decl list"
  cond_calls :: "'m call list"
  cond_qualifiers :: "'m qualifier list"

end
