(* ===== verification/Type_System.thy ===== *)
theory Type_System
  imports Type_Solver Veri_Symbolic
begin

text \<open>
  Systems of type constraints, \<^verbatim>\<open>System\<close> and \<^verbatim>\<open>Solver::solve\<close> of
  \<^verbatim>\<open>veri/src/type_inference.rs\<close>: constraints that hold outright, and branches of which one
  arm each has to hold.
\<close>

section \<open>Systems and their solutions\<close>

datatype choice = TermInstantiation term_id signature

record arm =
  arm_choice :: choice
  arm_constraints :: "ty_constraint list"

type_synonym branch = "arm list"

record system =
  sys_choices :: "choice list"
  sys_constraints :: "ty_constraint list"
  sys_branches :: "branch list"

record solution =
  sol_status :: status
  sol_choices :: "choice list"
  sol_assignment :: assignment

text \<open>\<^verbatim>\<open>System::fork\<close> takes the last branch and makes one child per arm.\<close>

definition fork :: "system \<Rightarrow> system list" where
  "fork s =
     (let branch = last (sys_branches s) in
      map (\<lambda>a. \<lparr>sys_choices = sys_choices s @ (if length branch > 1 then [arm_choice a] else []),
                sys_constraints = sys_constraints s @ arm_constraints a,
                sys_branches = butlast (sys_branches s)\<rparr>) branch)"

text \<open>
  \<^verbatim>\<open>Solver::solve\<close>; \<open>None\<close> is a panic during propagation. The fork is only reached with
  a branch left, so its \<^verbatim>\<open>expect\<close> cannot fail.
\<close>

function solve :: "assignment \<Rightarrow> system \<Rightarrow> solution list option" where
  "solve A s =
     (case propagate (sys_constraints s) A of
        (A', Panic) \<Rightarrow> None
      | (A', Err st) \<Rightarrow> Some [\<lparr>sol_status = st, sol_choices = sys_choices s, sol_assignment = A'\<rparr>]
      | (A', Ok _) \<Rightarrow>
          if sys_branches s = [] then
            Some [\<lparr>sol_status = (if assignment_is_concrete A' then Solved else Underconstrained),
                   sol_choices = sys_choices s, sol_assignment = A'\<rparr>]
          else map_option concat (those (map (solve A') (fork s))))"
  by pat_completeness auto
termination
  by (relation "measure (\<lambda>(A, s). length (sys_branches s))") (auto simp: fork_def Let_def)

declare solve.simps [simp del]

lemma solve_evals:
  "sys_branches s = [] \<Longrightarrow> snd (propagate (sys_constraints s) A) = Ok () \<Longrightarrow>
     solve A s = Some [\<lparr>sol_status =
       (if assignment_is_concrete (fst (propagate (sys_constraints s) A)) then Solved else Underconstrained),
       sol_choices = sys_choices s, sol_assignment = fst (propagate (sys_constraints s) A)\<rparr>]"
  "snd (propagate (sys_constraints s) A) = Err st \<Longrightarrow>
     solve A s = Some [\<lparr>sol_status = st, sol_choices = sys_choices s,
       sol_assignment = fst (propagate (sys_constraints s) A)\<rparr>]"
  "sys_branches s \<noteq> [] \<Longrightarrow> snd (propagate (sys_constraints s) A) = Ok () \<Longrightarrow>
     solve A s = map_option concat (those (map (solve (fst (propagate (sys_constraints s) A))) (fork s)))"
  by (cases "propagate (sys_constraints s) A"; simp add: solve.simps [of A s])+

section \<open>Leaves: one arm chosen in every branch\<close>

definition leaf :: "system \<Rightarrow> ty_constraint list \<Rightarrow> bool" where
  "leaf s cs \<longleftrightarrow> (\<exists>arms. list_all2 (\<lambda>a branch. a \<in> set branch) arms (sys_branches s) \<and>
     cs = sys_constraints s @ concat (map arm_constraints (rev arms)))"

lemma leaf_done: "sys_branches s = [] \<Longrightarrow> leaf s (sys_constraints s)"
  by (simp add: leaf_def)

lemma fork_branches: "child \<in> set (fork s) \<Longrightarrow> sys_branches child = butlast (sys_branches s)"
  by (auto simp: fork_def Let_def)

lemma fork_constraints: "child \<in> set (fork s) \<Longrightarrow> set (sys_constraints s) \<subseteq> set (sys_constraints child)"
  by (auto simp: fork_def Let_def)

lemma leaf_constraints: "leaf s cs \<Longrightarrow> set (sys_constraints s) \<subseteq> set cs"
  by (auto simp: leaf_def)

text \<open>The children that fork makes have together the leaves of their parent.\<close>

lemma leaf_fork:
  assumes "sys_branches s \<noteq> []" "child \<in> set (fork s)" "leaf child cs"
  shows "leaf s cs"
proof -
  obtain a where a: "a \<in> set (last (sys_branches s))" "sys_constraints child = sys_constraints s @ arm_constraints a"
    "sys_branches child = butlast (sys_branches s)" using assms(2) by (auto simp: fork_def Let_def)
  obtain arms where "list_all2 (\<lambda>a branch. a \<in> set branch) arms (butlast (sys_branches s))"
    "cs = sys_constraints child @ concat (map arm_constraints (rev arms))" using assms(3) a(3) by (auto simp: leaf_def)
  then have "list_all2 (\<lambda>a branch. a \<in> set branch) (arms @ [a]) (butlast (sys_branches s) @ [last (sys_branches s)]) \<and>
    cs = sys_constraints s @ concat (map arm_constraints (rev (arms @ [a])))" using a by (simp add: list_all2_appendI)
  then show ?thesis using assms(1) unfolding leaf_def append_butlast_last_id [OF assms(1)] by blast
qed

lemma leaf_induct [consumes 1, case_names leaf_done leaf_fork]:
  assumes "leaf s cs" "\<And>s. sys_branches s = [] \<Longrightarrow> Q s (sys_constraints s)"
    and "\<And>s child cs. sys_branches s \<noteq> [] \<Longrightarrow> child \<in> set (fork s) \<Longrightarrow> leaf child cs \<Longrightarrow> Q child cs \<Longrightarrow> Q s cs"
  shows "Q s cs"
  using assms(1)
proof (induction "sys_branches s" arbitrary: s rule: rev_induct)
  case Nil
  then show ?case using assms(2) [of s] by (simp add: leaf_def)
next
  case (snoc b bs)
  then obtain arms a where arms: "list_all2 (\<lambda>a branch. a \<in> set branch) arms bs" "a \<in> set b"
    "cs = sys_constraints s @ arm_constraints a @ concat (map arm_constraints (rev arms))"
    by (auto simp: leaf_def list_all2_append2 list_all2_Cons2 simp flip: snoc.hyps(2))
  have last: "last (sys_branches s) = b" "butlast (sys_branches s) = bs" "sys_branches s \<noteq> []"
    by (simp_all flip: snoc.hyps(2))
  let ?child = "\<lparr>sys_choices = sys_choices s @ (if length b > 1 then [arm_choice a] else []),
    sys_constraints = sys_constraints s @ arm_constraints a, sys_branches = bs\<rparr>"
  have child: "?child \<in> set (fork s)" using arms(2) by (simp add: fork_def last)
  moreover have "leaf ?child cs" using arms(1,3) by (auto simp: leaf_def)
  ultimately show ?case using assms(3) [OF last(3) child] snoc.hyps(1) [of ?child] by simp
qed

lemma those_Some_mem: "those xs = Some ys \<Longrightarrow> y \<in> set ys \<Longrightarrow> Some y \<in> set xs"
  by (induction xs arbitrary: ys) (auto split: option.splits)

lemma those_SomeD: "those xs = Some ys \<Longrightarrow> x \<in> set xs \<Longrightarrow> \<exists>y. x = Some y \<and> y \<in> set ys"
  by (induction xs arbitrary: ys) (auto split: option.splits)

definition accepted :: "solution \<Rightarrow> bool" where
  "accepted s \<longleftrightarrow> sol_status s = Solved \<or> sol_status s = Underconstrained"

lemma solve_cases [consumes 2, case_names conflict leaf fork]:
  assumes "solve A s = Some sols" "sol \<in> set sols"
  obtains (conflict) B st where "propagate (sys_constraints s) A = (B, Err st)"
      "sol = \<lparr>sol_status = st, sol_choices = sys_choices s, sol_assignment = B\<rparr>" "is_conflict st"
    | (leaf) B where "propagate (sys_constraints s) A = (B, Ok ())" "sys_branches s = []"
      "sol = \<lparr>sol_status = (if assignment_is_concrete B then Solved else Underconstrained),
               sol_choices = sys_choices s, sol_assignment = B\<rparr>"
    | (fork) B child sols' where "propagate (sys_constraints s) A = (B, Ok ())"
      "sys_branches s \<noteq> []" "child \<in> set (fork s)" "solve B child = Some sols'" "sol \<in> set sols'"
proof -
  obtain B r where p: "propagate (sys_constraints s) A = (B, r)" by fastforce
  show thesis
  proof (cases r)
    case (Err st)
    with p assms propagate_refines [OF p] show thesis
      by (intro conflict [of B st]) (auto simp: solve.simps [of A s])
  next
    case (Ok u)
    show thesis
    proof (cases "sys_branches s = []")
      case True
      with p Ok assms show thesis by (intro leaf [of B]) (auto simp: solve.simps [of A s])
    next
      case False
      with p Ok assms obtain yss where *: "those (map (solve B) (fork s)) = Some yss" "sols = concat yss"
        by (auto simp: solve.simps [of A s])
      then obtain ys where "sol \<in> set ys" "ys \<in> set yss" using assms by auto
      with those_Some_mem [OF *(1)] have "Some ys \<in> solve B ` set (fork s)" by fastforce
      then obtain child where "child \<in> set (fork s)" "solve B child = Some ys" by (auto dest: sym)
      with p Ok False \<open>sol \<in> set ys\<close> show thesis by (intro fork [of B child ys]) auto
    qed
  qed (use p assms in \<open>simp add: solve.simps [of A s]\<close>)
qed

text \<open>An accepted solution is a fixpoint of the constraints of some choice of arms.\<close>

lemma solve_leaf:
  "solve A s = Some sols \<Longrightarrow> sol \<in> set sols \<Longrightarrow> accepted sol \<Longrightarrow>
     \<exists>cs. leaf s cs \<and> at_fixpoint (sol_assignment sol) cs \<and> below A (sol_assignment sol) \<and>
       (hm_ok A \<longrightarrow> hm_ok (sol_assignment sol)) \<and>
       (sol_status sol = Solved \<longrightarrow> assignment_is_concrete (sol_assignment sol))"
proof (induction A s arbitrary: sols rule: solve.induct)
  case (1 A s)
  from "1.prems"(1,2) show ?case
  proof (cases rule: solve_cases)
    case (conflict B st)
    with "1.prems"(3) show ?thesis by (auto simp: accepted_def)
  next
    case (leaf B)
    then show ?thesis
      using propagate_stable [OF leaf(1)] propagate_refines [OF leaf(1)]
      by (intro exI [of _ "sys_constraints s"]) (auto intro: leaf_done split: if_splits)
  next
    case (fork B child sols')
    then obtain cs where "leaf child cs" "at_fixpoint (sol_assignment sol) cs"
      "below B (sol_assignment sol)" "hm_ok B \<longrightarrow> hm_ok (sol_assignment sol)"
      "sol_status sol = Solved \<longrightarrow> assignment_is_concrete (sol_assignment sol)"
      using "1.IH" [of B "Ok ()" "()" child sols'] "1.prems"(3) by auto
    with fork propagate_refines [OF fork(1)] show ?thesis
      by (intro exI [of _ cs]) (auto intro: leaf_fork below_trans)
  qed
qed

lemma solves_mono: "solves M cs \<Longrightarrow> set cs' \<subseteq> set cs \<Longrightarrow> solves M cs'"
  by (auto simp: solves_def satisfies_constraints_def try_for_each_Ok_iff list_all_iff)

text \<open>Whatever solves the constraints of a choice of arms lies above an accepted solution.\<close>

lemma solve_complete:
  "leaf s cs \<Longrightarrow> solves M cs \<Longrightarrow> below A M \<Longrightarrow> solve A s = Some sols \<Longrightarrow>
     \<exists>sol\<in>set sols. accepted sol \<and> below (sol_assignment sol) M"
proof (induction arbitrary: A sols rule: leaf_induct)
  case (leaf_done s)
  then obtain B where "propagate (sys_constraints s) A = (B, Ok ())" "below B M"
    using staying_propagate [of A M "sys_constraints s"] by (auto simp: stays_below_def)
  with leaf_done show ?case by (auto simp: solve.simps [of A s] accepted_def)
next
  case (leaf_fork s child cs)
  have "set (sys_constraints s) \<subseteq> set cs"
    using fork_constraints leaf_constraints leaf_fork.hyps by blast
  then obtain B where B: "propagate (sys_constraints s) A = (B, Ok ())" "below B M"
    using staying_propagate [of A M "sys_constraints s"] leaf_fork.prems solves_mono
    by (fastforce simp: stays_below_def)
  with leaf_fork obtain yss where *: "those (map (solve B) (fork s)) = Some yss" "sols = concat yss"
    by (auto simp: solve.simps [of A s])
  with leaf_fork.hyps(2) those_SomeD [OF *(1), of "solve B child"]
  obtain ys where "solve B child = Some ys" "ys \<in> set yss" by auto
  with leaf_fork.IH [of B ys] leaf_fork.prems B * show ?case by auto
qed

end
