(* ===== verification/Type_Builder.thy ===== *)
theory Type_Builder
  imports Type_System
begin

text \<open>
  The generator of type constraints, \<^verbatim>\<open>SystemBuilder\<close> of \<^verbatim>\<open>veri/src/type_inference.rs\<close>.
\<close>

section \<open>The constraints of one expression\<close>

definition bit_vector_of_width :: "expr_id \<Rightarrow> nat \<Rightarrow> ty_constraint" where
  "bit_vector_of_width x width = CType x (TBitVector (Bits width))"

definition bit_vector :: "expr_id \<Rightarrow> ty_constraint" where
  "bit_vector x = CType x (TBitVector WUnknown)"

definition integer :: "expr_id \<Rightarrow> ty_constraint" where
  "integer x = CType x TInt"

definition boolean :: "expr_id \<Rightarrow> ty_constraint" where
  "boolean x = CType x TBool"

definition value_constraint :: "expr_id \<Rightarrow> const \<Rightarrow> ty_constraint" where
  "value_constraint x c = CValue x c"

definition boolean_value :: "expr_id \<Rightarrow> bool \<Rightarrow> ty_constraint" where
  "boolean_value x b = value_constraint x (CBool b)"

text \<open>
  \<^verbatim>\<open>SystemBuilder::veri_expr\<close>: the constraints its match arm pushes, in that order. A variable
  out of range, or an extract whose high bit is below its low bit, panics.
\<close>

primrec veri_expr :: "var_decl list \<Rightarrow> expr_id \<Rightarrow> expr \<Rightarrow> (unit, ty_constraint list) outcome" where
  "veri_expr vars x (EConst c) =
     Ok [value_constraint x c]"
| "veri_expr vars x (EVariable v) =
     (if v < length vars then Ok [CType x (var_ty (vars ! v))] else Panic)"
| "veri_expr vars x (ENot y) =
     Ok [boolean x, boolean y, CClause [LNot x, LNot y], CClause [LVar x, LVar y]]"
| "veri_expr vars x (EAnd y z) =
     Ok [boolean x, boolean y, boolean z, CClause [LNot x, LVar y], CClause [LNot x, LVar z],
        CClause [LVar x, LNot y, LNot z]]"
| "veri_expr vars x (EOr y z) =
     Ok [boolean x, boolean y, boolean z, CClause [LNot x, LVar y, LVar z],
        CClause [LVar x, LNot y], CClause [LVar x, LNot z]]"
| "veri_expr vars x (EImp y z) =
     Ok [boolean x, boolean y, boolean z, CClause [LNot x, LNot y, LVar z],
        CClause [LVar x, LVar y], CClause [LVar x, LNot y]]"
| "veri_expr vars x (EEq y z) =
     Ok [boolean x, CSameType y z, CImplies x (CIdentical y z)]"
| "veri_expr vars x (ELt y z) =
     Ok [boolean x, integer y, integer z]"
| "veri_expr vars x (ELte y z) =
     Ok [boolean x, integer y, integer z]"
| "veri_expr vars x (EBVUgt y z) =
     Ok [boolean x, bit_vector y, bit_vector z, CSameType y z]"
| "veri_expr vars x (EBVUge y z) =
     Ok [boolean x, bit_vector y, bit_vector z, CSameType y z]"
| "veri_expr vars x (EBVUlt y z) =
     Ok [boolean x, bit_vector y, bit_vector z, CSameType y z]"
| "veri_expr vars x (EBVUle y z) =
     Ok [boolean x, bit_vector y, bit_vector z, CSameType y z]"
| "veri_expr vars x (EBVSgt y z) =
     Ok [boolean x, bit_vector y, bit_vector z, CSameType y z]"
| "veri_expr vars x (EBVSge y z) =
     Ok [boolean x, bit_vector y, bit_vector z, CSameType y z]"
| "veri_expr vars x (EBVSlt y z) =
     Ok [boolean x, bit_vector y, bit_vector z, CSameType y z]"
| "veri_expr vars x (EBVSle y z) =
     Ok [boolean x, bit_vector y, bit_vector z, CSameType y z]"
| "veri_expr vars x (EBVSaddo y z) =
     Ok [boolean x, bit_vector y, bit_vector z, CSameType y z]"
| "veri_expr vars x (EBVNot y) =
     Ok [bit_vector x, bit_vector y, CSameType x y]"
| "veri_expr vars x (EBVNeg y) =
     Ok [bit_vector x, bit_vector y, CSameType x y]"
| "veri_expr vars x (ECls y) =
     Ok [bit_vector x, bit_vector y, CSameType x y]"
| "veri_expr vars x (EClz y) =
     Ok [bit_vector x, bit_vector y, CSameType x y]"
| "veri_expr vars x (ERev y) =
     Ok [bit_vector x, bit_vector y, CSameType x y]"
| "veri_expr vars x (EPopcnt y) =
     Ok [bit_vector x, bit_vector y, CSameType x y]"
| "veri_expr vars x (EAdd y z) =
     Ok [integer x, integer y, integer z]"
| "veri_expr vars x (ESub y z) =
     Ok [integer x, integer y, integer z]"
| "veri_expr vars x (EMul y z) =
     Ok [integer x, integer y, integer z]"
| "veri_expr vars x (EBVAdd y z) =
     Ok [bit_vector x, bit_vector y, bit_vector z, CSameType x y, CSameType x z]"
| "veri_expr vars x (EBVSub y z) =
     Ok [bit_vector x, bit_vector y, bit_vector z, CSameType x y, CSameType x z]"
| "veri_expr vars x (EBVMul y z) =
     Ok [bit_vector x, bit_vector y, bit_vector z, CSameType x y, CSameType x z]"
| "veri_expr vars x (EBVSDiv y z) =
     Ok [bit_vector x, bit_vector y, bit_vector z, CSameType x y, CSameType x z]"
| "veri_expr vars x (EBVUDiv y z) =
     Ok [bit_vector x, bit_vector y, bit_vector z, CSameType x y, CSameType x z]"
| "veri_expr vars x (EBVSRem y z) =
     Ok [bit_vector x, bit_vector y, bit_vector z, CSameType x y, CSameType x z]"
| "veri_expr vars x (EBVURem y z) =
     Ok [bit_vector x, bit_vector y, bit_vector z, CSameType x y, CSameType x z]"
| "veri_expr vars x (EBVAnd y z) =
     Ok [bit_vector x, bit_vector y, bit_vector z, CSameType x y, CSameType x z]"
| "veri_expr vars x (EBVOr y z) =
     Ok [bit_vector x, bit_vector y, bit_vector z, CSameType x y, CSameType x z]"
| "veri_expr vars x (EBVXor y z) =
     Ok [bit_vector x, bit_vector y, bit_vector z, CSameType x y, CSameType x z]"
| "veri_expr vars x (EBVShl y z) =
     Ok [bit_vector x, bit_vector y, bit_vector z, CSameType x y, CSameType x z]"
| "veri_expr vars x (EBVLShr y z) =
     Ok [bit_vector x, bit_vector y, bit_vector z, CSameType x y, CSameType x z]"
| "veri_expr vars x (EBVAShr y z) =
     Ok [bit_vector x, bit_vector y, bit_vector z, CSameType x y, CSameType x z]"
| "veri_expr vars x (EBVRotl y z) =
     Ok [bit_vector x, bit_vector y, bit_vector z, CSameType x y, CSameType x z]"
| "veri_expr vars x (EBVRotr y z) =
     Ok [bit_vector x, bit_vector y, bit_vector z, CSameType x y, CSameType x z]"
| "veri_expr vars x (EConditional c t e) =
     Ok [boolean c, CSameType x t, CSameType x e]"
| "veri_expr vars x (EBVZeroExt w y) =
     Ok [bit_vector x, integer w, bit_vector y, CWidthOf x w]"
| "veri_expr vars x (EBVSignExt w y) =
     Ok [bit_vector x, integer w, bit_vector y, CWidthOf x w]"
| "veri_expr vars x (EBVConvTo w y) =
     Ok [bit_vector x, integer w, bit_vector y, CWidthOf x w]"
| "veri_expr vars x (EBVExtract h l y) =
     (if l \<le> h \<and> 1 + (h - l) < usize_limit
      then Ok [bit_vector_of_width x (1 + (h - l)), bit_vector y] else Panic)"
| "veri_expr vars x (EBVConcat y z) =
     Ok [bit_vector x, bit_vector y, bit_vector z, CConcat x y z]"
| "veri_expr vars x (EInt2BV w y) =
     Ok [bit_vector x, integer w, integer y, CWidthOf x w]"
| "veri_expr vars x (EBV2Nat y) =
     Ok [integer x, bit_vector y]"
| "veri_expr vars x (EWidthOf y) =
     Ok [integer x, bit_vector y, CWidthOf y x]"
| "veri_expr vars x (EToFP w y) =
     Ok [integer w, bit_vector y, bit_vector x, CWidthOf x w, CWidthOf y w]"
| "veri_expr vars x (EToFPUnsigned w y) =
     Ok [integer w, bit_vector y, bit_vector x, CWidthOf x w, CWidthOf y w]"
| "veri_expr vars x (EToFPFromFP w y) =
     Ok [integer w, bit_vector y, bit_vector x, CWidthOf x w]"
| "veri_expr vars x (EFPToUBV w y) =
     Ok [integer w, bit_vector y, bit_vector x, CWidthOf x w]"
| "veri_expr vars x (EFPToSBV w y) =
     Ok [integer w, bit_vector y, bit_vector x, CWidthOf x w]"
| "veri_expr vars x (EFPPositiveInfinity w) =
     Ok [bit_vector x, integer w, CWidthOf x w]"
| "veri_expr vars x (EFPNegativeInfinity w) =
     Ok [bit_vector x, integer w, CWidthOf x w]"
| "veri_expr vars x (EFPPositiveZero w) =
     Ok [bit_vector x, integer w, CWidthOf x w]"
| "veri_expr vars x (EFPNegativeZero w) =
     Ok [bit_vector x, integer w, CWidthOf x w]"
| "veri_expr vars x (EFPNaN w) =
     Ok [bit_vector x, integer w, CWidthOf x w]"
| "veri_expr vars x (EFPEq y z) =
     Ok [boolean x, bit_vector y, bit_vector z, CSameType y z]"
| "veri_expr vars x (EFPNe y z) =
     Ok [boolean x, bit_vector y, bit_vector z, CSameType y z]"
| "veri_expr vars x (EFPLt y z) =
     Ok [boolean x, bit_vector y, bit_vector z, CSameType y z]"
| "veri_expr vars x (EFPGt y z) =
     Ok [boolean x, bit_vector y, bit_vector z, CSameType y z]"
| "veri_expr vars x (EFPLe y z) =
     Ok [boolean x, bit_vector y, bit_vector z, CSameType y z]"
| "veri_expr vars x (EFPGe y z) =
     Ok [boolean x, bit_vector y, bit_vector z, CSameType y z]"
| "veri_expr vars x (EFPAdd y z) =
     Ok [bit_vector x, bit_vector y, bit_vector z, CSameType x y, CSameType x z]"
| "veri_expr vars x (EFPSub y z) =
     Ok [bit_vector x, bit_vector y, bit_vector z, CSameType x y, CSameType x z]"
| "veri_expr vars x (EFPMul y z) =
     Ok [bit_vector x, bit_vector y, bit_vector z, CSameType x y, CSameType x z]"
| "veri_expr vars x (EFPDiv y z) =
     Ok [bit_vector x, bit_vector y, bit_vector z, CSameType x y, CSameType x z]"
| "veri_expr vars x (EFPMin y z) =
     Ok [bit_vector x, bit_vector y, bit_vector z, CSameType x y, CSameType x z]"
| "veri_expr vars x (EFPMax y z) =
     Ok [bit_vector x, bit_vector y, bit_vector z, CSameType x y, CSameType x z]"
| "veri_expr vars x (EFPNeg y) =
     Ok [bit_vector x, bit_vector y, CSameType x y]"
| "veri_expr vars x (EFPCeil y) =
     Ok [bit_vector x, bit_vector y, CSameType x y]"
| "veri_expr vars x (EFPFloor y) =
     Ok [bit_vector x, bit_vector y, CSameType x y]"
| "veri_expr vars x (EFPSqrt y) =
     Ok [bit_vector x, bit_vector y, CSameType x y]"
| "veri_expr vars x (EFPTrunc y) =
     Ok [bit_vector x, bit_vector y, CSameType x y]"
| "veri_expr vars x (EFPNearest y) =
     Ok [bit_vector x, bit_vector y, CSameType x y]"
| "veri_expr vars x (EFPIsZero y) =
     Ok [boolean x, bit_vector y]"
| "veri_expr vars x (EFPIsInfinite y) =
     Ok [boolean x, bit_vector y]"
| "veri_expr vars x (EFPIsNaN y) =
     Ok [boolean x, bit_vector y]"
| "veri_expr vars x (EFPIsNegative y) =
     Ok [boolean x, bit_vector y]"
| "veri_expr vars x (EFPIsPositive y) =
     Ok [boolean x, bit_vector y]"

section \<open>The builder\<close>

record builder =
  b_system :: system
  b_arm :: "arm option"

type_synonym build = "builder \<Rightarrow> (unit, builder) outcome"

definition builder_new :: builder where
  "builder_new =
     \<lparr>b_system = \<lparr>sys_choices = [], sys_constraints = [], sys_branches = []\<rparr>, b_arm = None\<rparr>"

definition push_constraint :: "ty_constraint \<Rightarrow> builder \<Rightarrow> builder" where
  "push_constraint c b =
     (case b_arm b of
        Some a \<Rightarrow> b\<lparr>b_arm := Some (a\<lparr>arm_constraints := arm_constraints a @ [c]\<rparr>)\<rparr>
      | None \<Rightarrow> b\<lparr>b_system := (b_system b)\<lparr>sys_constraints := sys_constraints (b_system b) @ [c]\<rparr>\<rparr>)"

definition push_branch :: "builder \<Rightarrow> builder" where
  "push_branch b = b\<lparr>b_system := (b_system b)\<lparr>sys_branches := sys_branches (b_system b) @ [[]]\<rparr>\<rparr>"

definition push_arm :: "choice \<Rightarrow> build" where
  "push_arm ch b =
     (if b_arm b \<noteq> None then Panic
      else Ok (b\<lparr>b_arm := Some \<lparr>arm_choice = ch, arm_constraints = []\<rparr>\<rparr>))"

definition pop_arm :: build where
  "pop_arm b =
     (case b_arm b of
        None \<Rightarrow> Panic
      | Some a \<Rightarrow>
          (let brs = sys_branches (b_system b) in
           if brs = [] then Panic
           else Ok (b\<lparr>b_arm := None,
                      b_system := (b_system b)\<lparr>sys_branches := butlast brs @ [last brs @ [a]]\<rparr>\<rparr>)))"

text \<open>
  \<^verbatim>\<open>SystemBuilder::symbolic\<close>: the shape of the value must match the shape of the type; every
  assertion and every unsupported combination panics.
\<close>

fun symbolic :: "'m symbolic \<Rightarrow> compound \<Rightarrow> build"
and symbolic_fields :: "'m sfield list \<Rightarrow> vfield list \<Rightarrow> build"
and symbolic_variants :: "'m svariant list \<Rightarrow> vvariant list \<Rightarrow> build" where
  "symbolic (Scalar x) (Primitive t) b = Ok (push_constraint (CType x t) b)"
| "symbolic (SStruct flds) (Struct tys) b =
     (if length flds \<noteq> length tys then Panic else symbolic_fields flds tys b)"
| "symbolic (SEnum (SEnumV ty d variants)) (Enum (VEnum _ i vtys)) b =
     (if ty \<noteq> i then Panic
      else let b = push_constraint (integer d) b in
           if length variants \<noteq> length vtys then Panic else symbolic_variants variants vtys b)"
| "symbolic _ _ b = Panic"
| "symbolic_fields (SField name v # flds) (VField ident t # tys) b =
     (if name \<noteq> fst ident then Panic
      else oc_bind (symbolic v t b) (symbolic_fields flds tys))"
| "symbolic_fields _ _ b = Ok b"
| "symbolic_variants (SVariant _ i _ v # variants) (VVariant n j flds # vtys) b =
     (if i \<noteq> j then Panic
      else oc_bind (symbolic v (variant_ty (VVariant n j flds)) b) (symbolic_variants variants vtys))"
| "symbolic_variants _ _ b = Ok b"

fun symbolic_args :: "'m symbolic list \<Rightarrow> compound list \<Rightarrow> build" where
  "symbolic_args (v # vs) (t # ts) b = oc_bind (symbolic v t b) (symbolic_args vs ts)"
| "symbolic_args _ _ b = Ok b"

definition call_signature :: "'m call \<Rightarrow> signature \<Rightarrow> build" where
  "call_signature c sig b =
     oc_bind (push_arm (TermInstantiation (call_term c) sig) b) (\<lambda>b.
     if length (call_args c) \<noteq> length (sig_args sig) then Panic
     else oc_bind (symbolic_args (call_args c) (sig_args sig) b) (\<lambda>b.
          oc_bind (symbolic (call_ret c) (sig_ret sig) b) pop_arm))"

fun for_each :: "('a \<Rightarrow> build) \<Rightarrow> 'a list \<Rightarrow> build" where
  "for_each f [] b = Ok b"
| "for_each f (x # xs) b = oc_bind (f x b) (for_each f xs)"

definition builder_call :: "'m call \<Rightarrow> build" where
  "builder_call c b =
     (if call_signatures c = [] then Ok b
      else for_each (call_signature c) (call_signatures c) (push_branch b))"

definition builder_qualifier :: "'m qualifier \<Rightarrow> build" where
  "builder_qualifier q b = symbolic (qualifier_value q) (qualifier_ty q) b"

definition builder_expr :: "var_decl list \<Rightarrow> nat \<times> expr \<Rightarrow> build" where
  "builder_expr vars ie b =
     oc_bind (veri_expr vars (fst ie) (snd ie)) (\<lambda>cs. Ok (fold push_constraint cs b))"

definition type_constraint_system :: "'m conditions \<Rightarrow> (unit, system) outcome" where
  "type_constraint_system cond =
     oc_bind (for_each (builder_expr (cond_variables cond)) (enumerate 0 (cond_exprs cond)) builder_new) (\<lambda>b.
     let b = fold (\<lambda>a. push_constraint (boolean_value a True)) (cond_assumptions cond) b;
         b = fold (\<lambda>a. push_constraint (boolean a)) (cond_assertions cond) b in
     oc_bind (for_each builder_call (cond_calls cond) b) (\<lambda>b.
     oc_bind (for_each builder_qualifier (cond_qualifiers cond) b) (\<lambda>b. Ok (b_system b))))"


section \<open>What the generated system contains\<close>

definition grows :: "builder \<Rightarrow> builder \<Rightarrow> bool" where
  "grows b b' \<longleftrightarrow> set (sys_constraints (b_system b)) \<subseteq> set (sys_constraints (b_system b'))"

definition build_grows :: "build \<Rightarrow> bool" where
  "build_grows f \<longleftrightarrow> (\<forall>b b'. f b = Ok b' \<longrightarrow> grows b b')"

lemma grows_refl [simp]: "grows b b"
  by (simp add: grows_def)

lemma grows_trans: "grows a b \<Longrightarrow> grows b c \<Longrightarrow> grows a c"
  by (auto simp: grows_def)

lemma grows_push [simp]: "grows b (push_constraint c b)" "grows b (push_branch b)"
  by (auto simp: grows_def push_constraint_def push_branch_def split: option.split)

lemma grows_fold: "(\<And>x b. grows b (f x b)) \<Longrightarrow> grows b (fold f xs b)"
  by (induction xs arbitrary: b) (auto intro: grows_trans)

lemma build_grows_for_each: "(\<And>x. x \<in> set xs \<Longrightarrow> build_grows (f x)) \<Longrightarrow> build_grows (for_each f xs)"
  by (induction xs) (fastforce simp: build_grows_def intro: grows_trans)+

lemma symbolic_grows:
  fixes v :: "'m symbolic" and fs :: "'m sfield list" and vs :: "'m svariant list"
  shows "symbolic v t b = Ok b' \<Longrightarrow> grows b b'"
  "symbolic_fields fs ts b = Ok b' \<Longrightarrow> grows b b'"
  "symbolic_variants vs vts b = Ok b' \<Longrightarrow> grows b b'"
  by (induction v t b and fs ts b and vs vts b arbitrary: b' and b' and b'
      rule: symbolic_symbolic_fields_symbolic_variants.induct)
    (auto simp: Let_def split: if_splits intro: grows_trans grows_trans [OF grows_push(1)])

lemma symbolic_args_grows: "symbolic_args vs ts b = Ok b' \<Longrightarrow> grows b b'"
  by (induction vs ts b rule: symbolic_args.induct) (auto dest: symbolic_grows intro: grows_trans)

lemma arm_grows: "push_arm ch b = Ok b' \<Longrightarrow> grows b b'" "pop_arm b = Ok b' \<Longrightarrow> grows b b'"
  by (auto simp: push_arm_def pop_arm_def grows_def Let_def split: if_splits option.splits)

lemma call_grows: "build_grows (builder_call c)"
proof -
  have "build_grows (call_signature c sig)" for sig
    unfolding build_grows_def call_signature_def
    by (auto dest!: arm_grows symbolic_grows symbolic_args_grows split: if_splits intro: grows_trans)
  then have "build_grows (for_each (call_signature c) sigs)" for sigs
    by (intro build_grows_for_each)
  then show ?thesis
    unfolding build_grows_def builder_call_def by (auto intro: grows_trans grows_push)
qed

lemma fold_push_system:
  "b_arm b = None \<Longrightarrow>
     b_arm (fold push_constraint cs b) = None \<and>
     sys_constraints (b_system (fold push_constraint cs b)) = sys_constraints (b_system b) @ cs"
  by (induction cs arbitrary: b) (auto simp: push_constraint_def)

lemma builder_exprs_system:
  "for_each (builder_expr vars) ies b = Ok b' \<Longrightarrow> b_arm b = None \<Longrightarrow> (i, e) \<in> set ies \<Longrightarrow>
     \<exists>cs. veri_expr vars i e = Ok cs \<and> set cs \<subseteq> set (sys_constraints (b_system b'))"
proof (induction ies arbitrary: b)
  case (Cons ie ies)
  from Cons.prems(1) obtain cs where cs: "veri_expr vars (fst ie) (snd ie) = Ok cs"
      "for_each (builder_expr vars) ies (fold push_constraint cs b) = Ok b'"
    by (auto simp: builder_expr_def [of vars ie])
  have "build_grows (for_each (builder_expr vars) ies)"
    by (intro build_grows_for_each)
      (auto simp: build_grows_def builder_expr_def intro: grows_fold)
  with cs have *: "grows (fold push_constraint cs b) b'" by (auto simp: build_grows_def)
  show ?case
  proof (cases "(i, e) = ie")
    case True
    with cs * fold_push_system [OF Cons.prems(2), of cs] show ?thesis
      by (auto simp: grows_def)
  next
    case False
    with Cons cs fold_push_system [OF Cons.prems(2), of cs] show ?thesis by auto
  qed
qed simp

lemma type_constraint_system_exprs:
  assumes "type_constraint_system cond = Ok sys" "i < length (cond_exprs cond)"
  shows "\<exists>cs. veri_expr (cond_variables cond) i (cond_exprs cond ! i) = Ok cs \<and>
           set cs \<subseteq> set (sys_constraints sys)"
proof -
  obtain b1 b2 b3 where b:
    "for_each (builder_expr (cond_variables cond)) (enumerate 0 (cond_exprs cond)) builder_new = Ok b1"
    "for_each builder_call (cond_calls cond)
       (fold (\<lambda>a. push_constraint (boolean a)) (cond_assertions cond)
         (fold (\<lambda>a. push_constraint (boolean_value a True)) (cond_assumptions cond) b1)) = Ok b2"
    "for_each builder_qualifier (cond_qualifiers cond) b2 = Ok b3" "sys = b_system b3"
    using assms(1) by (auto simp: type_constraint_system_def Let_def)
  have "build_grows (for_each builder_call (cond_calls cond))"
    by (intro build_grows_for_each call_grows)
  moreover have "build_grows (for_each builder_qualifier (cond_qualifiers cond))"
    by (intro build_grows_for_each)
      (auto simp: build_grows_def builder_qualifier_def dest: symbolic_grows)
  moreover have "grows b1 (fold (\<lambda>a. push_constraint (boolean a)) (cond_assertions cond)
         (fold (\<lambda>a. push_constraint (boolean_value a True)) (cond_assumptions cond) b1))"
    by (rule grows_trans; rule grows_fold) simp_all
  ultimately have "grows b1 b3"
    using b by (meson build_grows_def grows_trans)
  moreover have "(i, cond_exprs cond ! i) \<in> set (enumerate 0 (cond_exprs cond))"
    using assms(2) by (auto simp: in_set_enumerate_eq)
  ultimately show ?thesis
    using builder_exprs_system [OF b(1)] b(4) by (fastforce simp: builder_new_def grows_def)
qed

lemma builder_exprs_arm:
  "for_each (builder_expr vars) ies b = Ok b' \<Longrightarrow> b_arm b = None \<Longrightarrow> b_arm b' = None"
proof (induction ies arbitrary: b)
  case (Cons ie ies)
  then obtain cs where "for_each (builder_expr vars) ies (fold push_constraint cs b) = Ok b'"
    by (auto simp: builder_expr_def [of vars ie])
  with Cons show ?case using fold_push_system by blast
qed simp

lemma type_constraint_system_assumptions:
  assumes "type_constraint_system cond = Ok sys" "a \<in> set (cond_assumptions cond)"
  shows "boolean_value a True \<in> set (sys_constraints sys)"
proof -
  obtain b1 b2 b3 where b:
    "for_each (builder_expr (cond_variables cond)) (enumerate 0 (cond_exprs cond)) builder_new = Ok b1"
    "for_each builder_call (cond_calls cond)
       (fold (\<lambda>a. push_constraint (boolean a)) (cond_assertions cond)
         (fold (\<lambda>a. push_constraint (boolean_value a True)) (cond_assumptions cond) b1)) = Ok b2"
    "for_each builder_qualifier (cond_qualifiers cond) b2 = Ok b3" "sys = b_system b3"
    using assms(1) by (auto simp: type_constraint_system_def Let_def)
  let ?b = "fold (\<lambda>a. push_constraint (boolean_value a True)) (cond_assumptions cond) b1"
  have "?b = fold push_constraint (map (\<lambda>a. boolean_value a True) (cond_assumptions cond)) b1"
    by (simp add: fold_map comp_def)
  moreover have "b_arm b1 = None" using builder_exprs_arm [OF b(1)] by (simp add: builder_new_def)
  ultimately have "boolean_value a True \<in> set (sys_constraints (b_system ?b))"
    using assms(2) fold_push_system [of b1] by simp
  moreover have "grows ?b (fold (\<lambda>a. push_constraint (boolean a)) (cond_assertions cond) ?b)"
    by (rule grows_fold) simp
  moreover have "build_grows (for_each builder_call (cond_calls cond))"
    by (intro build_grows_for_each call_grows)
  then have "grows (fold (\<lambda>a. push_constraint (boolean a)) (cond_assertions cond) ?b) b2"
    using b(2) by (simp add: build_grows_def)
  moreover have "build_grows (for_each builder_qualifier (cond_qualifiers cond))"
    by (intro build_grows_for_each)
      (auto simp: build_grows_def builder_qualifier_def dest: symbolic_grows)
  then have "grows b2 b3" using b(3) by (simp add: build_grows_def)
  ultimately show ?thesis using b(4) by (auto simp: grows_def)
qed

section \<open>Every expression is typed\<close>

lemma veri_expr_vars:
  "veri_expr vars x e = Ok cs \<Longrightarrow> c \<in> set cs \<Longrightarrow> cvars c \<subseteq> insert x (set (sources e))"
  by (cases e) (auto simp: bit_vector_of_width_def bit_vector_def integer_def boolean_def value_constraint_def
      split: if_splits)

lemmas typing_defs = bit_vector_of_width_def bit_vector_def integer_def boolean_def value_constraint_def

text \<open>An expression is typed directly, or it is a conditional and takes the type of its arms.\<close>

lemma veri_expr_types:
  "veri_expr vars x e = Ok cs \<Longrightarrow>
     (\<exists>t. CType x t \<in> set cs) \<or> (\<exists>c. CValue x c \<in> set cs) \<or>
     (\<exists>y\<in>set (sources e). CSameType x y \<in> set cs)"
  by (cases e) (auto simp: typing_defs split: if_splits)

fun bv_guarded :: "ty_constraint list \<Rightarrow> ty_constraint \<Rightarrow> bool" where
  "bv_guarded cs (CWidthOf x w) = (bit_vector x \<in> set cs)"
| "bv_guarded cs (CConcat x l r) = (bit_vector x \<in> set cs \<and> bit_vector l \<in> set cs \<and> bit_vector r \<in> set cs)"
| "bv_guarded cs (CImplies _ c) = bv_guarded cs c"
| "bv_guarded cs _ = True"

lemma veri_expr_guarded: "veri_expr vars x e = Ok cs \<Longrightarrow> c \<in> set cs \<Longrightarrow> bv_guarded cs c"
  by (cases e) (auto simp: bit_vector_of_width_def integer_def boolean_def value_constraint_def bit_vector_def
      split: if_splits)

lemma concrete_lookup:
  "assignment_is_concrete A \<Longrightarrow> hm_get A x = Some tv \<Longrightarrow> is_concrete (tv_ty tv)"
  by (auto simp: assignment_is_concrete_def list_all_iff dest!: map_of_SomeD)

lemma fixpoint_bit_vector:
  assumes "at_fixpoint A cs" "assignment_is_concrete A" "bit_vector x \<in> set cs"
  shows "\<exists>n. bit_vector_width A x = Some n"
proof -
  have "set_type x (TBitVector WUnknown) A = (A, Ok False)"
    using assms(1,3) by (auto simp: at_fixpoint_def bit_vector_def)
  from set_stable(1) [OF this]
  obtain tv where tv: "hm_get A x = Some tv" "TVType (TBitVector WUnknown) \<le> tv" by blast
  then have "is_concrete (tv_ty tv)" using concrete_lookup assms(2) by blast
  with tv show ?thesis by (auto simp: TVType_le_iff elim: is_concrete.elims)
qed

lemma guarded_widths_known:
  "at_fixpoint A cs \<Longrightarrow> assignment_is_concrete A \<Longrightarrow> bv_guarded cs c \<Longrightarrow> widths_known A c"
  by (induction c) (auto simp del: bit_vector_width_Some intro: fixpoint_bit_vector)

lemma same_type_assigned:
  "same_type x y A = (A, Ok False) \<Longrightarrow> hm_get A y \<noteq> None \<Longrightarrow> hm_get A x \<noteq> None"
  using same_type_stable [of x y A] unfolding satisfies_iffs by blast

lemma fixpoint_assigned:
  assumes "at_fixpoint A cs" "veri_expr vars x e = Ok ds" "set ds \<subseteq> set cs"
    and "\<And>y. y \<in> set (sources e) \<Longrightarrow> hm_get A y \<noteq> None"
  shows "hm_get A x \<noteq> None"
  using veri_expr_types [OF assms(2)]
proof (elim disjE exE bexE)
  fix t assume "CType x t \<in> set ds"
  then have "set_type x t A = (A, Ok False)" using assms(1,3) by (force simp: at_fixpoint_def)
  then show ?thesis by (auto dest: set_stable)
next
  fix c assume "CValue x c \<in> set ds"
  then have "set_value x c A = (A, Ok False)" using assms(1,3) by (force simp: at_fixpoint_def)
  then show ?thesis by (auto dest: set_stable)
next
  fix y assume "y \<in> set (sources e)" "CSameType x y \<in> set ds"
  then have "same_type x y A = (A, Ok False)" using assms(1,3) by (force simp: at_fixpoint_def)
  then show ?thesis by (rule same_type_assigned) (rule assms(4), fact)
qed

text \<open>Operands come before the expressions that use them.\<close>

definition topological :: "expr list \<Rightarrow> bool" where
  "topological es \<longleftrightarrow> list_all (\<lambda>(i, e). list_all (\<lambda>s. s < i) (sources e)) (enumerate 0 es)"

lemma topologicalD: "topological es \<Longrightarrow> i < length es \<Longrightarrow> s \<in> set (sources (es ! i)) \<Longrightarrow> s < i"
  by (fastforce simp: topological_def list_all_iff in_set_enumerate_eq)

lemma all_exprs_assigned:
  assumes "topological (cond_exprs cond)" "type_constraint_system cond = Ok sys"
    and "at_fixpoint A cs" "set (sys_constraints sys) \<subseteq> set cs"
  shows "i < length (cond_exprs cond) \<Longrightarrow> hm_get A i \<noteq> None"
proof (induction i rule: less_induct)
  case (less i)
  obtain ds where "veri_expr (cond_variables cond) i (cond_exprs cond ! i) = Ok ds"
      "set ds \<subseteq> set (sys_constraints sys)"
    using type_constraint_system_exprs [OF assms(2) less.prems] by blast
  moreover have "hm_get A y \<noteq> None" if "y \<in> set (sources (cond_exprs cond ! i))" for y
    using topologicalD [OF assms(1) less.prems that] less by auto
  ultimately show ?case using fixpoint_assigned [OF assms(3)] assms(4) by blast
qed

end
