(* ===== verification/Type_Inference.thy ===== *)
theory Type_Inference
  imports Type_Builder
begin

text \<open>
  What type inference as a whole guarantees: the theorems here join the constraint generator
  \<^verbatim>\<open>SystemBuilder\<close> with the solver \<^verbatim>\<open>Solver::solve\<close> of
  \<^verbatim>\<open>veri/src/type_inference.rs\<close>.
\<close>

section \<open>Soundness of a solved system\<close>

lemma bv_guarded_mono: "set ds \<subseteq> set cs \<Longrightarrow> bv_guarded ds c \<Longrightarrow> bv_guarded cs c"
  by (induction c) auto

lemma solved_constraint:
  assumes "topological (cond_exprs cond)" "type_constraint_system cond = Ok sys"
    and "leaf sys cs" "at_fixpoint A cs" "assignment_is_concrete A"
    and "i < length (cond_exprs cond)"
    and "veri_expr (cond_variables cond) i (cond_exprs cond ! i) = Ok ds" "c \<in> set ds" "clause_free c"
  shows "satisfies_constraint A c = Ok ()"
proof -
  have cs: "set (sys_constraints sys) \<subseteq> set cs" using leaf_constraints assms(3) .
  have ds: "set ds \<subseteq> set cs"
    using type_constraint_system_exprs [OF assms(2,6)] assms(7) cs by auto
  note assigned = all_exprs_assigned [OF assms(1,2,4) cs]
  have "hm_get A x \<noteq> None" if "x \<in> cvars c" for x
  proof -
    have "x \<in> insert i (set (sources (cond_exprs cond ! i)))"
      using veri_expr_vars [OF assms(7,8)] that by (rule subsetD)
    then have "x < length (cond_exprs cond)"
      using topologicalD [OF assms(1,6), of x] assms(6) by auto
    then show ?thesis by (rule assigned)
  qed
  moreover have "bv_guarded cs c"
    using bv_guarded_mono [OF ds veri_expr_guarded [OF assms(7,8)]] .
  then have "widths_known A c" using guarded_widths_known assms(4,5) by blast
  moreover have "constraint_step c A = (A, Ok False)"
    using assms(4,8) ds by (auto simp: at_fixpoint_def)
  ultimately show ?thesis using stable_satisfies assms(9) by blast
qed

lemmas expect_iffs = satisfies_iffs [unfolded satisfies_constraint.simps]

section \<open>A worked condition\<close>

text \<open>The width of an 8-bit variable is 8.\<close>

definition width_example :: "unit conditions" where
  "width_example =
     \<lparr>cond_exprs = [EVariable 0, EWidthOf 0, EConst (CInt 8), EEq 1 2],
      cond_assumptions = [], cond_assertions = [3],
      cond_variables = [\<lparr>var_ty = TBitVector (Bits 8), var_name = ''v''\<rparr>],
      cond_calls = [], cond_qualifiers = []\<rparr>"

lemmas builder_simps = type_constraint_system_def builder_expr_def builder_new_def
  push_constraint_def Let_def typing_defs boolean_value_def

lemmas solver_simps = propagate_evals solve_evals s_or_def set_type_def set_type_value_def set_value_def
  set_int_value_def set_bool_value_def set_bit_vector_width_def same_type_def identical_def
  width_of_def clause_def tv_merge_def bool_value_def value_at_def as_value_def as_bool_def
  assignment_is_concrete_def

definition width_system :: system where
  "width_system =
     \<lparr>sys_choices = [], sys_constraints =
       [CType 0 (TBitVector (Bits 8)), integer 1, bit_vector 0, CWidthOf 0 1, CValue 2 (CInt 8),
        boolean 3, CSameType 1 2, CImplies 3 (CIdentical 1 2), boolean 3], sys_branches = []\<rparr>"

lemma width_example_system: "type_constraint_system width_example = Ok width_system"
  by (simp add: width_example_def width_system_def builder_simps enumerate_eq_zip)

lemma width_example_solve:
  "solve [] width_system = Some [\<lparr>sol_status = Solved, sol_choices = [],
     sol_assignment = [(0, TVType (TBitVector (Bits 8))), (1, TVValue (CInt 8)), (2, TVValue (CInt 8)),
       (3, TVType TBool)]\<rparr>]"
  by (simp add: width_system_def typing_defs solver_simps)

section \<open>Properties\<close>

text \<open>
  C4. A solution reported as solved types the whole condition: when operands precede their uses,
  every expression has a concrete type, and the assignment passes the reference check on every
  constraint, clauses apart, that any expression gives rise to.
\<close>
theorem solved_typing:
  assumes "topological (cond_exprs cond)" "type_constraint_system cond = Ok sys"
    and "solve [] sys = Some sols" "sol \<in> set sols" "sol_status sol = Solved"
    and "i < length (cond_exprs cond)"
  shows "\<exists>tv cs. hm_get (sol_assignment sol) i = Some tv \<and> is_concrete (tv_ty tv) \<and>
    veri_expr (cond_variables cond) i (cond_exprs cond ! i) = Ok cs \<and>
    satisfies_constraints (sol_assignment sol) (filter clause_free cs) = Ok ()"
proof -
  obtain cs where cs: "leaf sys cs" "at_fixpoint (sol_assignment sol) cs"
      "assignment_is_concrete (sol_assignment sol)"
    using solve_leaf [OF assms(3,4)] assms(5) by (auto simp: accepted_def)
  obtain ds where ds: "veri_expr (cond_variables cond) i (cond_exprs cond ! i) = Ok ds"
    using type_constraint_system_exprs [OF assms(2,6)] by auto
  have "satisfies_constraints (sol_assignment sol) (filter clause_free ds) = Ok ()"
    using solved_constraint [OF assms(1,2) cs assms(6) ds]
    by (simp add: satisfies_constraints_def try_for_each_Ok_iff)
  moreover obtain tv where "hm_get (sol_assignment sol) i = Some tv"
    using all_exprs_assigned [OF assms(1,2) cs(2) leaf_constraints [OF cs(1)] assms(6)] by auto
  ultimately show ?thesis using ds concrete_lookup cs(3) by blast
qed

theorem solved_typing_witness:
  "\<exists>tv cs. hm_get [(0, TVType (TBitVector (Bits 8))), (1, TVValue (CInt 8)),
      (2, TVValue (CInt 8)), (3, TVType TBool)] 1 = Some tv \<and> is_concrete (tv_ty tv) \<and>
    veri_expr (cond_variables width_example) 1 (EWidthOf 0) = Ok cs \<and>
    satisfies_constraints [(0, TVType (TBitVector (Bits 8))), (1, TVValue (CInt 8)),
      (2, TVValue (CInt 8)), (3, TVType TBool)] (filter clause_free cs) = Ok ()"
proof -
  have "topological (cond_exprs width_example)"
    by (simp add: topological_def width_example_def enumerate_eq_zip)
  from solved_typing [OF this width_example_system width_example_solve, of _ 1]
  show ?thesis by (simp add: width_example_def)
qed

text \<open>
  C5. Propagation is complete and gives the least solution: whenever some assignment solves the
  constraints and refines what is known, propagation ends without conflict and without panic,
  at a fixpoint of the constraints that every such assignment refines.
\<close>
theorem propagate_least_solution:
  assumes "solves M cs" "below A M"
  shows "\<exists>A'. propagate cs A = (A', Ok ()) \<and> at_fixpoint A' cs \<and> below A A' \<and> below A' M"
proof -
  obtain A' where A': "propagate cs A = (A', Ok ())" "below A' M"
    using staying_propagate [OF assms(2,1)] by (auto simp: stays_below_def)
  then show ?thesis using propagate_stable [OF A'(1)] propagate_refines [OF A'(1)] by blast
qed

theorem propagate_least_solution_witness:
  "\<exists>A'. propagate [CType 0 TInt, CWidthOf 1 0, CType 1 (TBitVector (Bits 8))] [] = (A', Ok ()) \<and>
     at_fixpoint A' [CType 0 TInt, CWidthOf 1 0, CType 1 (TBitVector (Bits 8))] \<and> below [] A' \<and>
     below A' [(0, TVValue (CInt 8)), (1, TVType (TBitVector (Bits 8)))]"
  by (rule propagate_least_solution)
    (simp_all add: solves_def satisfies_constraints_def expect_iffs representable_def
      usize_limit_def below_def)

text \<open>
  C6. Solving a branching system misses nothing: for every choice of one arm per branch and every
  assignment that solves the resulting constraints, some reported solution is accepted (neither
  inapplicable nor ill-typed) and is refined by that assignment.
\<close>
theorem solve_finds_every_solution:
  assumes "leaf sys cs" "solves M cs" "solve [] sys = Some sols"
  shows "\<exists>sol. sol \<in> set sols \<and> accepted sol \<and> below (sol_assignment sol) M"
proof -
  have "below [] M" by (simp add: below_def)
  then show ?thesis using solve_complete [OF assms(1,2) _ assms(3)] by blast
qed

definition branch_system :: system where
  "branch_system =
     \<lparr>sys_choices = [], sys_constraints = [CType 0 (TBitVector WUnknown)],
      sys_branches = [[\<lparr>arm_choice = TermInstantiation 0 \<lparr>sig_args = [], sig_ret = Primitive TInt\<rparr>,
                        arm_constraints = [CType 0 TInt]\<rparr>,
                       \<lparr>arm_choice = TermInstantiation 0 \<lparr>sig_args = [], sig_ret = Primitive (TBitVector (Bits 8))\<rparr>,
                        arm_constraints = [CType 0 (TBitVector (Bits 8))]\<rparr>]]\<rparr>"

theorem solve_finds_every_solution_witness:
  "\<exists>sols sol. solve [] branch_system = Some sols \<and> sol \<in> set sols \<and> accepted sol \<and>
     below (sol_assignment sol) [(0, TVType (TBitVector (Bits 8)))]"
proof -
  let ?cs = "[CType 0 (TBitVector WUnknown), CType 0 (TBitVector (Bits 8))]"
  let ?child = "\<lparr>sys_choices = [TermInstantiation 0 \<lparr>sig_args = [], sig_ret = Primitive (TBitVector (Bits 8))\<rparr>],
      sys_constraints = ?cs, sys_branches = []\<rparr>"
  have "leaf ?child ?cs" using leaf_done [of ?child] by simp
  moreover have "?child \<in> set (fork branch_system)" by (simp add: fork_def branch_system_def)
  ultimately have "leaf branch_system ?cs"
    by (intro leaf_fork [of branch_system ?child]) (simp_all add: branch_system_def)
  moreover have "solves [(0, TVType (TBitVector (Bits 8)))] ?cs"
    by (simp add: solves_def satisfies_constraints_def expect_iffs representable_def usize_limit_def)
  moreover obtain sols where "solve [] branch_system = Some sols"
    by (simp add: branch_system_def fork_def solver_simps)
  ultimately show ?thesis using solve_finds_every_solution by blast
qed

section \<open>Boolean operators as clauses\<close>

text \<open>Truth of the clauses among a list of constraints under a Boolean valuation.\<close>

fun literal_holds :: "(expr_id \<Rightarrow> bool) \<Rightarrow> literal \<Rightarrow> bool" where
  "literal_holds v (LVar x) = v x"
| "literal_holds v (LNot x) = (\<not> v x)"

fun clause_holds :: "(expr_id \<Rightarrow> bool) \<Rightarrow> ty_constraint \<Rightarrow> bool" where
  "clause_holds v (CClause lits) = list_ex (literal_holds v) lits"
| "clause_holds v _ = True"

text \<open>
  C7. The clauses generated for negation, conjunction and disjunction say exactly that the
  expression has the truth value of the operator applied to its operands.
\<close>
theorem boolean_clauses_exact:
  "(\<exists>cs. veri_expr vars x (ENot y) = Ok cs \<and>
      (\<forall>v. list_all (clause_holds v) cs \<longleftrightarrow> v x = (\<not> v y))) \<and>
   (\<exists>cs. veri_expr vars x (EAnd y z) = Ok cs \<and>
      (\<forall>v. list_all (clause_holds v) cs \<longleftrightarrow> v x = (v y \<and> v z))) \<and>
   (\<exists>cs. veri_expr vars x (EOr y z) = Ok cs \<and>
      (\<forall>v. list_all (clause_holds v) cs \<longleftrightarrow> v x = (v y \<or> v z)))"
  by (auto simp: typing_defs)

text \<open>
  C8. The clauses generated for an implication are not those of its truth table: they hold of a
  valuation exactly when the implication and the expression standing for it are both true, so an
  implication can never be false.
\<close>
theorem implication_clauses_force_true:
  "\<exists>cs. veri_expr vars x (EImp y z) = Ok cs \<and>
     (\<forall>v. list_all (clause_holds v) cs \<longleftrightarrow> v x \<and> (if v y then v z else True))"
  by (auto simp: typing_defs)

text \<open>A solution makes some literal of every clause true.\<close>

lemma solves_clause:
  assumes "solves M cs" "CClause lits \<in> set cs"
  shows "\<exists>l\<in>set lits. literal_value M l = Some True"
proof -
  have "expect_clause M lits = Ok ()" "list_all (\<lambda>l. literal_value M l \<noteq> None) lits"
    using assms by (auto simp: solves_def satisfies_constraints_def try_for_each_Ok_iff list_all_iff)
  then obtain l where "l \<in> set lits" "literal_value M l \<noteq> Some False" "literal_value M l \<noteq> None"
    by (auto simp: expect_clause_Ok_iff list_all_iff)
  then show ?thesis by (intro bexI [of _ l]) (cases "literal_value M l", auto)
qed

text \<open>The truth table of the Boolean operators: a valuation of a condition that also meets its assumptions.\<close>

fun bool_expr :: "(expr_id \<Rightarrow> bool) \<Rightarrow> expr_id \<Rightarrow> expr \<Rightarrow> bool" where
  "bool_expr v x (EConst (CBool b)) = (v x = b)"
| "bool_expr v x (ENot y) = (v x = (\<not> v y))"
| "bool_expr v x (EAnd y z) = (v x = (v y \<and> v z))"
| "bool_expr v x (EOr y z) = (v x = (v y \<or> v z))"
| "bool_expr v x (EImp y z) = (v x = (v y \<longrightarrow> v z))"
| "bool_expr v x _ = True"

definition bool_model :: "'m conditions \<Rightarrow> (expr_id \<Rightarrow> bool) \<Rightarrow> bool" where
  "bool_model cond v \<longleftrightarrow> list_all (\<lambda>(x, e). bool_expr v x e) (enumerate 0 (cond_exprs cond)) \<and>
     list_all v (cond_assumptions cond)"

text \<open>
  C9. Because of this, a condition that assumes the negation of an implication has no solution:
  whatever the operands of the implication are and whichever arm is chosen in each branch, no
  assignment passes the reference check on the generated constraints and decides their clauses.
\<close>
theorem negated_implication_unsolvable:
  assumes "type_constraint_system cond = Ok sys" "leaf sys cs"
    and "i < length (cond_exprs cond)" "cond_exprs cond ! i = EImp y z"
    and "j < length (cond_exprs cond)" "cond_exprs cond ! j = ENot i" "j \<in> set (cond_assumptions cond)"
  shows "\<nexists>M. solves M cs"
proof
  assume "\<exists>M. solves M cs"
  then obtain M where M: "solves M cs" ..
  have cs: "set (sys_constraints sys) \<subseteq> set cs" using leaf_constraints [OF assms(2)] .
  have "{CClause [LVar i, LVar y], CClause [LVar i, LNot y]} \<subseteq> set cs"
    using type_constraint_system_exprs [OF assms(1,3)] assms(4) cs by auto
  then have "bool_value M i = Some True"
    using solves_clause [OF M, of "[LVar i, LVar y]"] solves_clause [OF M, of "[LVar i, LNot y]"] by auto
  moreover have "CClause [LNot j, LNot i] \<in> set cs"
    using type_constraint_system_exprs [OF assms(1,5)] assms(6) cs by auto
  ultimately have "bool_value M j = Some False" using solves_clause [OF M, of "[LNot j, LNot i]"] by auto
  moreover have "CValue j (CBool True) \<in> set cs"
    using type_constraint_system_assumptions [OF assms(1,7)] cs by (auto simp: boolean_value_def value_constraint_def)
  then have "satisfies_constraint M (CValue j (CBool True)) = Ok ()"
    using M by (auto simp: solves_def satisfies_constraints_def try_for_each_Ok_iff)
  ultimately show False by (simp add: expect_iffs)
qed

text \<open>An example that has a model: the premise is true and the variable is false.\<close>

definition negated_implication :: "unit conditions" where
  "negated_implication =
     \<lparr>cond_exprs = [EConst (CBool True), EVariable 0, EImp 0 1, ENot 2],
      cond_assumptions = [3], cond_assertions = [],
      cond_variables = [\<lparr>var_ty = TBool, var_name = ''z''\<rparr>],
      cond_calls = [], cond_qualifiers = []\<rparr>"

theorem negated_implication_unsolvable_witness:
  "\<exists>sys sol c. type_constraint_system negated_implication = Ok sys \<and>
     (\<exists>v. bool_model negated_implication v) \<and> (\<nexists>M. solves M (sys_constraints sys)) \<and>
     solve [] sys = Some [sol] \<and> sol_status sol = Inapplicable c"
proof -
  obtain sys sol c where sys: "type_constraint_system negated_implication = Ok sys" "sys_branches sys = []"
      "solve [] sys = Some [sol]" "sol_status sol = Inapplicable c"
    by (simp add: negated_implication_def builder_simps enumerate_eq_zip solver_simps)
  have "\<nexists>M. solves M (sys_constraints sys)"
    by (rule negated_implication_unsolvable [OF sys(1) leaf_done [OF sys(2)], of 2 0 1 3])
      (simp_all add: negated_implication_def)
  moreover have "bool_model negated_implication (\<lambda>x. x = 0 \<or> x = 3)"
    by (simp add: bool_model_def negated_implication_def enumerate_eq_zip)
  ultimately show ?thesis using sys by blast
qed

section \<open>Clauses that are false\<close>

lemma literal_value_mono:
  "below A B \<Longrightarrow> literal_value A l = Some b \<Longrightarrow> literal_value B l = Some b"
  by (cases l) (auto dest!: belowD)

lemma false_literals_mono:
  "below A B \<Longrightarrow> list_all (\<lambda>l. literal_value A l = Some False) lits \<Longrightarrow>
     list_all (\<lambda>l. literal_value B l = Some False) lits"
  using literal_value_mono by (fastforce simp: list_all_iff)

lemma false_clause_step:
  "list_all (\<lambda>l. literal_value A l = Some False) lits \<Longrightarrow> constraint_step (CClause lits) A = (A, Ok False)"
proof -
  assume "list_all (\<lambda>l. literal_value A l = Some False) lits"
  then have "clause_unknown A None lits = None" by (induction lits) auto
  then show ?thesis by (simp add: clause_def)
qed

lemma iterate_false_clause:
  assumes "list_all (\<lambda>l. literal_value A l = Some False) lits"
  shows "iterate (cs1 @ CClause lits # cs2) A = iterate (cs1 @ cs2) A"
  using assms
proof (induction cs1 arbitrary: A)
  case Nil
  then show ?case
    by (cases "iterate cs2 A"; cases "snd (iterate cs2 A)")
      (auto simp: s_or_def false_clause_step simp del: constraint_step.simps)
next
  case (Cons c cs1)
  obtain B r where B: "constraint_step c A = (B, r)" by fastforce
  have "below A B" using refining_constraint_step [of "cvars c" c A] B by (simp add: refines_step_def)
  then have "iterate (cs1 @ CClause lits # cs2) B = iterate (cs1 @ cs2) B"
    using Cons false_literals_mono by blast
  with B show ?case by (simp add: s_or_def)
qed

lemma propagate_false_clause:
  assumes "list_all (\<lambda>l. literal_value A l = Some False) lits"
  shows "propagate (cs1 @ CClause lits # cs2) A = propagate (cs1 @ cs2) A"
  using assms
proof (induction "cs1 @ cs2" A rule: propagate.induct)
  case (1 A)
  obtain B r where B: "iterate (cs1 @ cs2) A = (B, r)" by fastforce
  have "below A B" using refining_iterate [of "\<Union> (cvars ` set (cs1 @ cs2))" "cs1 @ cs2" A] B
    by (simp add: refines_step_def)
  then have "list_all (\<lambda>l. literal_value B l = Some False) lits" using "1.prems" false_literals_mono by blast
  with "1.hyps" [of B r] B have "r = Ok True \<Longrightarrow> propagate (cs1 @ CClause lits # cs2) B = propagate (cs1 @ cs2) B"
    by simp
  with B iterate_false_clause [OF "1.prems", of cs1 cs2] show ?case
    by (subst (1 2) propagate.simps) (auto split: outcome.splits bool.splits)
qed

lemma fork_false_clause:
  assumes "sys_constraints s = cs1 @ CClause lits # cs2"
  shows "fork (s\<lparr>sys_constraints := cs1 @ cs2\<rparr>) =
    map (\<lambda>child. child\<lparr>sys_constraints := cs1 @ drop (length cs1 + 1) (sys_constraints child)\<rparr>) (fork s)"
  using assms by (simp add: fork_def Let_def)

lemma solve_refines:
  "solve A s = Some sols \<Longrightarrow> sol \<in> set sols \<Longrightarrow> below A (sol_assignment sol)"
proof (induction A s arbitrary: sols rule: solve.induct)
  case (1 A s)
  from "1.prems" show ?case
  proof (cases rule: solve_cases)
    case (fork B child sols')
    then show ?thesis
      using "1.IH" [of B "Ok ()" "()" child sols'] propagate_refines [OF fork(1)] by (auto intro: below_trans)
  qed (auto dest: propagate_refines)
qed

lemma fork_keeps_prefix:
  "child \<in> set (fork s) \<Longrightarrow> sys_constraints s = cs1 @ CClause lits # cs2 \<Longrightarrow>
     \<exists>cs3. sys_constraints child = cs1 @ CClause lits # cs3"
  by (auto simp: fork_def Let_def)

lemma solve_false_clause:
  assumes "list_all (\<lambda>l. literal_value A l = Some False) lits" "sys_constraints s = cs1 @ CClause lits # cs2"
  shows "solve A s = solve A (s\<lparr>sys_constraints := cs1 @ cs2\<rparr>)"
  using assms
proof (induction A s arbitrary: cs2 rule: solve.induct)
  case (1 A s)
  note same = propagate_false_clause [OF "1.prems"(1), of cs1 cs2]
  obtain B r where B: "propagate (cs1 @ cs2) A = (B, r)" by fastforce
  let ?drop = "\<lambda>child. child\<lparr>sys_constraints := cs1 @ drop (length cs1 + 1) (sys_constraints child)\<rparr>"
  have "solve B child = solve B (?drop child)"
    if ok: "r = Ok ()" "sys_branches s \<noteq> []" and child: "child \<in> set (fork s)" for child
  proof -
    have "below A B" using propagate_refines [OF B] by simp
    then have "list_all (\<lambda>l. literal_value B l = Some False) lits"
      using "1.prems"(1) false_literals_mono by blast
    moreover obtain cs3 where cs3: "sys_constraints child = cs1 @ CClause lits # cs3"
      using fork_keeps_prefix [OF child "1.prems"(2)] ..
    ultimately have "solve B child = solve B (child\<lparr>sys_constraints := cs1 @ cs3\<rparr>)"
      using "1.IH" [of B r "()" child] "1.prems"(2) same B ok child by simp
    with cs3 show ?thesis by simp
  qed
  then have "r = Ok () \<Longrightarrow> sys_branches s \<noteq> [] \<Longrightarrow>
      map (solve B) (fork s) = map (solve B) (fork (s\<lparr>sys_constraints := cs1 @ cs2\<rparr>))"
    using fork_false_clause [OF "1.prems"(2)] by simp
  with B same "1.prems"(2) show ?case
    by (subst (1 2) solve.simps) (auto split: outcome.splits)
qed

text \<open>
  C10. A clause whose literals are all false is ignored: from any assignment that makes them false,
  the solver reports for a system with the clause exactly the solutions, with their status, that it
  reports for the system without it. In every one of them the reference check of the same module
  rejects the clause, so a contradiction between clauses is not detected.
\<close>
theorem false_clause_ignored:
  assumes "list_all (\<lambda>l. literal_value A l = Some False) lits"
    and "sys_constraints sys = cs1 @ CClause lits # cs2" "solve A sys = Some sols"
  shows "solve A (sys\<lparr>sys_constraints := cs1 @ cs2\<rparr>) = Some sols \<and>
    (\<forall>sol\<in>set sols. satisfies_constraint (sol_assignment sol) (CClause lits) = Err FalseClause)"
proof -
  have "satisfies_constraint (sol_assignment sol) (CClause lits) = Err FalseClause" if "sol \<in> set sols" for sol
  proof -
    have "list_all (\<lambda>l. literal_value (sol_assignment sol) l = Some False) lits"
      using false_literals_mono [OF solve_refines [OF assms(3) that] assms(1)] .
    then show ?thesis unfolding satisfies_constraint.simps by (induction lits) simp_all
  qed
  then show ?thesis using solve_false_clause [OF assms(1,2)] assms(3) by simp
qed

text \<open>
  An example that starts from nothing known: a disjunction is assumed together with the negation of
  both sides. After some passes its clause is false, and the condition is reported as solved.
\<close>

definition false_clause :: "unit conditions" where
  "false_clause =
     \<lparr>cond_exprs = [EVariable 0, EVariable 1, EOr 0 1, ENot 0, ENot 1],
      cond_assumptions = [2, 3, 4], cond_assertions = [],
      cond_variables = [\<lparr>var_ty = TBool, var_name = ''a''\<rparr>, \<lparr>var_ty = TBool, var_name = ''b''\<rparr>],
      cond_calls = [], cond_qualifiers = []\<rparr>"

definition false_system :: system where
  "false_system =
     \<lparr>sys_choices = [], sys_constraints =
       [CType 0 TBool, CType 1 TBool, boolean 2, boolean 0, boolean 1] @
       CClause [LNot 2, LVar 0, LVar 1] #
       [CClause [LVar 2, LNot 0], CClause [LVar 2, LNot 1],
        boolean 3, boolean 0, CClause [LNot 3, LNot 0], CClause [LVar 3, LVar 0],
        boolean 4, boolean 1, CClause [LNot 4, LNot 1], CClause [LVar 4, LVar 1],
        boolean_value 2 True, boolean_value 3 True, boolean_value 4 True], sys_branches = []\<rparr>"

lemma false_clause_system: "type_constraint_system false_clause = Ok false_system"
  by (simp add: false_clause_def false_system_def builder_simps enumerate_eq_zip)

definition false_assignment :: assignment where
  "false_assignment = [(0, TVValue (CBool False)), (1, TVValue (CBool False)), (2, TVValue (CBool True)),
     (3, TVValue (CBool True)), (4, TVValue (CBool True))]"

lemma false_system_solve:
  "list_all (\<lambda>l. literal_value false_assignment l = Some False) [LNot 2, LVar 0, LVar 1]"
  "solve [] false_system = Some [\<lparr>sol_status = Solved, sol_choices = [], sol_assignment = false_assignment\<rparr>]"
  "solve false_assignment false_system =
     Some [\<lparr>sol_status = Solved, sol_choices = [], sol_assignment = false_assignment\<rparr>]"
  by (simp_all add: false_assignment_def false_system_def typing_defs boolean_value_def solver_simps)

theorem false_clause_ignored_witness:
  "\<exists>sol. type_constraint_system false_clause = Ok false_system \<and> solve [] false_system = Some [sol] \<and>
     sol_status sol = Solved \<and>
     satisfies_constraint (sol_assignment sol) (CClause [LNot 2, LVar 0, LVar 1]) = Err FalseClause"
proof -
  have "satisfies_constraint false_assignment (CClause [LNot 2, LVar 0, LVar 1]) = Err FalseClause"
    using false_clause_ignored [OF false_system_solve(1) _ false_system_solve(3),
        of "take 5 (sys_constraints false_system)" "drop 6 (sys_constraints false_system)"]
    by (simp add: false_system_def)
  then show ?thesis using false_system_solve(2) false_clause_system by (simp del: satisfies_constraint.simps)
qed

end
