(* ===== verification/Smt_Context.thy ===== *)
theory Smt_Context
  imports Arrival_Prelude "HOL-Library.Word"
begin

text \<open>
  The solver library \<^verbatim>\<open>easy_smt\<close> as the encodings under \<^verbatim>\<open>veri/src/encoded\<close> use it. It is not part
  of the repository, so its operations are a parameter \<open>S\<close> of the model, and the locale
  \<open>smt_theory\<close> states what the encodings rely on: SMT-LIB's meaning of the terms they
  build, and that declarations and assertions reach the solver. The last section instantiates
  the interface with S-expressions and an evaluator for them.
\<close>

unbundle bit_operations_syntax

section \<open>Operations of the library\<close>

text \<open>The bounds of an extraction are of Rust's type \<^verbatim>\<open>i32\<close>.\<close>

type_synonym i32 = "32 word"

record ('s, 'c) smt =
  smt_atom :: "string \<Rightarrow> 's"
  smt_numeral :: "nat \<Rightarrow> 's"
  smt_list :: "'s list \<Rightarrow> 's"
  smt_und :: 's
  smt_eq :: "'s \<Rightarrow> 's \<Rightarrow> 's"
  smt_bvor :: "'s \<Rightarrow> 's \<Rightarrow> 's"
  smt_bvand :: "'s \<Rightarrow> 's \<Rightarrow> 's"
  smt_bvshl :: "'s \<Rightarrow> 's \<Rightarrow> 's"
  smt_bvlshr :: "'s \<Rightarrow> 's \<Rightarrow> 's"
  smt_bvashr :: "'s \<Rightarrow> 's \<Rightarrow> 's"
  smt_bvadd :: "'s \<Rightarrow> 's \<Rightarrow> 's"
  smt_extract :: "i32 \<Rightarrow> i32 \<Rightarrow> 's \<Rightarrow> 's"
  smt_declare_const :: "string \<Rightarrow> 's \<Rightarrow> 'c \<Rightarrow> (unit, 's) outcome \<times> 'c"
  smt_assert :: "'s \<Rightarrow> 'c \<Rightarrow> (unit, unit) outcome \<times> 'c"

text \<open>Code that talks to the solver runs in its context and may panic.\<close>

type_synonym ('c, 'a) action = "'c \<Rightarrow> (unit, 'a \<times> 'c) outcome"

definition return :: "'a \<Rightarrow> ('c, 'a) action" where
  "return a c = Ok (a, c)"

definition act_bind :: "('c, 'a) action \<Rightarrow> ('a \<Rightarrow> ('c, 'b) action) \<Rightarrow> ('c, 'b) action" where
  "act_bind m f c = oc_bind (m c) (\<lambda>(a, c'). f a c')"

text \<open>\<^verbatim>\<open>let _ = smt.assert(e)\<close> drops the result; \<^verbatim>\<open>smt.assert(e).unwrap()\<close> panics on an error.\<close>

definition assert_ignore :: "('s, 'c) smt \<Rightarrow> 's \<Rightarrow> ('c, unit) action" where
  "assert_ignore S e c = Ok ((), snd (smt_assert S e c))"

definition assert_unwrap :: "('s, 'c) smt \<Rightarrow> 's \<Rightarrow> ('c, unit) action" where
  "assert_unwrap S e c =
     (case smt_assert S e c of (Ok _, c') \<Rightarrow> Ok ((), c') | _ \<Rightarrow> Panic)"

text \<open>\<^verbatim>\<open>declare\<close>, the same helper in each of the encoding modules.\<close>

definition declare_const :: "('s, 'c) smt \<Rightarrow> string \<Rightarrow> 's \<Rightarrow> ('c, 's) action" where
  "declare_const S name val c =
     (case smt_declare_const S name val c of
        (Ok _, c') \<Rightarrow> Ok (smt_atom S name, c')
      | _ \<Rightarrow> Panic)"

section \<open>Numbers in names and literals\<close>

text \<open>Rust prints a \<^verbatim>\<open>usize\<close> in decimal.\<close>

fun dec :: "nat \<Rightarrow> string" where
  "dec n = (if n < 10 then [char_of (48 + n)] else dec (n div 10) @ [char_of (48 + n mod 10)])"

declare dec.simps [simp del]

definition digit_value :: "char \<Rightarrow> nat" where
  "digit_value ch =
     (let n = of_char ch :: nat in
      if 48 \<le> n \<and> n \<le> 57 then n - 48 else if 97 \<le> n \<and> n \<le> 102 then n - 87 else n - 55)"

definition number :: "nat \<Rightarrow> string \<Rightarrow> nat" where
  "number radix ds = foldl (\<lambda>acc ch. acc * radix + digit_value ch) 0 ds"

definition is_dec :: "char \<Rightarrow> bool" where
  "is_dec ch \<longleftrightarrow> ch \<in> set ''0123456789''"

definition is_hex :: "char \<Rightarrow> bool" where
  "is_hex ch \<longleftrightarrow> ch \<in> set ''0123456789abcdef''"

text \<open>Names the encodings generate: an identifier that ends in an underscore and a number.\<close>

definition generated :: "string \<Rightarrow> bool" where
  "generated n \<longleftrightarrow>
     (\<exists>p k. n = p @ ''_'' @ dec k \<and> p \<noteq> [] \<and>
        hd p \<in> set ''abcdefghijklmnopqrstuvwxyz'' \<and>
        list_all (\<lambda>ch. ch \<in> set ''abcdefghijklmnopqrstuvwxyz0123456789_'') p)"

section \<open>Values of terms\<close>

datatype smt_value = BV nat nat | VBool bool

type_synonym valuation = "string \<Rightarrow> smt_value"

fun bv_val :: "smt_value \<Rightarrow> nat" where
  "bv_val (BV w n) = n"
| "bv_val (VBool _) = 0"

text \<open>SMT-LIB's arithmetic shift: a logical shift of the complement for a negative vector.\<close>

definition bv_not :: "nat \<Rightarrow> nat \<Rightarrow> nat" where
  "bv_not w n = 2 ^ w - 1 - n"

definition bv_ashr :: "nat \<Rightarrow> nat \<Rightarrow> nat \<Rightarrow> nat" where
  "bv_ashr w n k =
     (if n < 2 ^ (w - 1) then n div 2 ^ k else bv_not w (bv_not w n div 2 ^ k))"

definition bv_signed :: "nat \<Rightarrow> nat \<Rightarrow> int" where
  "bv_signed w n = (if n < 2 ^ (w - 1) then int n else int n - 2 ^ w)"

section \<open>Terms the encodings spell out\<close>

definition bv_sort :: "('s, 'c) smt \<Rightarrow> nat \<Rightarrow> 's" where
  "bv_sort S w = smt_list S [smt_und S, smt_atom S ''BitVec'', smt_numeral S w]"

definition bv_lit :: "('s, 'c) smt \<Rightarrow> string \<Rightarrow> nat \<Rightarrow> 's" where
  "bv_lit S lit w = smt_list S [smt_und S, smt_atom S lit, smt_numeral S w]"

section \<open>What the encodings rely on\<close>

text \<open>
  The meaning of a context and of a term: what has been declared and asserted, the value of a
  term under a valuation of the declared constants, and the values of a sort.
\<close>

record ('s, 'c) smt_sem =
  decls :: "'c \<Rightarrow> (string \<times> 's) list"
  facts :: "'c \<Rightarrow> 's list"
  ev :: "valuation \<Rightarrow> 's \<Rightarrow> smt_value option"
  has_sort :: "'s \<Rightarrow> smt_value \<Rightarrow> bool"

definition declared :: "('s, 'c) smt_sem \<Rightarrow> 'c \<Rightarrow> string set" where
  "declared M c = fst ` set (decls M c)"

definition well_sorted :: "('s, 'c) smt_sem \<Rightarrow> 'c \<Rightarrow> valuation \<Rightarrow> bool" where
  "well_sorted M c v \<longleftrightarrow> (\<forall>(nm, t)\<in>set (decls M c). has_sort M t (v nm))"

definition sat :: "('s, 'c) smt_sem \<Rightarrow> 'c \<Rightarrow> valuation \<Rightarrow> bool" where
  "sat M c v \<longleftrightarrow> well_sorted M c v \<and> (\<forall>e\<in>set (facts M c). ev M v e = Some (VBool True))"

locale smt_theory =
  fixes S :: "('s, 'c) smt"
    and M :: "('s, 'c) smt_sem"
  assumes declare_fresh: "nm \<notin> declared M c \<Longrightarrow> generated nm \<Longrightarrow>
      \<exists>s c'. smt_declare_const S nm t c = (Ok s, c') \<and>
        decls M c' = decls M c @ [(nm, t)] \<and> facts M c' = facts M c"
    and declare_again: "nm \<in> declared M c \<Longrightarrow> \<exists>e c'. smt_declare_const S nm t c = (Err e, c')"
    and assert_adds: "(\<And>v. well_sorted M c v \<Longrightarrow> \<exists>p. ev M v e = Some (VBool p)) \<Longrightarrow>
      \<exists>c'. smt_assert S e c = (Ok (), c') \<and> decls M c' = decls M c \<and> facts M c' = facts M c @ [e]"
    and sort_bv: "0 < w \<Longrightarrow> has_sort M (bv_sort S w) x \<longleftrightarrow> (\<exists>n<2 ^ w. x = BV w n)"
    and ev_constant: "generated nm \<Longrightarrow> ev M v (smt_atom S nm) = Some (v nm)"
    and ev_hex: "ds \<noteq> [] \<Longrightarrow> list_all is_hex ds \<Longrightarrow>
      ev M v (smt_atom S (''#x'' @ ds)) = Some (BV (4 * length ds) (number 16 ds))"
    and ev_bv_lit: "ds \<noteq> [] \<Longrightarrow> list_all is_dec ds \<Longrightarrow> number 10 ds < 2 ^ w \<Longrightarrow> 0 < w \<Longrightarrow>
      ev M v (bv_lit S (''bv'' @ ds) w) = Some (BV w (number 10 ds))"
    and ev_eq: "ev M v a = Some (BV w m) \<Longrightarrow> ev M v b = Some (BV w n) \<Longrightarrow>
      ev M v (smt_eq S a b) = Some (VBool (m = n))"
    and ev_not: "ev M v a = Some (VBool p) \<Longrightarrow>
      ev M v (smt_list S [smt_atom S ''not'', a]) = Some (VBool (\<not> p))"
    and ev_ite: "ev M v a = Some (VBool p) \<Longrightarrow> ev M v b = Some (VBool q) \<Longrightarrow>
      ev M v d = Some (VBool r) \<Longrightarrow>
      ev M v (smt_list S [smt_atom S ''ite'', a, b, d]) = Some (VBool (if p then q else r))"
    and ev_bvor: "ev M v a = Some (BV w m) \<Longrightarrow> ev M v b = Some (BV w n) \<Longrightarrow>
      ev M v (smt_bvor S a b) = Some (BV w (m OR n))"
    and ev_bvand: "ev M v a = Some (BV w m) \<Longrightarrow> ev M v b = Some (BV w n) \<Longrightarrow>
      ev M v (smt_bvand S a b) = Some (BV w (m AND n))"
    and ev_bvshl: "ev M v a = Some (BV w m) \<Longrightarrow> ev M v b = Some (BV w n) \<Longrightarrow>
      ev M v (smt_bvshl S a b) = Some (BV w (m * 2 ^ n mod 2 ^ w))"
    and ev_bvlshr: "ev M v a = Some (BV w m) \<Longrightarrow> ev M v b = Some (BV w n) \<Longrightarrow>
      ev M v (smt_bvlshr S a b) = Some (BV w (m div 2 ^ n))"
    and ev_bvashr: "ev M v a = Some (BV w m) \<Longrightarrow> ev M v b = Some (BV w n) \<Longrightarrow>
      ev M v (smt_bvashr S a b) = Some (BV w (bv_ashr w m n))"
    and ev_bvadd: "ev M v a = Some (BV w m) \<Longrightarrow> ev M v b = Some (BV w n) \<Longrightarrow>
      ev M v (smt_bvadd S a b) = Some (BV w ((m + n) mod 2 ^ w))"
    and ev_bvadd_list: "ev M v a = Some (BV w m) \<Longrightarrow> ev M v b = Some (BV w n) \<Longrightarrow>
      ev M v (smt_list S [smt_atom S ''bvadd'', a, b]) = Some (BV w ((m + n) mod 2 ^ w))"
    and ev_bvsub_list: "ev M v a = Some (BV w m) \<Longrightarrow> ev M v b = Some (BV w n) \<Longrightarrow>
      ev M v (smt_list S [smt_atom S ''bvsub'', a, b]) = Some (BV w ((m + 2 ^ w - n) mod 2 ^ w))"
    and ev_bvnot_list: "ev M v a = Some (BV w m) \<Longrightarrow>
      ev M v (smt_list S [smt_atom S ''bvnot'', a]) = Some (BV w (bv_not w m))"
    and ev_bvsle_list: "ev M v a = Some (BV w m) \<Longrightarrow> ev M v b = Some (BV w n) \<Longrightarrow>
      ev M v (smt_list S [smt_atom S ''bvsle'', a, b]) =
        Some (VBool (bv_signed w m \<le> bv_signed w n))"
    and ev_extract: "ev M v a = Some (BV w m) \<Longrightarrow> 0 \<le> sint l \<Longrightarrow> sint l \<le> sint h \<Longrightarrow> sint h < int w \<Longrightarrow>
      ev M v (smt_extract S h l a) =
        Some (BV (nat (sint h - sint l) + 1) (m div 2 ^ nat (sint l) mod 2 ^ (nat (sint h - sint l) + 1)))"
    and ev_zero_extend: "ev M v a = Some (BV w m) \<Longrightarrow>
      ev M v (smt_list S [smt_list S [smt_und S, smt_atom S ''zero_extend'', smt_numeral S k], a]) =
        Some (BV (w + k) m)"

section \<open>Denotations and runs\<close>

text \<open>Denotations: the value of a term as a function of the declared constants.\<close>

definition local :: "('s, 'c) smt_sem \<Rightarrow> 'c \<Rightarrow> (valuation \<Rightarrow> 'v) \<Rightarrow> bool" where
  "local M c f \<longleftrightarrow> (\<forall>v v'. (\<forall>nm\<in>declared M c. v nm = v' nm) \<longrightarrow> f v = f v')"

definition den :: "('s, 'c) smt_sem \<Rightarrow> 'c \<Rightarrow> nat \<Rightarrow> 's \<Rightarrow> (valuation \<Rightarrow> nat) \<Rightarrow> bool" where
  "den M c w e f \<longleftrightarrow> local M c f \<and>
     (\<forall>v. well_sorted M c v \<longrightarrow> ev M v e = Some (BV w (f v)) \<and> f v < 2 ^ w)"

definition bden :: "('s, 'c) smt_sem \<Rightarrow> 'c \<Rightarrow> 's \<Rightarrow> (valuation \<Rightarrow> bool) \<Rightarrow> bool" where
  "bden M c e f \<longleftrightarrow> local M c f \<and> (\<forall>v. well_sorted M c v \<longrightarrow> ev M v e = Some (VBool (f v)))"

text \<open>A context is closed when what it asserts are formulas over its declarations.\<close>

definition closed_ctx :: "('s, 'c) smt_sem \<Rightarrow> 'c \<Rightarrow> bool" where
  "closed_ctx M c \<longleftrightarrow> (\<forall>e\<in>set (facts M c). \<exists>f. bden M c e f)"

text \<open>
  A definitional extension: it keeps all declarations and assertions, and every valuation of the
  smaller context extends to one of the larger.
\<close>

definition extends :: "('s, 'c) smt_sem \<Rightarrow> 'c \<Rightarrow> 'c \<Rightarrow> bool" where
  "extends M c c' \<longleftrightarrow>
     set (decls M c) \<subseteq> set (decls M c') \<and> set (facts M c) \<subseteq> set (facts M c') \<and>
     (\<forall>v. sat M c v \<longrightarrow> (\<exists>v'. sat M c' v' \<and> (\<forall>nm\<in>declared M c. v' nm = v nm)))"

definition runs :: "('c, 'a) action \<Rightarrow> 'c \<Rightarrow> ('a \<Rightarrow> 'c \<Rightarrow> bool) \<Rightarrow> bool" where
  "runs m c Q \<longleftrightarrow> (\<exists>a c'. m c = Ok (a, c') \<and> Q a c')"

lemma runs_return [intro]: "Q a c \<Longrightarrow> runs (return a) c Q"
  by (simp add: runs_def return_def)

lemma runs_bind: "runs m c (\<lambda>a c'. runs (f a) c' Q) \<Longrightarrow> runs (act_bind m f) c Q"
  by (auto simp: runs_def act_bind_def)

lemma runs_weaken: "runs m c P \<Longrightarrow> (\<And>a c'. P a c' \<Longrightarrow> Q a c') \<Longrightarrow> runs m c Q"
  by (auto simp: runs_def)

lemma local_mono: "local M c f \<Longrightarrow> declared M c \<subseteq> declared M c' \<Longrightarrow> local M c' f"
  unfolding local_def by blast

lemma extends_refl [simp]: "extends M c c"
  by (auto simp: extends_def)

lemma extends_declared: "extends M c c' \<Longrightarrow> declared M c \<subseteq> declared M c'"
  by (auto simp: extends_def declared_def)

lemma extends_sorted: "extends M c c' \<Longrightarrow> well_sorted M c' v \<Longrightarrow> well_sorted M c v"
  by (auto simp: extends_def well_sorted_def)

lemma extends_sat: "extends M c c' \<Longrightarrow> sat M c' v \<Longrightarrow> sat M c v"
  using extends_sorted [of M c c' v] by (auto simp: sat_def extends_def)

lemma extends_trans:
  assumes "extends M a b" "extends M b c"
  shows "extends M a c"
proof -
  have "\<exists>v'. sat M c v' \<and> (\<forall>nm\<in>declared M a. v' nm = v nm)" if v: "sat M a v" for v
  proof -
    obtain v1 where "sat M b v1" "\<forall>nm\<in>declared M a. v1 nm = v nm"
      using assms(1) v by (auto simp: extends_def)
    moreover then obtain v2 where "sat M c v2" "\<forall>nm\<in>declared M b. v2 nm = v1 nm"
      using assms(2) unfolding extends_def by blast
    ultimately show ?thesis using extends_declared [OF assms(1)] by (intro exI [of _ v2]) auto
  qed
  then show ?thesis using assms by (auto simp: extends_def)
qed

lemma den_mono: "den M c w e f \<Longrightarrow> extends M c c' \<Longrightarrow> den M c' w e f"
  by (auto simp: den_def intro: local_mono dest: extends_declared extends_sorted)

lemma den_sat: "den M c w e f \<Longrightarrow> sat M c v \<Longrightarrow> ev M v e = Some (BV w (f v)) \<and> f v < 2 ^ w"
  by (auto simp: den_def sat_def)

lemma bden_sat: "bden M c e f \<Longrightarrow> sat M c v \<Longrightarrow> ev M v e = Some (VBool (f v))"
  by (auto simp: bden_def sat_def)

lemma den_localD: "den M c w e f \<Longrightarrow> \<forall>nm\<in>declared M c. v nm = v' nm \<Longrightarrow> f v = f v'"
  by (auto simp: den_def local_def)


lemma sorted_mono: "set (decls M c) \<subseteq> set (decls M c') \<Longrightarrow> well_sorted M c' v \<Longrightarrow> well_sorted M c v"
  by (auto simp: well_sorted_def)

lemma bden_mono: "bden M c e f \<Longrightarrow> set (decls M c) \<subseteq> set (decls M c') \<Longrightarrow> bden M c' e f"
  unfolding bden_def using sorted_mono [of M c c'] local_mono [of M c f c']
  by (auto simp: declared_def)

lemma local_const [intro]: "local M c (\<lambda>_. k)"
  by (simp add: local_def)

lemma local_comp: "local M c f \<Longrightarrow> local M c (\<lambda>v. h (f v))"
  unfolding local_def by metis

lemma local_comp2: "local M c f \<Longrightarrow> local M c g \<Longrightarrow> local M c (\<lambda>v. h (f v) (g v))"
  unfolding local_def by metis

lemma local_comp3:
  "local M c f \<Longrightarrow> local M c g \<Longrightarrow> local M c k \<Longrightarrow> local M c (\<lambda>v. h (f v) (g v) (k v))"
  unfolding local_def by metis

lemma number_less:
  assumes "\<forall>ch\<in>set ds. digit_value ch < r" "0 < r"
  shows "number r ds < r ^ length ds"
  using assms(1)
proof (induction ds rule: rev_induct)
  case (snoc d ds)
  have "number r ds + 1 \<le> r ^ length ds" using snoc by simp
  then have "(number r ds + 1) * r \<le> r ^ length ds * r" by (rule mult_le_mono1)
  with snoc.prems show ?case by (simp add: number_def algebra_simps)
qed (simp add: number_def)

lemma hex_digit_less: "is_hex ch \<Longrightarrow> digit_value ch < 16"
  by (auto simp: is_hex_def digit_value_def)

lemma hex_less: "list_all is_hex ds \<Longrightarrow> number 16 ds < 2 ^ (4 * length ds)"
  using number_less [of ds 16] hex_digit_less by (simp add: list_all_iff power_mult)

lemma or_less: "(m::nat) < 2 ^ w \<Longrightarrow> n < 2 ^ w \<Longrightarrow> m OR n < 2 ^ w"
  by (metis take_bit_nat_eq_self_iff take_bit_or)

lemma and_less: "(m::nat) < 2 ^ w \<Longrightarrow> n < 2 ^ w \<Longrightarrow> m AND n < 2 ^ w"
  by (metis take_bit_nat_eq_self_iff take_bit_and)

lemma div_less_pow: "(m::nat) < 2 ^ w \<Longrightarrow> m div 2 ^ n < 2 ^ w"
  by (meson div_le_dividend le_less_trans)

lemma bv_not_less [simp]: "bv_not w m < 2 ^ w"
  by (simp add: bv_not_def less_imp_diff_less)

lemma bv_ashr_less: "m < 2 ^ w \<Longrightarrow> bv_ashr w m n < 2 ^ w"
  by (auto simp: bv_ashr_def div_less_pow)

named_theorems denoting \<open>denotations of terms\<close>

context smt_theory
begin

lemma den_constant [denoting]:
  assumes "(nm, bv_sort S w) \<in> set (decls M c)" "generated nm" "0 < w"
  shows "den M c w (smt_atom S nm) (\<lambda>v. bv_val (v nm))"
proof -
  have "ev M v (smt_atom S nm) = Some (BV w (bv_val (v nm))) \<and> bv_val (v nm) < 2 ^ w"
    if "well_sorted M c v" for v
  proof -
    have "has_sort M (bv_sort S w) (v nm)" using that assms(1) by (auto simp: well_sorted_def)
    with assms show ?thesis by (auto simp: sort_bv ev_constant)
  qed
  moreover have "nm \<in> declared M c" using assms(1) by (force simp: declared_def)
  ultimately show ?thesis by (auto simp: den_def local_def)
qed

lemma den_hex [denoting]:
  "ds \<noteq> [] \<Longrightarrow> list_all is_hex ds \<Longrightarrow> w = 4 * length ds \<Longrightarrow> number 16 ds = k \<Longrightarrow>
     den M c w (smt_atom S (CHR ''#'' # CHR ''x'' # ds)) (\<lambda>_. k)"
  using ev_hex [of ds] hex_less [of ds] by (auto simp: den_def)

lemma den_lit [denoting]:
  "ds \<noteq> [] \<Longrightarrow> list_all is_dec ds \<Longrightarrow> number 10 ds = k \<Longrightarrow> k < 2 ^ w \<Longrightarrow> 0 < w \<Longrightarrow>
     den M c w (bv_lit S (CHR ''b'' # CHR ''v'' # ds) w) (\<lambda>_. k)"
  using ev_bv_lit [of ds w] by (auto simp: den_def)

lemma den_eq [denoting]:
  "den M c w a f \<Longrightarrow> den M c w b g \<Longrightarrow> bden M c (smt_eq S a b) (\<lambda>v. f v = g v)"
  by (auto simp: den_def bden_def intro: local_comp2 ev_eq)

lemma den_not [denoting]:
  "bden M c a f \<Longrightarrow> bden M c (smt_list S [smt_atom S ''not'', a]) (\<lambda>v. \<not> f v)"
  by (auto simp: bden_def intro: local_comp ev_not)

lemma den_ite [denoting]:
  "bden M c a f \<Longrightarrow> bden M c b g \<Longrightarrow> bden M c d h \<Longrightarrow>
     bden M c (smt_list S [smt_atom S ''ite'', a, b, d]) (\<lambda>v. if f v then g v else h v)"
  by (auto simp: bden_def ev_ite intro: local_comp3)

lemma den_binary [denoting]:
  assumes "den M c w a f" "den M c w b g"
  shows "den M c w (smt_bvor S a b) (\<lambda>v. f v OR g v)"
    and "den M c w (smt_bvand S a b) (\<lambda>v. f v AND g v)"
    and "den M c w (smt_bvshl S a b) (\<lambda>v. f v * 2 ^ g v mod 2 ^ w)"
    and "den M c w (smt_bvlshr S a b) (\<lambda>v. f v div 2 ^ g v)"
    and "den M c w (smt_bvashr S a b) (\<lambda>v. bv_ashr w (f v) (g v))"
    and "den M c w (smt_bvadd S a b) (\<lambda>v. (f v + g v) mod 2 ^ w)"
    and "den M c w (smt_list S [smt_atom S ''bvadd'', a, b]) (\<lambda>v. (f v + g v) mod 2 ^ w)"
    and "den M c w (smt_list S [smt_atom S ''bvsub'', a, b]) (\<lambda>v. (f v + 2 ^ w - g v) mod 2 ^ w)"
  using assms
  by (auto simp: den_def or_less and_less div_less_pow bv_ashr_less
      ev_bvor ev_bvand ev_bvshl ev_bvlshr ev_bvashr ev_bvadd ev_bvadd_list ev_bvsub_list
      intro: local_comp2)

lemma den_sle [denoting]:
  "den M c w a f \<Longrightarrow> den M c w b g \<Longrightarrow>
     bden M c (smt_list S [smt_atom S ''bvsle'', a, b]) (\<lambda>v. bv_signed w (f v) \<le> bv_signed w (g v))"
  by (auto simp: den_def bden_def ev_bvsle_list intro: local_comp2)

lemma den_bvnot [denoting]:
  "den M c w a f \<Longrightarrow> den M c w (smt_list S [smt_atom S ''bvnot'', a]) (\<lambda>v. bv_not w (f v))"
  by (auto simp: den_def ev_bvnot_list intro: local_comp)

lemma den_extract [denoting]:
  "den M c w a f \<Longrightarrow> 0 \<le> sint l \<Longrightarrow> sint l \<le> sint h \<Longrightarrow> sint h < int w \<Longrightarrow> k = nat (sint h - sint l) + 1 \<Longrightarrow>
     den M c k (smt_extract S h l a) (\<lambda>v. f v div 2 ^ nat (sint l) mod 2 ^ k)"
  by (auto simp: den_def ev_extract intro: local_comp)

lemma den_zero_extend [denoting]:
  assumes "den M c w a f"
  shows "den M c (w + k)
     (smt_list S [smt_list S [smt_und S, smt_atom S ''zero_extend'', smt_numeral S k], a]) f"
proof -
  have "(2::nat) ^ w \<le> 2 ^ (w + k)" by (rule power_increasing) auto
  with assms show ?thesis by (auto simp: den_def ev_zero_extend intro: less_le_trans)
qed

lemma declare_runs:
  assumes "nm \<notin> declared M c" "generated nm"
    and "\<And>c'. decls M c' = decls M c @ [(nm, t)] \<Longrightarrow> facts M c' = facts M c \<Longrightarrow> Q (smt_atom S nm) c'"
  shows "runs (declare_const S nm t) c Q"
  using declare_fresh [OF assms(1,2), of t] assms(3) by (auto simp: runs_def declare_const_def)

lemma assert_runs:
  assumes "bden M c e f"
    and "\<And>c'. decls M c' = decls M c \<Longrightarrow> facts M c' = facts M c @ [e] \<Longrightarrow> Q () c'"
  shows "runs (assert_ignore S e) c Q" "runs (assert_unwrap S e) c Q"
proof -
  obtain c' where "smt_assert S e c = (Ok (), c')" "decls M c' = decls M c" "facts M c' = facts M c @ [e]"
    using assert_adds [of c e] assms(1) by (auto simp: bden_def)
  with assms(2) show "runs (assert_ignore S e) c Q" "runs (assert_unwrap S e) c Q"
    by (auto simp: runs_def assert_ignore_def assert_unwrap_def)
qed

end

section \<open>Definitional extensions\<close>

context smt_theory
begin

lemma bv_sorted: "0 < w \<Longrightarrow> (nm, bv_sort S w) \<in> set (decls M c) \<Longrightarrow> well_sorted M c v \<Longrightarrow>
    v nm = BV w (bv_val (v nm)) \<and> bv_val (v nm) < 2 ^ w"
  by (auto simp: well_sorted_def sort_bv dest!: bspec)

lemma definitional:
  assumes c: "closed_ctx M c" "0 < w" "set ns \<inter> declared M c = {}"
    and c': "decls M c' = decls M c @ map (\<lambda>nm. (nm, bv_sort S w)) ns" "facts M c' = facts M c @ es"
    and es: "\<And>e. e \<in> set es \<Longrightarrow> \<exists>f. bden M c' e f"
    and g: "\<And>nm. nm \<in> set ns \<Longrightarrow> local M c (g nm)"
      "\<And>nm v. nm \<in> set ns \<Longrightarrow> well_sorted M c v \<Longrightarrow> g nm v < 2 ^ w"
    and iff: "\<And>v. well_sorted M c' v \<Longrightarrow>
      (\<forall>e\<in>set es. ev M v e = Some (VBool True)) \<longleftrightarrow> (\<forall>nm\<in>set ns. bv_val (v nm) = g nm v)"
  shows "extends M c c' \<and> closed_ctx M c' \<and> declared M c' = declared M c \<union> set ns \<and>
    (\<forall>v nm. sat M c' v \<longrightarrow> nm \<in> set ns \<longrightarrow> bv_val (v nm) = g nm v)"
proof -
  have sub: "set (decls M c) \<subseteq> set (decls M c')" using c' by auto
  have "\<exists>v'. sat M c' v' \<and> (\<forall>nm\<in>declared M c. v' nm = v nm)" if v: "sat M c v" for v
  proof -
    define v' where "v' nm = (if nm \<in> set ns then BV w (g nm v) else v nm)" for nm
    have agree: "\<forall>nm\<in>declared M c. v nm = v' nm" using c(3) by (auto simp: v'_def)
    have ws: "well_sorted M c v" using v by (simp add: sat_def)
    have "has_sort M t (v' nm)" if "(nm, t) \<in> set (decls M c)" for nm t
      using ws that agree by (force simp: well_sorted_def declared_def)
    then have ws': "well_sorted M c' v'"
      using c'(1) c(2) g(2) [OF _ ws] by (auto simp: well_sorted_def sort_bv v'_def)
    have "g nm v' = g nm v" if "nm \<in> set ns" for nm
      using g(1) [OF that] agree by (simp add: local_def)
    then have "\<forall>e\<in>set es. ev M v' e = Some (VBool True)" using iff [OF ws'] by (simp add: v'_def)
    moreover have "ev M v' e = Some (VBool True)" if e: "e \<in> set (facts M c)" for e
    proof -
      obtain f where f: "bden M c e f" using c(1) e by (auto simp: closed_ctx_def)
      then have "f v = f v'" using agree by (simp add: bden_def local_def)
      moreover have "f v" using bden_sat [OF f v] v e by (auto simp: sat_def)
      ultimately show ?thesis using f sorted_mono [OF sub ws'] by (auto simp: bden_def)
    qed
    ultimately have "sat M c' v'" using ws' c'(2) by (auto simp: sat_def)
    with agree show ?thesis by auto
  qed
  then have "extends M c c'" using c' by (auto simp: extends_def)
  moreover have "closed_ctx M c'"
    using c(1) c'(2) es bden_mono [OF _ sub] by (fastforce simp: closed_ctx_def)
  moreover have "declared M c' = declared M c \<union> set ns"
    using c'(1) by (simp add: declared_def image_Un image_image)
  moreover have "bv_val (v nm) = g nm v" if "sat M c' v" "nm \<in> set ns" for v nm
    using iff [of v] that c'(2) by (auto simp: sat_def)
  ultimately show ?thesis by blast
qed

end

section \<open>S-expressions\<close>

text \<open>
  An instance of the interface: contexts that record declarations and assertions, S-expressions
  as terms, and their evaluation.
\<close>

datatype sexpr = Atom string | Num nat | SList "sexpr list"

record script =
  sc_decls :: "(string \<times> sexpr) list"
  sc_facts :: "sexpr list"

definition sx_binary :: "string \<Rightarrow> smt_value option \<Rightarrow> smt_value option \<Rightarrow> smt_value option" where
  "sx_binary f x y =
     (case (x, y) of
        (Some (BV w m), Some (BV w' n)) \<Rightarrow>
          if w \<noteq> w' then None
          else if f = ''='' then Some (VBool (m = n))
          else if f = ''bvor'' then Some (BV w (m OR n))
          else if f = ''bvand'' then Some (BV w (m AND n))
          else if f = ''bvshl'' then Some (BV w (m * 2 ^ n mod 2 ^ w))
          else if f = ''bvlshr'' then Some (BV w (m div 2 ^ n))
          else if f = ''bvashr'' then Some (BV w (bv_ashr w m n))
          else if f = ''bvadd'' then Some (BV w ((m + n) mod 2 ^ w))
          else if f = ''bvsub'' then Some (BV w ((m + 2 ^ w - n) mod 2 ^ w))
          else if f = ''bvsle'' then Some (VBool (bv_signed w m \<le> bv_signed w n))
          else None
      | _ \<Rightarrow> None)"

definition sx_unary :: "string \<Rightarrow> smt_value option \<Rightarrow> smt_value option" where
  "sx_unary f x =
     (case x of
        Some (BV w m) \<Rightarrow> if f = ''bvnot'' then Some (BV w (bv_not w m)) else None
      | Some (VBool p) \<Rightarrow> if f = ''not'' then Some (VBool (\<not> p)) else None
      | None \<Rightarrow> None)"

definition sx_ite :: "smt_value option \<Rightarrow> smt_value option \<Rightarrow> smt_value option \<Rightarrow> smt_value option" where
  "sx_ite p x y =
     (case (p, x, y) of (Some (VBool b), Some q, Some r) \<Rightarrow> Some (if b then q else r) | _ \<Rightarrow> None)"

definition sx_literal :: "string \<Rightarrow> nat \<Rightarrow> smt_value option" where
  "sx_literal s w = (if take 2 s = ''bv'' then Some (BV w (number 10 (drop 2 s))) else None)"

definition sx_extract :: "nat \<Rightarrow> nat \<Rightarrow> smt_value option \<Rightarrow> smt_value option" where
  "sx_extract h l x =
     (case x of Some (BV w m) \<Rightarrow> Some (BV (h - l + 1) (m div 2 ^ l mod 2 ^ (h - l + 1))) | _ \<Rightarrow> None)"

definition sx_zero_extend :: "nat \<Rightarrow> smt_value option \<Rightarrow> smt_value option" where
  "sx_zero_extend k x = (case x of Some (BV w m) \<Rightarrow> Some (BV (w + k) m) | _ \<Rightarrow> None)"

fun sx_eval :: "valuation \<Rightarrow> sexpr \<Rightarrow> smt_value option" where
  "sx_eval v (Atom s) =
     (if take 2 s = ''#x'' then Some (BV (4 * length (drop 2 s)) (number 16 (drop 2 s)))
      else Some (v s))"
| "sx_eval v (SList [Atom f, x]) = sx_unary f (sx_eval v x)"
| "sx_eval v (SList [Atom f, x, y]) =
     (if f = ''_'' then (case (x, y) of (Atom s, Num w) \<Rightarrow> sx_literal s w | _ \<Rightarrow> None)
      else sx_binary f (sx_eval v x) (sx_eval v y))"
| "sx_eval v (SList [Atom f, p, x, y]) = sx_ite (sx_eval v p) (sx_eval v x) (sx_eval v y)"
| "sx_eval v (SList [SList [Atom u, Atom f, Num h, Num l], x]) = sx_extract h l (sx_eval v x)"
| "sx_eval v (SList [SList [Atom u, Atom f, Num k], x]) = sx_zero_extend k (sx_eval v x)"
| "sx_eval v _ = None"

definition sx_sort :: "sexpr \<Rightarrow> smt_value \<Rightarrow> bool" where
  "sx_sort t x =
     (case (t, x) of
        (SList [Atom u, Atom s, Num w], BV w' n) \<Rightarrow> s = ''BitVec'' \<and> w' = w \<and> n < 2 ^ w
      | _ \<Rightarrow> False)"

definition sexpr_smt :: "(sexpr, script) smt" where
  "sexpr_smt =
     \<lparr>smt_atom = Atom, smt_numeral = Num, smt_list = SList, smt_und = Atom ''_'',
      smt_eq = (\<lambda>a b. SList [Atom ''='', a, b]),
      smt_bvor = (\<lambda>a b. SList [Atom ''bvor'', a, b]),
      smt_bvand = (\<lambda>a b. SList [Atom ''bvand'', a, b]),
      smt_bvshl = (\<lambda>a b. SList [Atom ''bvshl'', a, b]),
      smt_bvlshr = (\<lambda>a b. SList [Atom ''bvlshr'', a, b]),
      smt_bvashr = (\<lambda>a b. SList [Atom ''bvashr'', a, b]),
      smt_bvadd = (\<lambda>a b. SList [Atom ''bvadd'', a, b]),
      smt_extract = (\<lambda>h l a. SList [SList [Atom ''_'', Atom ''extract'', Num (nat (sint h)), Num (nat (sint l))], a]),
      smt_declare_const = (\<lambda>nm t c.
        if nm \<in> fst ` set (sc_decls c) then (Err (), c)
        else (Ok (Atom nm), c\<lparr>sc_decls := sc_decls c @ [(nm, t)]\<rparr>)),
      smt_assert = (\<lambda>e c. (Ok (), c\<lparr>sc_facts := sc_facts c @ [e]\<rparr>))\<rparr>"

definition sexpr_sem :: "(sexpr, script) smt_sem" where
  "sexpr_sem = \<lparr>decls = sc_decls, facts = sc_facts, ev = sx_eval, has_sort = sx_sort\<rparr>"

lemma generated_not_hex: "generated nm \<Longrightarrow> take 2 nm \<noteq> ''#x''"
  by (auto simp: generated_def neq_Nil_conv)

interpretation sx: smt_theory sexpr_smt sexpr_sem
  by unfold_locales
    (auto simp: sexpr_smt_def sexpr_sem_def declared_def bv_sort_def bv_lit_def sx_sort_def
      generated_not_hex sx_binary_def sx_unary_def sx_ite_def sx_literal_def sx_extract_def
      sx_zero_extend_def nat_diff_distrib split: smt_value.split)

end
