(* ===== verification/Bit_Reference.thy ===== *)
theory Bit_Reference
  imports Smt_Context
begin

text \<open>
  Reference definitions of the bit operations that \<^verbatim>\<open>veri/src/encoded\<close> encodes, each by a scan
  of the bits of a number below \<open>2 ^ w\<close>, and the laws the encodings rest on.
\<close>

primrec clz :: "nat \<Rightarrow> nat \<Rightarrow> nat" where
  "clz 0 n = 0"
| "clz (Suc w) n = (if bit n w then 0 else Suc (clz w n))"

text \<open>Leading bits equal to the sign bit, the sign bit itself not counted.\<close>

definition cls :: "nat \<Rightarrow> nat \<Rightarrow> nat" where
  "cls w n = clz w (if bit n (w - 1) then bv_not w n else n) - 1"

definition popcount :: "nat \<Rightarrow> nat \<Rightarrow> nat" where
  "popcount w n = length (filter (bit n) [0..<w])"

definition bit_reverse :: "nat \<Rightarrow> nat \<Rightarrow> nat" where
  "bit_reverse w n = horner_sum of_bool 2 (map (\<lambda>i. bit n (w - 1 - i)) [0..<w])"

section \<open>Leading zeros by halving\<close>

lemma bit_less_pow: "(n::nat) < 2 ^ s \<Longrightarrow> s \<le> i \<Longrightarrow> \<not> bit n i"
  by (metis bit_take_bit_iff leD take_bit_nat_eq_self)

lemma clz_le: "clz w n \<le> w"
  by (induction w) auto

lemma clz_low: "n < 2 ^ s \<Longrightarrow> clz (t + s) n = t + clz s n"
  by (induction t) (auto dest: bit_less_pow [where i = "_ + s"])

lemma not_bit_less:
  assumes "(n::nat) < 2 ^ Suc k" "\<not> bit n k"
  shows "n < 2 ^ k"
proof -
  have "n div 2 ^ k < 2" using assms(1) by (intro less_mult_imp_div_less) simp
  moreover have "even (n div 2 ^ k)" using assms(2) by (simp add: bit_iff_odd)
  ultimately have "n div 2 ^ k = 0" by (cases "n div 2 ^ k") auto
  then show ?thesis by (simp add: div_eq_0_iff)
qed

lemma clz_high:
  "n < 2 ^ (t + s) \<Longrightarrow> n div 2 ^ s \<noteq> 0 \<Longrightarrow> clz (t + s) n = clz t (n div 2 ^ s)"
proof (induction t)
  case (Suc t)
  then show ?case
    using not_bit_less [of n "t + s"] by (auto simp: bit_iff_odd div_mult2_eq power_add mult.commute)
qed simp

text \<open>One round of the search: look at the upper half, and count it when it is zero.\<close>

lemma clz_round:
  assumes "n < 2 ^ (2 * s)"
  shows "(if n div 2 ^ s \<noteq> 0 then n div 2 ^ s else n) < 2 ^ s"
    and "clz (2 * s) n =
      (if n div 2 ^ s \<noteq> 0 then clz s (n div 2 ^ s) else s + clz s n)"
proof -
  have "n div 2 ^ s < 2 ^ s"
    using assms by (intro less_mult_imp_div_less) (simp add: mult_2 power_add)
  then show "(if n div 2 ^ s \<noteq> 0 then n div 2 ^ s else n) < 2 ^ s"
    by (auto simp: div_eq_0_iff)
  show "clz (2 * s) n = (if n div 2 ^ s \<noteq> 0 then clz s (n div 2 ^ s) else s + clz s n)"
    using assms clz_high [of n s s] clz_low [of n s s] by (auto simp: mult_2 div_eq_0_iff)
qed

lemma clz_1: "n < 2 \<Longrightarrow> clz (Suc 0) n = (if n \<noteq> 0 then 0 else 1)"
  by (auto simp: bit_0 less_2_cases_iff)

section \<open>Leading ones\<close>

text \<open>On the complement, an arithmetic shift is a logical one and a test for all ones a test for zero.\<close>

lemma bv_not_not [simp]: "n < 2 ^ w \<Longrightarrow> bv_not w (bv_not w n) = n"
  by (simp add: bv_not_def)

lemma bv_not_eq_iff: "m < 2 ^ w \<Longrightarrow> n < 2 ^ w \<Longrightarrow> bv_not w m = bv_not w n \<longleftrightarrow> m = n"
  by (auto simp: bv_not_def)

lemma bit_top_iff:
  assumes "0 < w" "(n::nat) < 2 ^ w"
  shows "bit n (w - 1) \<longleftrightarrow> 2 ^ (w - 1) \<le> n"
proof -
  have "n < 2 ^ Suc (w - 1)" using assms by simp
  then show ?thesis
    using not_bit_less [of n "w - 1"] bit_less_pow [of n "w - 1" "w - 1"] by (meson le_refl not_less)
qed

lemma bv_ashr_negative:
  assumes "n < 2 ^ w" "2 ^ (w - 1) \<le> n"
  shows "bv_not w (bv_ashr w n k) = bv_not w n div 2 ^ k"
  using assms div_le_dividend [of "bv_not w n" "2 ^ k"] bv_not_less
  by (simp add: bv_ashr_def le_less_trans [OF div_le_dividend])

lemma bv_signed_nonneg: "0 < w \<Longrightarrow> n < 2 ^ w \<Longrightarrow> bv_signed w 0 \<le> bv_signed w n \<longleftrightarrow> n < 2 ^ (w - 1)"
  by (auto simp: bv_signed_def)

section \<open>Reversal by swaps\<close>

lemma bit_bit_reverse: "bit (bit_reverse w n) i \<longleftrightarrow> i < w \<and> bit n (w - 1 - i)"
  by (auto simp: bit_reverse_def bit_horner_sum_bit_iff)

text \<open>Exchange neighbouring blocks of \<open>k\<close> bits; a position moves as follows.\<close>

definition swap_at :: "nat \<Rightarrow> nat \<Rightarrow> nat" where
  "swap_at k i = (if even (i div k) then i + k else i - k)"

definition permuted :: "nat \<Rightarrow> (nat \<Rightarrow> nat) \<Rightarrow> nat \<Rightarrow> nat \<Rightarrow> bool" where
  "permuted w f n m \<longleftrightarrow> m < 2 ^ w \<and> (\<forall>i<w. bit m i \<longleftrightarrow> bit n (f i))"

definition masks_ok :: "nat \<Rightarrow> nat \<Rightarrow> nat \<Rightarrow> nat \<Rightarrow> bool" where
  "masks_ok w k hi lo \<longleftrightarrow>
     list_all (\<lambda>i. if even (i div k) then bit hi (i + k) \<and> \<not> (k \<le> i \<and> bit lo (i - k))
       else k \<le> i \<and> bit lo (i - k) \<and> \<not> bit hi (i + k)) [0..<w]"

lemma permuted_swap_masked:
  assumes "n < 2 ^ w" "masks_ok w k hi lo"
  shows "permuted w (swap_at k) n ((n AND hi) div 2 ^ k OR (n AND lo) * 2 ^ k mod 2 ^ w)"
proof -
  let ?m = "drop_bit k (n AND hi) OR take_bit w (push_bit k (n AND lo))"
  have "take_bit w (n AND hi) = n AND hi"
    by (rule bit_eqI) (use bit_less_pow [OF assms(1)] in \<open>auto simp: bit_simps not_less [symmetric]\<close>)
  then have "n AND hi < 2 ^ w" by (rule iffD1 [OF take_bit_nat_eq_self_iff])
  then have "?m < 2 ^ w"
    by (intro or_less) (auto simp: drop_bit_eq_div div_less_pow simp del: take_bit_and push_bit_and)
  moreover have "bit ?m i \<longleftrightarrow> bit n (swap_at k i)" if "i < w" for i
    using assms(2) that
    by (auto simp: masks_ok_def list_all_iff swap_at_def bit_simps add.commute split: if_splits)
  ultimately show ?thesis
    by (auto simp: permuted_def drop_bit_eq_div push_bit_eq_mult take_bit_eq_mod)
qed

lemma permuted_swap_halves:
  assumes "n < 2 ^ w" "w = 2 * k"
  shows "permuted w (swap_at k) n (n div 2 ^ k OR n * 2 ^ k mod 2 ^ w)"
proof -
  let ?m = "drop_bit k n OR take_bit w (push_bit k n)"
  have "?m < 2 ^ w" using assms(1) by (intro or_less) (auto simp: drop_bit_eq_div div_less_pow)
  moreover have "bit ?m i \<longleftrightarrow> bit n (swap_at k i)" if "i < w" for i
  proof (cases "i < k")
    case True
    with that show ?thesis by (auto simp: swap_at_def bit_simps add.commute)
  next
    case False
    then have "i div k = 1" using that assms(2) by (intro div_nat_eqI) auto
    moreover have "\<not> bit n (k + i)" using bit_less_pow [OF assms(1)] False assms(2) by simp
    ultimately show ?thesis using False that by (auto simp: swap_at_def bit_simps)
  qed
  ultimately show ?thesis
    by (auto simp: permuted_def drop_bit_eq_div push_bit_eq_mult take_bit_eq_mod)
qed

lemma permuted_trans:
  assumes "permuted w f n m" "permuted w g m l" "\<forall>i<w. g i < w"
  shows "permuted w (f \<circ> g) n l"
  using assms by (auto simp: permuted_def)

lemma permuted_reverse:
  assumes "permuted w f n m" "\<forall>i<w. f i = w - 1 - i"
  shows "m = bit_reverse w n"
proof (rule bit_eqI)
  fix i
  show "bit m i \<longleftrightarrow> bit (bit_reverse w n) i"
    using assms bit_less_pow [of m w i] by (cases "i < w") (auto simp: permuted_def bit_bit_reverse)
qed

text \<open>Exchanging blocks of every power of two, the largest last, reverses the positions.\<close>

lemma swap_at_eq: "0 < k \<Longrightarrow> r < k \<Longrightarrow> swap_at k (q * k + r) = (if even q then q + 1 else q - 1) * k + r"
proof -
  assume k: "0 < k" "r < k"
  then have "(q * k + r) div k = q" by simp
  with k show ?thesis by (cases q) (auto simp: swap_at_def)
qed

lemma swap_at_less:
  assumes "0 < k" "2 * k dvd w" "i < w"
  shows "swap_at k i < w"
proof -
  obtain n where w: "w = 2 * k * n" using assms(2) by (auto elim: dvdE)
  have i: "i div k * k + i mod k = i" "i mod k < k" using assms(1) by simp_all
  have "i div k < 2 * n" using assms w by (simp add: div_less_iff_less_mult mult.commute mult.left_commute)
  then have "(if even (i div k) then i div k + 1 else i div k - 1) < 2 * n" by (auto elim!: evenE)
  then have "((if even (i div k) then i div k + 1 else i div k - 1) + 1) * k \<le> 2 * n * k"
    by (intro mult_right_mono) auto
  with swap_at_eq [OF assms(1) i(2), of "i div k"] i w show ?thesis by (simp add: algebra_simps)
qed

lemma swap_powers:
  "r < 2 ^ n \<Longrightarrow> foldr swap_at (map (\<lambda>j. 2 ^ j) (rev [0..<n])) (q * 2 ^ n + r) = q * 2 ^ n + (2 ^ n - 1 - r)"
proof (induction n arbitrary: q r)
  case (Suc n)
  obtain b s where r: "r = b * 2 ^ n + s" "b < 2" "s < 2 ^ n"
    using Suc.prems by (metis div_less_iff_less_mult div_mult_mod_eq mod_less_divisor power_Suc zero_less_numeral zero_less_power)
  have "q * 2 ^ Suc n + r = (2 * q + b) * 2 ^ n + s" by (simp add: r(1) algebra_simps)
  moreover have "swap_at (2 ^ n) ((2 * q + b) * 2 ^ n + (2 ^ n - 1 - s)) =
      (if even b then 2 * q + 1 else 2 * q) * 2 ^ n + (2 ^ n - 1 - s)"
    using r(2) swap_at_eq [of "2 ^ n" "2 ^ n - 1 - s" "2 * q + b"] by (auto simp: less_2_cases_iff less_imp_diff_less)
  moreover have "(if even b then 2 * q + 1 else 2 * q) * 2 ^ n + (2 ^ n - 1 - s) = q * 2 ^ Suc n + (2 ^ Suc n - 1 - r)"
    using r by (auto simp: less_2_cases_iff algebra_simps)
  ultimately show ?case using Suc.IH [OF r(3), of "2 * q + b"] by simp
qed simp

lemma swap_powers_reverse:
  "i < 2 ^ n \<Longrightarrow> foldr swap_at (map (\<lambda>j. 2 ^ j) (rev [0..<n])) i = 2 ^ n - 1 - i"
  using swap_powers [of i n 0] by simp

end
