(* ===== verification/Encoded_Count.thy ===== *)
theory Encoded_Count
  imports Bit_Reference
begin

text \<open>
  The statement patterns that \<^verbatim>\<open>veri/src/encoded/clz.rs\<close> and \<^verbatim>\<open>cls.rs\<close> repeat, and what each adds
  to the solver context. A pattern takes the literals of the source as arguments.
\<close>

section \<open>Patterns\<close>

text \<open>\<^verbatim>\<open>let name = declare(...)\<close> of a bit vector.\<close>

definition declare_bv :: "('s, 'c) smt \<Rightarrow> nat \<Rightarrow> string \<Rightarrow> nat \<Rightarrow> ('c, 's) action" where
  "declare_bv S w name i = declare_const S (name @ dec i) (bv_sort S w)"

text \<open>A constant defined to be zero: the counter at the start.\<close>

definition count_init :: "('s, 'c) smt \<Rightarrow> nat \<Rightarrow> string \<Rightarrow> nat \<Rightarrow> ('c, 's) action" where
  "count_init S w ret0 i =
     act_bind (declare_bv S w ret0 i) (\<lambda>ret0.
     act_bind (assert_ignore S (smt_eq S ret0 (bv_lit S ''bv0'' w))) (\<lambda>_.
     return ret0))"

text \<open>
  One round: shift, and unless the result is \<open>lit\<close> continue with it; otherwise add
  \<open>inc\<close> to the counter and keep the operand.
\<close>

definition count_round ::
  "('s, 'c) smt \<Rightarrow> ('s \<Rightarrow> 's \<Rightarrow> 's) \<Rightarrow> nat \<Rightarrow> string \<Rightarrow> string \<Rightarrow> string \<Rightarrow> string \<Rightarrow> string \<Rightarrow> string \<Rightarrow>
   's \<Rightarrow> 's \<Rightarrow> nat \<Rightarrow> ('c, 's \<times> 's) action" where
  "count_round S shift w lit ret1 y1 x1 amount inc x ret0 i =
     act_bind (declare_bv S w ret1 i) (\<lambda>ret1.
     act_bind (declare_bv S w y1 i) (\<lambda>y1.
     act_bind (declare_bv S w x1 i) (\<lambda>x1.
     act_bind (assert_ignore S (smt_eq S y1 (shift x (smt_atom S amount)))) (\<lambda>_.
     act_bind (assert_ignore S (smt_list S
       [smt_atom S ''ite'',
        smt_list S [smt_atom S ''not'', smt_eq S y1 (bv_lit S lit w)],
        smt_eq S ret1 ret0,
        smt_eq S ret1 (smt_list S [smt_atom S ''bvadd'', ret0, bv_lit S inc w])])) (\<lambda>_.
     act_bind (assert_ignore S (smt_list S
       [smt_atom S ''ite'',
        smt_list S [smt_atom S ''not'', smt_eq S y1 (bv_lit S lit w)],
        smt_eq S x1 y1,
        smt_eq S x1 x])) (\<lambda>_.
     return (ret1, x1)))))))"

text \<open>The last round only counts.\<close>

definition count_last ::
  "('s, 'c) smt \<Rightarrow> nat \<Rightarrow> string \<Rightarrow> string \<Rightarrow> string \<Rightarrow> 's \<Rightarrow> 's \<Rightarrow> nat \<Rightarrow> ('c, 's) action" where
  "count_last S w lit ret1 inc x ret0 i =
     act_bind (declare_bv S w ret1 i) (\<lambda>ret1.
     act_bind (assert_ignore S (smt_list S
       [smt_atom S ''ite'',
        smt_list S [smt_atom S ''not'', smt_eq S x (bv_lit S lit w)],
        smt_eq S ret1 ret0,
        smt_eq S ret1 (smt_list S [smt_atom S ''bvadd'', ret0, bv_lit S inc w])])) (\<lambda>_.
     return ret1))"

text \<open>Sign bits are not counted: one less, unless there is none.\<close>

definition count_less_one ::
  "('s, 'c) smt \<Rightarrow> nat \<Rightarrow> string \<Rightarrow> 's \<Rightarrow> nat \<Rightarrow> ('c, 's) action" where
  "count_less_one S w name ret i =
     act_bind (declare_bv S w name i) (\<lambda>res.
     act_bind (assert_ignore S (smt_list S
       [smt_atom S ''ite'',
        smt_eq S ret (bv_lit S ''bv0'' w),
        smt_eq S res ret,
        smt_eq S res (smt_list S [smt_atom S ''bvsub'', ret, bv_lit S ''bv1'' w])])) (\<lambda>_.
     return res))"

text \<open>The choice between the two counts by the sign of the operand.\<close>

definition select_by_sign ::
  "('s, 'c) smt \<Rightarrow> nat \<Rightarrow> string \<Rightarrow> 's \<Rightarrow> 's \<Rightarrow> 's \<Rightarrow> nat \<Rightarrow> ('c, 's) action" where
  "select_by_sign S w name x clzret clsret i =
     act_bind (declare_bv S w name i) (\<lambda>res.
     act_bind (assert_ignore S (smt_list S
       [smt_atom S ''ite'',
        smt_list S [smt_atom S ''bvsle'', bv_lit S ''bv0'' w, x],
        smt_eq S res clzret,
        smt_eq S res clsret])) (\<lambda>_.
     return res))"

section \<open>Fresh names\<close>

definition prefix_ok :: "string \<Rightarrow> bool" where
  "prefix_ok p \<longleftrightarrow> p \<noteq> [] \<and> butlast p \<noteq> [] \<and> last p = CHR ''_'' \<and>
     hd p \<in> set ''abcdefghijklmnopqrstuvwxyz'' \<and>
     list_all (\<lambda>ch. ch \<in> set ''abcdefghijklmnopqrstuvwxyz0123456789_'') p"

lemma prefix_ok_generated: "prefix_ok p \<Longrightarrow> generated (p @ dec i)"
proof -
  assume p: "prefix_ok p"
  then have "p @ dec i = butlast p @ ''_'' @ dec i"
    by (metis append.assoc append_butlast_last_id prefix_ok_def)
  moreover have "hd (butlast p) = hd p" using p by (cases p) (auto simp: prefix_ok_def)
  moreover have "list_all (\<lambda>ch. ch \<in> set ''abcdefghijklmnopqrstuvwxyz0123456789_'') (butlast p)"
    using p by (auto simp: prefix_ok_def list_all_iff dest: in_set_butlastD simp del: list.set)
  ultimately show ?thesis using p unfolding generated_def prefix_ok_def by metis
qed

text \<open>The names that a routine declares, by their prefixes, are not declared yet for this number.\<close>

definition fresh_names :: "('s, 'c) smt_sem \<Rightarrow> 'c \<Rightarrow> string list \<Rightarrow> nat \<Rightarrow> bool" where
  "fresh_names M c ps i \<longleftrightarrow> list_all (\<lambda>p. p @ dec i \<notin> declared M c) ps"

text \<open>The prefixes that are declared with the number, in a context reached from another.\<close>

definition stage :: "('s, 'c) smt_sem \<Rightarrow> 'c \<Rightarrow> nat \<Rightarrow> string set \<Rightarrow> 'c \<Rightarrow> bool" where
  "stage M c0 i P c \<longleftrightarrow> extends M c0 c \<and> closed_ctx M c \<and> (\<forall>p. p @ dec i \<in> declared M c \<longleftrightarrow> p \<in> P)"

lemma stage_start:
  assumes "fresh_names M c ps i" "closed_ctx M c"
  obtains P where "stage M c i P c" "set ps \<inter> P = {}"
proof
  show "stage M c i {p. p @ dec i \<in> declared M c} c" using assms(2) by (simp add: stage_def)
  show "set ps \<inter> {p. p @ dec i \<in> declared M c} = {}"
    using assms(1) by (auto simp: fresh_names_def list_all_iff)
qed

lemma stage_fresh: "stage M c0 i P c \<Longrightarrow> p \<notin> P \<Longrightarrow> p @ dec i \<notin> declared M c"
  by (simp add: stage_def)

lemma stage_declared: "stage M c0 i P c \<Longrightarrow> p \<in> P \<Longrightarrow> p @ dec i \<in> declared M c"
  by (simp add: stage_def)

lemma empty_script:
  "fresh_names sexpr_sem \<lparr>sc_decls = [], sc_facts = []\<rparr> ps i"
  "closed_ctx sexpr_sem \<lparr>sc_decls = [], sc_facts = []\<rparr>"
  by (simp_all add: fresh_names_def list_all_iff closed_ctx_def declared_def sexpr_sem_def)

lemma stage_extend:
  "stage M c0 i P c \<Longrightarrow> extends M c c' \<Longrightarrow> closed_ctx M c' \<Longrightarrow>
     declared M c' = declared M c \<union> (\<lambda>p. p @ dec i) ` Q \<Longrightarrow> stage M c0 i (Q \<union> P) c'"
  by (auto simp: stage_def intro: extends_trans)

section \<open>What the patterns add\<close>

lemma den_decls: "den M c w e f \<Longrightarrow> set (decls M c) \<subseteq> set (decls M c') \<Longrightarrow> den M c' w e f"
  unfolding den_def using sorted_mono [of M c c'] local_mono [of M c f c']
  by (auto simp: declared_def)

text \<open>A term that has the value \<open>G\<close> in every model of the context.\<close>

definition valued :: "('s, 'c) smt_sem \<Rightarrow> 'c \<Rightarrow> nat \<Rightarrow> 's \<Rightarrow> (valuation \<Rightarrow> nat) \<Rightarrow> bool" where
  "valued M c w e G \<longleftrightarrow> (\<exists>R. den M c w e R \<and> (\<forall>v. sat M c v \<longrightarrow> R v = G v))"

lemma den_valued: "den M c w e f \<Longrightarrow> valued M c w e f"
  by (auto simp: valued_def)

lemma valued_extends: "valued M c w e G \<Longrightarrow> extends M c c' \<Longrightarrow> valued M c' w e G"
  unfolding valued_def using den_mono extends_sat by metis

lemma valued_cong: "valued M c w e G \<Longrightarrow> (\<And>v. sat M c v \<Longrightarrow> G v = H v) \<Longrightarrow> valued M c w e H"
  unfolding valued_def by metis

lemma valued_ev: "valued M c w e G \<Longrightarrow> sat M c v \<Longrightarrow> ev M v e = Some (BV w (G v)) \<and> G v < 2 ^ w"
  unfolding valued_def using den_sat by metis

lemma runs_exact:
  assumes "runs m c (\<lambda>r c'. extends M c c' \<and> valued M c' w r G)"
  shows "\<exists>r c'. m c = Ok (r, c') \<and> extends M c c' \<and> (\<forall>v. sat M c' v \<longrightarrow> ev M v r = Some (BV w (G v)))"
proof -
  obtain r c' where *: "m c = Ok (r, c')" "extends M c c'" "valued M c' w r G"
    using assms by (auto simp: runs_def)
  then show ?thesis using valued_ev [OF *(3)] by auto
qed

lemma sub_one_mod: "(n::nat) \<noteq> 0 \<Longrightarrow> n < m \<Longrightarrow> (n + m - 1) mod m = n - 1"
  by (cases n) auto

context smt_theory
begin

lemma define_with_runs:
  assumes A: "A = assert_ignore S \<or> A = assert_unwrap S"
    and st: "stage M c0 i P c" "prefix_ok p" "p \<notin> P" "0 < w"
    and G: "local M c G" "\<And>v. well_sorted M c v \<Longrightarrow> G v < 2 ^ w"
    and e: "\<And>c'. decls M c' = decls M c @ [(p @ dec i, bv_sort S w)] \<Longrightarrow>
      \<exists>f. bden M c' (e (smt_atom S (p @ dec i))) f \<and>
        (\<forall>v. well_sorted M c' v \<longrightarrow> f v = (bv_val (v (p @ dec i)) = G v))"
  shows "runs (act_bind (declare_bv S w p i) (\<lambda>a. act_bind (A (e a)) (\<lambda>_. return a))) c
    (\<lambda>a c'. stage M c0 i ({p} \<union> P) c' \<and> extends M c c' \<and> valued M c' w a G)"
proof -
  let ?nm = "p @ dec i"
  note gen = prefix_ok_generated [OF st(2)]
  have fresh: "?nm \<notin> declared M c" using stage_fresh [OF st(1,3)] .
  have post: "stage M c0 i ({p} \<union> P) c' \<and> extends M c c' \<and> valued M c' w (smt_atom S ?nm) G"
    if c1: "decls M c1 = decls M c @ [(?nm, bv_sort S w)]" "facts M c1 = facts M c"
      and c': "decls M c' = decls M c1" "facts M c' = facts M c1 @ [e (smt_atom S ?nm)]" for c1 c'
  proof -
    obtain f where f: "bden M c' (e (smt_atom S ?nm)) f"
        "\<And>v. well_sorted M c' v \<Longrightarrow> f v = (bv_val (v ?nm) = G v)"
      using e [of c'] c1 c' by auto
    have ext: "extends M c c' \<and> closed_ctx M c' \<and> declared M c' = declared M c \<union> set [?nm] \<and>
        (\<forall>v nm. sat M c' v \<longrightarrow> nm \<in> set [?nm] \<longrightarrow> bv_val (v nm) = G v)"
    proof (rule definitional)
      show "closed_ctx M c" using st(1) by (simp add: stage_def)
      show "\<exists>f. bden M c' ea f" if "ea \<in> set [e (smt_atom S ?nm)]" for ea using f that by auto
      show "(\<forall>ea\<in>set [e (smt_atom S ?nm)]. ev M v ea = Some (VBool True)) \<longleftrightarrow>
          (\<forall>nm\<in>set [?nm]. bv_val (v nm) = G v)" if "well_sorted M c' v" for v
        using f(1) f(2) [OF that] that by (simp add: bden_def)
    qed (use st(4) fresh c1 c' G in auto)
    moreover have "den M c' w (smt_atom S ?nm) (\<lambda>v. bv_val (v ?nm))"
      using c1 c' gen st(4) by (intro den_constant) auto
    ultimately show ?thesis using stage_extend [OF st(1), of c' "{p}"] by (auto simp: valued_def)
  qed
  show ?thesis
    unfolding declare_bv_def
  proof (intro runs_bind declare_runs fresh gen)
    fix c1
    assume c1: "decls M c1 = decls M c @ [(?nm, bv_sort S w)]" "facts M c1 = facts M c"
    obtain f where f: "bden M c1 (e (smt_atom S ?nm)) f" using e [OF c1(1)] by blast
    show "runs (A (e (smt_atom S ?nm))) c1 (\<lambda>_ c'. runs (return (smt_atom S ?nm)) c'
        (\<lambda>a c'. stage M c0 i ({p} \<union> P) c' \<and> extends M c c' \<and> valued M c' w a G))"
      using A by (elim disjE; hypsubst) (rule assert_runs [OF f], rule runs_return, erule (1) post [OF c1])+
  qed
qed

lemmas define_runs = define_with_runs [OF disjI1 [OF refl]]

lemma den_0: "0 < w \<Longrightarrow> den M c w (bv_lit S ''bv0'' w) (\<lambda>_. 0)"
  by (rule den_lit) (simp_all add: is_dec_def number_def digit_value_def)

lemma den_1: "0 < w \<Longrightarrow> den M c w (bv_lit S ''bv1'' w) (\<lambda>_. 1)"
  using one_less_power [of "2::nat" w]
  by (intro den_lit) (simp_all add: is_dec_def number_def digit_value_def)

lemma den_fresh:
  "decls M c' = decls M c @ [(p @ dec i, bv_sort S w)] \<Longrightarrow> prefix_ok p \<Longrightarrow> 0 < w \<Longrightarrow>
     den M c' w (smt_atom S (p @ dec i)) (\<lambda>v. bv_val (v (p @ dec i)))"
  by (rule den_constant) (auto intro: prefix_ok_generated)

text \<open>A constant defined by an equation, or by one of two equations.\<close>

lemma define_eq_with_runs:
  assumes A: "A = assert_ignore S \<or> A = assert_unwrap S"
    and st: "stage M c0 i P c" "prefix_ok p" "p \<notin> P" "0 < w"
    and a: "den M c w a F"
  shows "runs (act_bind (declare_bv S w p i) (\<lambda>x. act_bind (A (smt_eq S x a)) (\<lambda>_. return x))) c
    (\<lambda>x c'. stage M c0 i ({p} \<union> P) c' \<and> extends M c c' \<and> valued M c' w x F)"
  using A st
proof (rule define_with_runs)
  fix c' assume c': "decls M c' = decls M c @ [(p @ dec i, bv_sort S w)]"
  then have "den M c' w a F" using a by (auto intro: den_decls)
  from den_eq [OF den_fresh [OF c' st(2,4)] this]
  show "\<exists>f. bden M c' (smt_eq S (smt_atom S (p @ dec i)) a) f \<and>
      (\<forall>v. well_sorted M c' v \<longrightarrow> f v = (bv_val (v (p @ dec i)) = F v))"
    by blast
qed (use a in \<open>auto simp: den_def\<close>)

lemmas define_eq_runs = define_eq_with_runs [OF disjI1 [OF refl]]

lemma define_ite_runs:
  assumes st: "stage M c0 i P c" "prefix_ok p" "p \<notin> P" "0 < w"
    and b: "bden M c b B" and a: "den M c w a F" "den M c w d H"
  shows "runs (act_bind (declare_bv S w p i) (\<lambda>x. act_bind (assert_ignore S
      (smt_list S [smt_atom S ''ite'', b, smt_eq S x a, smt_eq S x d])) (\<lambda>_. return x))) c
    (\<lambda>x c'. stage M c0 i ({p} \<union> P) c' \<and> extends M c c' \<and>
       valued M c' w x (\<lambda>v. if B v then F v else H v))"
  using st
proof (rule define_runs)
  show "local M c (\<lambda>v. if B v then F v else H v)"
    using a b by (auto simp: den_def bden_def intro: local_comp3 [where h = If])
  show "(if B v then F v else H v) < 2 ^ w" if "well_sorted M c v" for v
    using a that by (auto simp: den_def)
  fix c' assume c': "decls M c' = decls M c @ [(p @ dec i, bv_sort S w)]"
  then have "set (decls M c) \<subseteq> set (decls M c')" by auto
  with a b have "bden M c' b B" "den M c' w a F" "den M c' w d H"
    by (auto intro: den_decls bden_mono)
  from den_ite [OF this(1) den_eq [OF den_fresh [OF c' st(2,4)] this(2)]
      den_eq [OF den_fresh [OF c' st(2,4)] this(3)]]
  show "\<exists>f. bden M c' (smt_list S [smt_atom S ''ite'', b, smt_eq S (smt_atom S (p @ dec i)) a,
        smt_eq S (smt_atom S (p @ dec i)) d]) f \<and>
      (\<forall>v. well_sorted M c' v \<longrightarrow> f v = (bv_val (v (p @ dec i)) = (if B v then F v else H v)))"
    by fastforce
qed

lemma count_init_runs:
  assumes "stage M c0 i P c" "prefix_ok p" "p \<notin> P" "0 < w"
  shows "runs (count_init S w p i) c
    (\<lambda>a c'. stage M c0 i ({p} \<union> P) c' \<and> extends M c c' \<and> valued M c' w a (\<lambda>_. 0))"
  unfolding count_init_def by (rule define_eq_runs [OF assms den_0 [OF assms(4)]])

lemma count_last_runs:
  assumes "stage M c0 i P c" "prefix_ok p" "p \<notin> P" "0 < w"
    and "den M c w x X" "den M c w r R" "den M c w (bv_lit S lit w) (\<lambda>_. L)"
      "den M c w (bv_lit S inc w) (\<lambda>_. k)"
  shows "runs (count_last S w lit p inc x r i) c
    (\<lambda>a c'. stage M c0 i ({p} \<union> P) c' \<and> extends M c c' \<and>
       valued M c' w a (\<lambda>v. if X v \<noteq> L then R v else (R v + k) mod 2 ^ w))"
  unfolding count_last_def
  by (rule define_ite_runs [OF assms(1-4) den_not [OF den_eq [OF assms(5,7)]] assms(6)
        den_binary(7) [OF assms(6,8)]])

lemma count_less_one_runs:
  assumes "stage M c0 i P c" "prefix_ok p" "p \<notin> P" "0 < w" and "den M c w r R"
  shows "runs (count_less_one S w p r i) c
    (\<lambda>a c'. stage M c0 i ({p} \<union> P) c' \<and> extends M c c' \<and> valued M c' w a (\<lambda>v. R v - 1))"
proof (rule runs_weaken)
  let ?G = "\<lambda>v. if R v = 0 then R v else (R v + 2 ^ w - 1) mod 2 ^ w"
  show "runs (count_less_one S w p r i) c
      (\<lambda>a c'. stage M c0 i ({p} \<union> P) c' \<and> extends M c c' \<and> valued M c' w a ?G)"
    unfolding count_less_one_def
    by (rule define_ite_runs [OF assms(1-4) den_eq [OF assms(5) den_0 [OF assms(4)]] assms(5)
          den_binary(8) [OF assms(5) den_1 [OF assms(4)]]])
  fix a c' assume *: "stage M c0 i ({p} \<union> P) c' \<and> extends M c c' \<and> valued M c' w a ?G"
  have "?G v = R v - 1" if "sat M c' v" for v
  proof -
    have "R v < 2 ^ w" using den_sat [OF assms(5) extends_sat [of M c c' v]] * that by blast
    then show ?thesis using sub_one_mod by simp
  qed
  with * show "stage M c0 i ({p} \<union> P) c' \<and> extends M c c' \<and> valued M c' w a (\<lambda>v. R v - 1)"
    using valued_cong [of M c' w a ?G "\<lambda>v. R v - 1"] by simp
qed

lemma select_by_sign_runs:
  assumes "stage M c0 i P c" "prefix_ok p" "p \<notin> P" "0 < w"
    and "den M c w x X" "den M c w a F" "den M c w b H"
  shows "runs (select_by_sign S w p x a b i) c
    (\<lambda>r c'. stage M c0 i ({p} \<union> P) c' \<and> extends M c c' \<and>
       valued M c' w r (\<lambda>v. if bv_signed w 0 \<le> bv_signed w (X v) then F v else H v))"
  unfolding select_by_sign_def
  by (rule define_ite_runs [OF assms(1-4) den_sle [OF den_0 [OF assms(4)] assms(5)] assms(6,7)])

text \<open>The three assertions of a round, over the constants it declares.\<close>

lemma count_round_formulas:
  assumes at: "den M c w r' R'" "den M c w y' Y'" "den M c w x' X'"
    and den: "den M c w x X" "den M c w r R" "den M c w z Z"
    and lits: "den M c w (bv_lit S lit w) (\<lambda>_. L)" "den M c w (bv_lit S inc w) (\<lambda>_. k)"
  shows "bden M c (smt_eq S y' z) (\<lambda>v. Y' v = Z v)"
    and "bden M c (smt_list S [smt_atom S ''ite'',
        smt_list S [smt_atom S ''not'', smt_eq S y' (bv_lit S lit w)], smt_eq S r' r,
        smt_eq S r' (smt_list S [smt_atom S ''bvadd'', r, bv_lit S inc w])])
      (\<lambda>v. if Y' v \<noteq> L then R' v = R v else R' v = (R v + k) mod 2 ^ w)"
    and "bden M c (smt_list S [smt_atom S ''ite'',
        smt_list S [smt_atom S ''not'', smt_eq S y' (bv_lit S lit w)], smt_eq S x' y', smt_eq S x' x])
      (\<lambda>v. if Y' v \<noteq> L then X' v = Y' v else X' v = X v)"
  by (rule den_eq [OF at(2) den(3)])
    (rule den_ite [OF den_not [OF den_eq [OF at(2) lits(1)]] den_eq [OF at(1) den(2)]
        den_eq [OF at(1) den_binary(7) [OF den(2) lits(2)]]]
      den_ite [OF den_not [OF den_eq [OF at(2) lits(1)]] den_eq [OF at(3,2)] den_eq [OF at(3) den(1)]])+

lemma three_definitions:
  assumes c: "closed_ctx M c" "0 < w" "set [nr, ny, nx] \<inter> declared M c = {}"
      "distinct [nr, ny, nx]" "list_all generated [nr, ny, nx]"
    and c': "decls M c' = decls M c @ map (\<lambda>nm. (nm, bv_sort S w)) [nr, ny, nx]"
      "facts M c' = facts M c @ [f1, f2, f3]"
    and f: "bden M c' f1 (\<lambda>v. bv_val (v ny) = Y v)"
      "bden M c' f2 (\<lambda>v. if bv_val (v ny) \<noteq> L then bv_val (v nr) = R v else bv_val (v nr) = R' v)"
      "bden M c' f3 (\<lambda>v. if bv_val (v ny) \<noteq> L then bv_val (v nx) = bv_val (v ny) else bv_val (v nx) = X v)"
    and G: "local M c Y" "local M c R" "local M c R'" "local M c X"
      "\<And>v. well_sorted M c v \<Longrightarrow> Y v < 2 ^ w \<and> R v < 2 ^ w \<and> R' v < 2 ^ w \<and> X v < 2 ^ w"
  shows "extends M c c' \<and> closed_ctx M c' \<and> declared M c' = declared M c \<union> {nr, ny, nx} \<and>
    valued M c' w (smt_atom S nr) (\<lambda>v. if Y v \<noteq> L then R v else R' v) \<and>
    valued M c' w (smt_atom S nx) (\<lambda>v. if Y v \<noteq> L then Y v else X v)"
proof -
  let ?g = "\<lambda>nm v. if nm = ny then Y v else if nm = nr then if Y v \<noteq> L then R v else R' v
      else if Y v \<noteq> L then Y v else X v"
  have *: "extends M c c' \<and> closed_ctx M c' \<and> declared M c' = declared M c \<union> set [nr, ny, nx] \<and>
      (\<forall>v nm. sat M c' v \<longrightarrow> nm \<in> set [nr, ny, nx] \<longrightarrow> bv_val (v nm) = ?g nm v)"
  proof (rule definitional)
    show "\<exists>h. bden M c' e h" if "e \<in> set [f1, f2, f3]" for e using f that by auto
    show "local M c (?g nm)" for nm
      using G(1) local_comp3 [OF G(1-3), where h = "\<lambda>y a b. if y \<noteq> L then a else b"]
        local_comp2 [OF G(1,4), where h = "\<lambda>y a. if y \<noteq> L then y else a"]
      by (cases "nm = ny"; cases "nm = nr") simp_all
    show "?g nm v < 2 ^ w" if "well_sorted M c v" for nm v using G(5) [OF that] by simp
    show "(\<forall>e\<in>set [f1, f2, f3]. ev M v e = Some (VBool True)) \<longleftrightarrow>
        (\<forall>nm\<in>set [nr, ny, nx]. bv_val (v nm) = ?g nm v)" if "well_sorted M c' v" for v
      using f that c(4) by (auto simp: bden_def)
  qed (use c c' in simp_all)
  moreover have "den M c' w (smt_atom S nr) (\<lambda>v. bv_val (v nr))"
      "den M c' w (smt_atom S nx) (\<lambda>v. bv_val (v nx))"
    by (rule den_constant; use c c' in simp)+
  ultimately show ?thesis using c(4) by (auto simp: valued_def)
qed

lemma declared_snoc: "decls M c' = decls M c @ [(nm, t)] \<Longrightarrow> declared M c' = insert nm (declared M c)"
  by (simp add: declared_def)

lemma three_asserts:
  assumes "\<And>c'. decls M c' = decls M c \<Longrightarrow> \<exists>f. bden M c' f1 f"
    "\<And>c'. decls M c' = decls M c \<Longrightarrow> \<exists>f. bden M c' f2 f"
    "\<And>c'. decls M c' = decls M c \<Longrightarrow> \<exists>f. bden M c' f3 f"
    and Q: "\<And>c'. decls M c' = decls M c \<Longrightarrow> facts M c' = facts M c @ [f1, f2, f3] \<Longrightarrow> Q a c'"
  shows "runs (act_bind (assert_ignore S f1) (\<lambda>_. act_bind (assert_ignore S f2) (\<lambda>_.
    act_bind (assert_ignore S f3) (\<lambda>_. return a)))) c Q"
proof -
  have run: "\<exists>c'. decls M c' = decls M c1 \<and> facts M c' = facts M c1 @ [f] \<and>
      assert_ignore S f c1 = Ok ((), c')" if "\<exists>h. bden M c1 f h" for c1 f
  proof -
    from that obtain h where h: "bden M c1 f h" by blast
    have "runs (assert_ignore S f) c1 (\<lambda>_ c'. decls M c' = decls M c1 \<and> facts M c' = facts M c1 @ [f])"
      by (rule assert_runs(1) [OF h]) simp
    then show ?thesis by (auto simp: runs_def)
  qed
  obtain c1 where 1: "decls M c1 = decls M c" "facts M c1 = facts M c @ [f1]"
      "assert_ignore S f1 c = Ok ((), c1)" using run [OF assms(1), of c] by auto
  obtain c2 where 2: "decls M c2 = decls M c" "facts M c2 = facts M c1 @ [f2]"
      "assert_ignore S f2 c1 = Ok ((), c2)" using run [OF assms(2), of c1] 1 by auto
  obtain c3 where 3: "decls M c3 = decls M c" "facts M c3 = facts M c2 @ [f3]"
      "assert_ignore S f3 c2 = Ok ((), c3)" using run [OF assms(3), of c2] 2 by auto
  have "Q a c3" using 1 2 3 by (intro Q) simp_all
  with 1 2 3 show ?thesis by (simp add: runs_def act_bind_def return_def)
qed

lemma three_declares:
  assumes gen: "list_all generated [nr, ny, nx]" and fresh: "set [nr, ny, nx] \<inter> declared M c = {}"
    and dist: "distinct [nr, ny, nx]"
    and k: "\<And>c'. decls M c' = decls M c @ map (\<lambda>nm. (nm, t)) [nr, ny, nx] \<Longrightarrow> facts M c' = facts M c \<Longrightarrow>
      runs (k (smt_atom S nr) (smt_atom S ny) (smt_atom S nx)) c' Q"
  shows "runs (act_bind (declare_const S nr t) (\<lambda>r. act_bind (declare_const S ny t) (\<lambda>y.
    act_bind (declare_const S nx t) (\<lambda>x. k r y x)))) c Q"
proof (intro runs_bind declare_runs)
  show "nr \<notin> declared M c" "generated nr" "generated ny" "generated nx" using gen fresh by auto
  fix c1 assume 1: "decls M c1 = decls M c @ [(nr, t)]" "facts M c1 = facts M c"
  show "ny \<notin> declared M c1" using declared_snoc [OF 1(1)] fresh dist by auto
  fix c2 assume 2: "decls M c2 = decls M c1 @ [(ny, t)]" "facts M c2 = facts M c1"
  show "nx \<notin> declared M c2" using declared_snoc [OF 1(1)] declared_snoc [OF 2(1)] fresh dist by auto
  fix c3 assume "decls M c3 = decls M c2 @ [(nx, t)]" "facts M c3 = facts M c2"
  with 1 2 show "runs (k (smt_atom S nr) (smt_atom S ny) (smt_atom S nx)) c3 Q" by (intro k) simp_all
qed

lemma count_round_runs:
  assumes st: "stage M c0 i P c" "list_all prefix_ok [pr, py, px]" "distinct [pr, py, px]"
      "set [pr, py, px] \<inter> P = {}" "0 < w"
    and den: "den M c w x X" "den M c w r R" "den M c w (shift x (smt_atom S amount)) Z"
    and lits: "den M c w (bv_lit S lit w) (\<lambda>_. L)" "den M c w (bv_lit S inc w) (\<lambda>_. k)"
  shows "runs (count_round S shift w lit pr py px amount inc x r i) c
    (\<lambda>(r', x') c'. stage M c0 i ({pr, py, px} \<union> P) c' \<and> extends M c c' \<and>
       valued M c' w r' (\<lambda>v. if Z v \<noteq> L then R v else (R v + k) mod 2 ^ w) \<and>
       valued M c' w x' (\<lambda>v. if Z v \<noteq> L then Z v else X v))"
proof -
  define nr ny nx where n: "nr = pr @ dec i" "ny = py @ dec i" "nx = px @ dec i"
  have gen: "list_all generated [nr, ny, nx]" using st(2) by (simp add: n prefix_ok_generated)
  have fresh: "set [nr, ny, nx] \<inter> declared M c = {}"
    using st(2,4) stage_fresh [OF st(1)] by (simp add: n)
  have dist: "distinct [nr, ny, nx]" using st(3) by (simp add: n)
  have closed: "closed_ctx M c" using st(1) by (simp add: stage_def)
  note addR = den_binary(7) [OF den(2) lits(2)]
  have at: "den M c' w (smt_atom S nr) (\<lambda>v. bv_val (v nr))"
      "den M c' w (smt_atom S ny) (\<lambda>v. bv_val (v ny))" "den M c' w (smt_atom S nx) (\<lambda>v. bv_val (v nx))"
      "set (decls M c) \<subseteq> set (decls M c')"
    if "decls M c' = decls M c @ map (\<lambda>nm. (nm, bv_sort S w)) [nr, ny, nx]" for c'
    by ((rule den_constant)?; use that gen st(5) in auto)+
  note formulas = count_round_formulas [OF at(1-3) den(1,2,3) [THEN den_decls, OF at(4)]
      lits [THEN den_decls, OF at(4)]]
  show ?thesis
    unfolding count_round_def declare_bv_def n [symmetric]
  proof (rule three_declares [OF gen fresh dist], rule three_asserts, goal_cases)
    case (4 c1 c2)
    note c2 = 4(3) [unfolded 4(1)] 4(4) [unfolded 4(2)]
    have "extends M c c2 \<and> closed_ctx M c2 \<and> declared M c2 = declared M c \<union> {nr, ny, nx} \<and>
      valued M c2 w (smt_atom S nr) (\<lambda>v. if Z v \<noteq> L then R v else (R v + k) mod 2 ^ w) \<and>
      valued M c2 w (smt_atom S nx) (\<lambda>v. if Z v \<noteq> L then Z v else X v)"
      by (rule three_definitions [OF closed st(5) fresh dist gen c2 formulas(1) formulas(2) formulas(3)])
        (use c2 den addR in \<open>auto simp: den_def\<close>)
    then show ?case using stage_extend [OF st(1), of c2 "{pr, py, px}"] by (auto simp: n)
  next
    case (1 c1 c2)
    then show ?case using formulas(1) [of c2] by auto
  next
    case (2 c1 c2)
    then show ?case using formulas(2) [of c2] by auto
  next
    case (3 c1 c2)
    then show ?case using formulas(3) [of c2] by auto
  qed
qed

end

section \<open>A sequence of rounds\<close>

type_synonym round = "string \<times> string \<times> string \<times> string \<times> string"

primrec count_rounds ::
  "('s, 'c) smt \<Rightarrow> ('s \<Rightarrow> 's \<Rightarrow> 's) \<Rightarrow> nat \<Rightarrow> string \<Rightarrow> nat \<Rightarrow> round list \<Rightarrow> 's \<Rightarrow> 's \<Rightarrow> ('c, 's \<times> 's) action" where
  "count_rounds S shift w lit i [] x r = return (r, x)"
| "count_rounds S shift w lit i (rd # rds) x r =
     (case rd of (pr, py, px, amount, inc) \<Rightarrow>
        act_bind (count_round S shift w lit pr py px amount inc x r i) (\<lambda>(r, x).
        count_rounds S shift w lit i rds x r))"

text \<open>The literals of a sequence halve the number of bits still to be counted, down to one.\<close>

definition literal_is :: "nat \<Rightarrow> nat \<Rightarrow> string \<Rightarrow> bool" where
  "literal_is w k s \<longleftrightarrow> take 2 s = ''bv'' \<and> drop 2 s \<noteq> [] \<and> list_all is_dec (drop 2 s) \<and>
     number 10 (drop 2 s) = k \<and> k < 2 ^ w"

definition hex_is :: "nat \<Rightarrow> nat \<Rightarrow> string \<Rightarrow> bool" where
  "hex_is w k s \<longleftrightarrow> take 2 s = ''#x'' \<and> drop 2 s \<noteq> [] \<and> list_all is_hex (drop 2 s) \<and>
     4 * length (drop 2 s) = w \<and> number 16 (drop 2 s) = k"

fun round_names :: "round list \<Rightarrow> string list" where
  "round_names [] = []"
| "round_names ((pr, py, px, _, _) # rds) = pr # py # px # round_names rds"

fun rounds_ok :: "nat \<Rightarrow> nat \<Rightarrow> round list \<Rightarrow> bool" where
  "rounds_ok w k [] \<longleftrightarrow> k = 1"
| "rounds_ok w k ((pr, py, px, amount, inc) # rds) \<longleftrightarrow>
     even k \<and> hex_is w (k div 2) amount \<and> literal_is w (k div 2) inc \<and> rounds_ok w (k div 2) rds"

lemmas round_checks = prefix_ok_def hex_is_def literal_is_def is_hex_def is_dec_def number_def
  digit_value_def

lemma take2: "take 2 s = [a, b] \<Longrightarrow> s = a # b # drop 2 s"
  by (metis append_Cons append_Nil append_take_drop_id)

text \<open>
  The counter and the operand between two rounds: the leading zeros of \<open>N\<close> are those
  counted and those of the \<open>k\<close> bits that are left.
\<close>

definition counting :: "('s, 'c) smt_sem \<Rightarrow> 'c \<Rightarrow> nat \<Rightarrow> nat \<Rightarrow> (valuation \<Rightarrow> nat) \<Rightarrow> 's \<Rightarrow> 's \<Rightarrow> bool" where
  "counting M c w k N r x \<longleftrightarrow>
     (\<exists>R X. den M c w r R \<and> den M c w x X \<and>
        (\<forall>v. sat M c v \<longrightarrow> X v < 2 ^ k \<and> clz w (N v) = R v + clz k (X v)))"

text \<open>For leading ones the same holds of the complements, as long as the operand is negative.\<close>

definition counting_ones :: "('s, 'c) smt_sem \<Rightarrow> 'c \<Rightarrow> nat \<Rightarrow> nat \<Rightarrow> (valuation \<Rightarrow> nat) \<Rightarrow> 's \<Rightarrow> 's \<Rightarrow> bool" where
  "counting_ones M c w k N r x \<longleftrightarrow>
     (\<exists>R X. den M c w r R \<and> den M c w x X \<and>
        (\<forall>v. sat M c v \<longrightarrow> 2 ^ (w - 1) \<le> N v \<longrightarrow>
           2 ^ (w - 1) \<le> X v \<and> bv_not w (X v) < 2 ^ k \<and>
           clz w (bv_not w (N v)) = R v + clz k (bv_not w (X v))))"

lemma runs_seq:
  "runs m c P \<Longrightarrow> (\<And>a c'. P a c' \<Longrightarrow> runs (f a) c' Q) \<Longrightarrow> runs (act_bind m f) c Q"
  by (rule runs_bind, erule runs_weaken)

lemma ashr_ones_iff:
  assumes "n < 2 ^ w" "2 ^ (w - 1) \<le> n"
  shows "bv_ashr w n k = 2 ^ w - 1 \<longleftrightarrow> bv_not w n div 2 ^ k = 0"
proof -
  have "bv_ashr w n k = bv_not w (bv_not w n div 2 ^ k)" using assms by (simp add: bv_ashr_def)
  moreover have "2 ^ w - 1 = bv_not w 0" by (simp add: bv_not_def)
  moreover have "bv_not w n div 2 ^ k < 2 ^ w" by (rule div_less_pow) simp
  ultimately show ?thesis by (simp add: bv_not_eq_iff)
qed

lemma bv_not_negative: "0 < w \<Longrightarrow> n < 2 ^ w \<Longrightarrow> 2 ^ (w - 1) \<le> bv_not w n \<longleftrightarrow> n < 2 ^ (w - 1)"
  by (cases w) (auto simp: bv_not_def)

lemma ashr_stays_negative:
  assumes "n < 2 ^ w" "2 ^ (w - 1) \<le> n"
  shows "2 ^ (w - 1) \<le> bv_ashr w n k"
proof (cases "w = 0")
  case False
  have "bv_not w n < 2 ^ (w - 1)" using assms bv_not_negative [of w "bv_not w n"] False by simp
  then have "bv_not w n div 2 ^ k < 2 ^ (w - 1)" by (rule div_less_pow)
  moreover have "bv_not w n div 2 ^ k < 2 ^ w" by (rule div_less_pow) simp
  ultimately show ?thesis using assms False bv_not_negative by (simp add: bv_ashr_def)
qed (use assms in simp)

context smt_theory
begin

lemma den_literal: "literal_is w k s \<Longrightarrow> 0 < w \<Longrightarrow> den M c w (bv_lit S s w) (\<lambda>_. k)"
  unfolding literal_is_def using den_lit [of "drop 2 s" k w c] take2 [of s] by auto

lemma den_hex_is: "hex_is w k s \<Longrightarrow> den M c w (smt_atom S s) (\<lambda>_. k)"
  unfolding hex_is_def using den_hex [of "drop 2 s" w k c] take2 [of s] by auto

lemma zeros_round_runs:
  assumes st: "stage M c0 i P c" "list_all prefix_ok [pr, py, px]" "distinct [pr, py, px]"
      "set [pr, py, px] \<inter> P = {}" "0 < w"
    and cnt: "counting M c w (2 * s) N r x"
    and lits: "hex_is w s amount" "literal_is w s inc"
  shows "runs (count_round S (smt_bvlshr S) w ''bv0'' pr py px amount inc x r i) c
    (\<lambda>(r', x') c'. stage M c0 i ({pr, py, px} \<union> P) c' \<and> extends M c c' \<and> counting M c' w s N r' x')"
proof -
  obtain R X where R: "den M c w r R" "den M c w x X"
      "\<And>v. sat M c v \<Longrightarrow> X v < 2 ^ (2 * s) \<and> clz w (N v) = R v + clz (2 * s) (X v)"
    using cnt by (auto simp: counting_def)
  note run = count_round_runs [where shift = "smt_bvlshr S", OF st R(2,1) den_binary(4) [OF R(2) den_hex_is [OF lits(1)]]
      den_0 [OF st(5)] den_literal [OF lits(2) st(5)]]
  show ?thesis
  proof (rule runs_weaken [OF run], clarify)
    fix r' x' c'
    assume c': "extends M c c'" "valued M c' w r' (\<lambda>v. if X v div 2 ^ s \<noteq> 0 then R v else (R v + s) mod 2 ^ w)"
      "valued M c' w x' (\<lambda>v. if X v div 2 ^ s \<noteq> 0 then X v div 2 ^ s else X v)"
    then obtain R' X' where R': "den M c' w r' R'" "den M c' w x' X'"
      "\<And>v. sat M c' v \<Longrightarrow> R' v = (if X v div 2 ^ s \<noteq> 0 then R v else (R v + s) mod 2 ^ w) \<and>
         X' v = (if X v div 2 ^ s \<noteq> 0 then X v div 2 ^ s else X v)"
      by (auto simp: valued_def)
    have "X' v < 2 ^ s \<and> clz w (N v) = R' v + clz s (X' v)" if v: "sat M c' v" for v
    proof -
      have old: "X v < 2 ^ (2 * s)" "clz w (N v) = R v + clz (2 * s) (X v)"
        using R(3) [OF extends_sat [OF c'(1) v]] by auto
      have "R v + s < 2 ^ w" if "X v div 2 ^ s = 0"
        using old clz_round(2) [OF old(1)] clz_le [of w "N v"] that
        by (auto intro: le_less_trans [OF _ less_exp])
      with R'(3) [OF v] old clz_round [OF old(1)] show ?thesis by (auto split: if_splits)
    qed
    with R'(1,2) show "counting M c' w s N r' x'" unfolding counting_def by blast
  qed
qed

lemma ones_round_runs:
  assumes st: "stage M c0 i P c" "list_all prefix_ok [pr, py, px]" "distinct [pr, py, px]"
      "set [pr, py, px] \<inter> P = {}" "0 < w"
    and cnt: "counting_ones M c w (2 * s) N r x"
    and lits: "hex_is w s amount" "literal_is w s inc" "literal_is w (2 ^ w - 1) lit"
  shows "runs (count_round S (smt_bvashr S) w lit pr py px amount inc x r i) c
    (\<lambda>(r', x') c'. stage M c0 i ({pr, py, px} \<union> P) c' \<and> extends M c c' \<and> counting_ones M c' w s N r' x')"
proof -
  obtain R X where R: "den M c w r R" "den M c w x X"
      "\<And>v. sat M c v \<Longrightarrow> 2 ^ (w - 1) \<le> N v \<Longrightarrow> 2 ^ (w - 1) \<le> X v \<and> bv_not w (X v) < 2 ^ (2 * s) \<and>
         clz w (bv_not w (N v)) = R v + clz (2 * s) (bv_not w (X v))"
    using cnt by (auto simp: counting_ones_def)
  let ?Z = "\<lambda>v. bv_ashr w (X v) s"
  note run = count_round_runs [where shift = "smt_bvashr S",
      OF st R(2,1) den_binary(5) [OF R(2) den_hex_is [OF lits(1)]]
        den_literal [OF lits(3) st(5)] den_literal [OF lits(2) st(5)]]
  show ?thesis
  proof (rule runs_weaken [OF run], clarify)
    fix r' x' c'
    assume c': "extends M c c'" "valued M c' w r' (\<lambda>v. if ?Z v \<noteq> 2 ^ w - 1 then R v else (R v + s) mod 2 ^ w)"
      "valued M c' w x' (\<lambda>v. if ?Z v \<noteq> 2 ^ w - 1 then ?Z v else X v)"
    then obtain R' X' where R': "den M c' w r' R'" "den M c' w x' X'"
      "\<And>v. sat M c' v \<Longrightarrow> R' v = (if ?Z v \<noteq> 2 ^ w - 1 then R v else (R v + s) mod 2 ^ w) \<and>
         X' v = (if ?Z v \<noteq> 2 ^ w - 1 then ?Z v else X v)"
      by (auto simp: valued_def)
    have "2 ^ (w - 1) \<le> X' v \<and> bv_not w (X' v) < 2 ^ s \<and>
        clz w (bv_not w (N v)) = R' v + clz s (bv_not w (X' v))"
      if v: "sat M c' v" and neg: "2 ^ (w - 1) \<le> N v" for v
    proof -
      have v': "sat M c v" using extends_sat [OF c'(1) v] .
      note old = R(3) [OF v' neg]
      have X: "X v < 2 ^ w" using den_sat [OF R(2) v'] by simp
      note not_Z = bv_ashr_negative [OF X, of s]
      have ones: "?Z v = 2 ^ w - 1 \<longleftrightarrow> bv_not w (X v) div 2 ^ s = 0"
        using ashr_ones_iff [OF X] old by simp
      have "R v + s < 2 ^ w" if "bv_not w (X v) div 2 ^ s = 0"
        using old clz_round(2) [of "bv_not w (X v)" s] clz_le [of w "bv_not w (N v)"] that
        by (auto intro: le_less_trans [OF _ less_exp])
      then show ?thesis
        using R'(3) [OF v] ones old clz_round [of "bv_not w (X v)" s] not_Z
          ashr_stays_negative [OF X, of s] by (auto split: if_splits)
    qed
    with R'(1,2) show "counting_ones M c' w s N r' x'" unfolding counting_ones_def by blast
  qed
qed

text \<open>Both counts are a loop with an invariant on the context, the counter and the operand.\<close>

lemma rounds_runs:
  assumes step: "\<And>P c s r x pr py px amount inc. stage M c0 i P c \<Longrightarrow> list_all prefix_ok [pr, py, px] \<Longrightarrow>
      distinct [pr, py, px] \<Longrightarrow> set [pr, py, px] \<inter> P = {} \<Longrightarrow> I c (2 * s) r x \<Longrightarrow>
      hex_is w s amount \<Longrightarrow> literal_is w s inc \<Longrightarrow>
      runs (count_round S shift w lit pr py px amount inc x r i) c
        (\<lambda>(r', x') c'. stage M c0 i ({pr, py, px} \<union> P) c' \<and> extends M c c' \<and> I c' s r' x')"
    and "stage M c0 i P c" "list_all prefix_ok (round_names rds)" "distinct (round_names rds)"
      "set (round_names rds) \<inter> P = {}" "I c k r x" "rounds_ok w k rds"
  shows "runs (count_rounds S shift w lit i rds x r) c
    (\<lambda>(r', x') c'. stage M c0 i (set (round_names rds) \<union> P) c' \<and> extends M c c' \<and> I c' 1 r' x')"
  using assms(2-)
proof (induction rds arbitrary: P c k r x rule: round_names.induct)
  case (2 pr py px amount inc rds)
  let ?s = "k div 2"
  have k: "I c (2 * ?s) r x" using "2.prems"(5,6) by simp
  show ?case
    unfolding count_rounds.simps prod.case
  proof (rule runs_seq [OF step [OF "2.prems"(1) _ _ _ k]], goal_cases)
    case (6 a c1)
    then obtain r1 x1 where a: "a = (r1, x1)" "stage M c0 i ({pr, py, px} \<union> P) c1" "extends M c c1"
        "I c1 ?s r1 x1" by auto
    from "2.IH" [OF a(2) _ _ _ a(4)] "2.prems" a(3)
    have "runs (count_rounds S shift w lit i rds x1 r1) c1
      (\<lambda>(r', x') c'. stage M c0 i (set (round_names rds) \<union> ({pr, py, px} \<union> P)) c' \<and> extends M c1 c' \<and>
         I c' 1 r' x')" by auto
    then show ?case
      unfolding a(1) prod.case
      by (rule runs_weaken) (use a(3) in \<open>auto intro: extends_trans simp: Un_ac insert_commute\<close>)
  qed (use "2.prems" in auto)
qed (auto intro!: runs_return)

text \<open>The last round adds the one bit that is left.\<close>

lemma zeros_last_runs:
  assumes st: "stage M c0 i P c" "prefix_ok p" "p \<notin> P" "0 < w" and cnt: "counting M c w 1 N r x"
  shows "runs (count_last S w ''bv0'' p ''bv1'' x r i) c
    (\<lambda>r c'. stage M c0 i ({p} \<union> P) c' \<and> extends M c c' \<and> valued M c' w r (\<lambda>v. clz w (N v)))"
proof -
  obtain R X where R: "den M c w r R" "den M c w x X"
      "\<And>v. sat M c v \<Longrightarrow> X v < 2 \<and> clz w (N v) = R v + clz 1 (X v)"
    using cnt by (auto simp: counting_def)
  have "valued M c' w r' (\<lambda>v. clz w (N v))"
    if c': "extends M c c'" "valued M c' w r' (\<lambda>v. if X v \<noteq> 0 then R v else (R v + 1) mod 2 ^ w)" for r' c'
  proof (rule valued_cong [OF c'(2)])
    fix v assume "sat M c' v"
    then have "X v < 2" "clz w (N v) = R v + clz 1 (X v)" using R(3) extends_sat [OF c'(1)] by auto
    moreover have "clz w (N v) < 2 ^ w" using le_less_trans [OF clz_le less_exp] .
    ultimately show "(if X v \<noteq> 0 then R v else (R v + 1) mod 2 ^ w) = clz w (N v)"
      using clz_1 [of "X v"] by auto
  qed
  then show ?thesis
    by (intro runs_weaken [OF count_last_runs [OF st R(2,1) den_0 [OF st(4)] den_1 [OF st(4)]]]) auto
qed

lemma ones_last_runs:
  assumes st: "stage M c0 i P c" "prefix_ok p" "p \<notin> P" "0 < w" "literal_is w (2 ^ w - 1) lit"
    and cnt: "counting_ones M c w 1 N r x"
  shows "runs (count_last S w lit p ''bv1'' x r i) c
    (\<lambda>r c'. stage M c0 i ({p} \<union> P) c' \<and> extends M c c' \<and>
       (\<exists>G. valued M c' w r G \<and> (\<forall>v. sat M c' v \<longrightarrow> 2 ^ (w - 1) \<le> N v \<longrightarrow> G v = clz w (bv_not w (N v)))))"
proof -
  obtain R X where R: "den M c w r R" "den M c w x X"
      "\<And>v. sat M c v \<Longrightarrow> 2 ^ (w - 1) \<le> N v \<Longrightarrow>
         bv_not w (X v) < 2 \<and> clz w (bv_not w (N v)) = R v + clz 1 (bv_not w (X v))"
    using cnt by (auto simp: counting_ones_def)
  let ?G = "\<lambda>v. if X v \<noteq> 2 ^ w - 1 then R v else (R v + 1) mod 2 ^ w"
  have "?G v = clz w (bv_not w (N v))"
    if c': "extends M c c'" and v: "sat M c' v" "2 ^ (w - 1) \<le> N v" for c' v
  proof -
    have v': "sat M c v" using extends_sat [OF c' v(1)] .
    have "X v < 2 ^ w" using den_sat [OF R(2) v'] by simp
    then have "X v = 2 ^ w - 1 \<longleftrightarrow> bv_not w (X v) = 0" by (auto simp: bv_not_def)
    moreover have "clz w (bv_not w (N v)) < 2 ^ w" using le_less_trans [OF clz_le less_exp] .
    ultimately show ?thesis using R(3) [OF v' v(2)] clz_1 [of "bv_not w (X v)"] by auto
  qed
  then show ?thesis
    by (intro runs_weaken [OF count_last_runs [OF st(1-4) R(2,1) den_literal [OF st(5,4)] den_1 [OF st(4)]]])
      (auto intro!: exI [of _ ?G])
qed

lemma stage_perm: "stage M c0 i P c \<Longrightarrow> P = P' \<Longrightarrow> stage M c0 i P' c"
  by simp

lemma count_runs:
  assumes init: "\<And>c r R. den M c w r R \<Longrightarrow> \<forall>v. sat M c v \<longrightarrow> R v = 0 \<Longrightarrow> den M c w x N \<Longrightarrow> I c w r x"
    and step: "\<And>P c s r x pr py px amount inc. stage M c0 i P c \<Longrightarrow> list_all prefix_ok [pr, py, px] \<Longrightarrow>
      distinct [pr, py, px] \<Longrightarrow> set [pr, py, px] \<inter> P = {} \<Longrightarrow> I c (2 * s) r x \<Longrightarrow>
      hex_is w s amount \<Longrightarrow> literal_is w s inc \<Longrightarrow>
      runs (count_round S shift w lit pr py px amount inc x r i) c
        (\<lambda>(r', x') c'. stage M c0 i ({pr, py, px} \<union> P) c' \<and> extends M c c' \<and> I c' s r' x')"
    and last: "\<And>P c r x. stage M c0 i P c \<Longrightarrow> pl \<notin> P \<Longrightarrow> I c 1 r x \<Longrightarrow>
      runs (count_last S w lit pl ''bv1'' x r i) c
        (\<lambda>r c'. stage M c0 i ({pl} \<union> P) c' \<and> extends M c c' \<and> J c' r)"
    and st: "stage M c0 i P c" "list_all prefix_ok (p0 # pl # round_names rds)"
      "distinct (p0 # pl # round_names rds)" "set (p0 # pl # round_names rds) \<inter> P = {}" "0 < w"
    and x: "den M c w x N" and rds: "rounds_ok w w rds"
  shows "runs (act_bind (count_init S w p0 i) (\<lambda>r.
      act_bind (count_rounds S shift w lit i rds x r) (\<lambda>(r, x).
      count_last S w lit pl ''bv1'' x r i))) c
    (\<lambda>r c'. stage M c0 i (set (p0 # pl # round_names rds) \<union> P) c' \<and> extends M c c' \<and> J c' r)"
proof (rule runs_seq [OF count_init_runs [OF st(1) _ _ st(5)]], goal_cases)
  case (3 r c1)
  then obtain R where c1: "stage M c0 i ({p0} \<union> P) c1" "extends M c c1" "den M c1 w r R"
      "\<forall>v. sat M c1 v \<longrightarrow> R v = 0" by (auto simp: valued_def)
  have "I c1 w r x" using init [OF c1(3,4) den_mono [OF x c1(2)]] .
  then have "runs (count_rounds S shift w lit i rds x r) c1
      (\<lambda>(r', x') c'. stage M c0 i (set (round_names rds) \<union> ({p0} \<union> P)) c' \<and> extends M c1 c' \<and> I c' 1 r' x')"
    using st(2-4) rds by (intro rounds_runs [OF step c1(1)]) auto
  then show ?case
  proof (rule runs_seq, clarify)
    fix r2 x2 c2
    assume c2: "stage M c0 i (set (round_names rds) \<union> ({p0} \<union> P)) c2" "extends M c1 c2" "I c2 1 r2 x2"
    have "pl \<notin> set (round_names rds) \<union> ({p0} \<union> P)" using st(3,4) by auto
    from last [OF c2(1) this c2(3)]
    show "runs (count_last S w lit pl ''bv1'' x2 r2 i) c2
      (\<lambda>r c'. stage M c0 i (set (p0 # pl # round_names rds) \<union> P) c' \<and> extends M c c' \<and> J c' r)"
      by (rule runs_weaken)
        (use extends_trans [OF c1(2) extends_trans [OF c2(2)]] in \<open>auto elim!: stage_perm\<close>)
  qed
qed (use st in auto)

lemma zeros_runs:
  assumes "stage M c0 i P c" "list_all prefix_ok (p0 # pl # round_names rds)"
    "distinct (p0 # pl # round_names rds)" "set (p0 # pl # round_names rds) \<inter> P = {}" "0 < w"
    "den M c w x N" "rounds_ok w w rds"
  shows "runs (act_bind (count_init S w p0 i) (\<lambda>r.
      act_bind (count_rounds S (smt_bvlshr S) w ''bv0'' i rds x r) (\<lambda>(r, x).
      count_last S w ''bv0'' pl ''bv1'' x r i))) c
    (\<lambda>r c'. stage M c0 i (set (p0 # pl # round_names rds) \<union> P) c' \<and> extends M c c' \<and>
       valued M c' w r (\<lambda>v. clz w (N v)))"
proof (rule count_runs [where I = "\<lambda>c k. counting M c w k N" and N = N, OF _ _ _ assms])
  show "counting M c w w N r x" if "den M c w r R" "\<forall>v. sat M c v \<longrightarrow> R v = 0" "den M c w x N" for c r R
    using that den_sat [OF that(3)] unfolding counting_def by fastforce
qed (rule zeros_round_runs zeros_last_runs; (assumption | use assms(2,5) in simp))+

lemma ones_runs:
  assumes "stage M c0 i P c" "list_all prefix_ok (p0 # pl # round_names rds)"
    "distinct (p0 # pl # round_names rds)" "set (p0 # pl # round_names rds) \<inter> P = {}" "0 < w"
    "den M c w x N" "rounds_ok w w rds" and lit: "literal_is w (2 ^ w - 1) lit"
  shows "runs (act_bind (count_init S w p0 i) (\<lambda>r.
      act_bind (count_rounds S (smt_bvashr S) w lit i rds x r) (\<lambda>(r, x).
      count_last S w lit pl ''bv1'' x r i))) c
    (\<lambda>r c'. stage M c0 i (set (p0 # pl # round_names rds) \<union> P) c' \<and> extends M c c' \<and>
       (\<exists>G. valued M c' w r G \<and> (\<forall>v. sat M c' v \<longrightarrow> 2 ^ (w - 1) \<le> N v \<longrightarrow> G v = clz w (bv_not w (N v)))))"
proof (rule count_runs [where I = "\<lambda>c k. counting_ones M c w k N" and N = N, OF _ _ _ assms(1-7)])
  show "counting_ones M c w w N r x" if "den M c w r R" "\<forall>v. sat M c v \<longrightarrow> R v = 0" "den M c w x N" for c r R
    using that unfolding counting_ones_def by fastforce
qed (rule ones_round_runs ones_last_runs; (assumption | rule lit | use assms(2,5) in simp))+

end

context smt_theory
begin

lemma den_extract_full:
  assumes "den M c w x N" "0 \<le> sint h" "w = nat (sint h) + 1"
  shows "den M c w (smt_extract S h 0 x) N"
proof -
  have "den M c w (smt_extract S h 0 x) (\<lambda>v. N v div 2 ^ nat (sint (0 :: i32)) mod 2 ^ w)"
    using assms by (intro den_extract) auto
  with assms show ?thesis by (auto simp: den_def)
qed

end

section \<open>Sequencing laws\<close>

lemma act_bind_assoc: "act_bind (act_bind m f) g = act_bind m (\<lambda>a. act_bind (f a) g)"
proof
  fix c
  show "act_bind (act_bind m f) g c = act_bind m (\<lambda>a. act_bind (f a) g) c"
    by (cases "m c") (auto simp: act_bind_def)
qed

lemma act_bind_return [simp]: "act_bind (return a) f = f a" "act_bind m return = m"
proof -
  show "act_bind (return a) f = f a" by (rule ext) (simp add: act_bind_def return_def)
  show "act_bind m return = m"
  proof
    fix c
    show "act_bind m return c = m c" by (cases "m c") (auto simp: act_bind_def return_def)
  qed
qed

lemmas action_simps = act_bind_assoc split_def

end
