(* ===== verification/Encoded_Clz.thy ===== *)
theory Encoded_Clz
  imports Encoded_Count
begin

text \<open>
  Leading zeros, \<^verbatim>\<open>veri/src/encoded/clz.rs\<close>: a binary search written out for each width. Every round
  of the source is one definition, an instance of the shared pattern with its literals. The
  encoding of \<^verbatim>\<open>Expr::Clz\<close> in \<^verbatim>\<open>veri/src/solver.rs\<close> picks the routine by width.
\<close>

section \<open>The routines\<close>

definition clz64_round1 :: "('s, 'c) smt \<Rightarrow> 's \<Rightarrow> 's \<Rightarrow> nat \<Rightarrow> ('c, 's \<times> 's) action" where
  "clz64_round1 S x ret i =
     count_round S (smt_bvlshr S) 64 ''bv0'' ''ret1_'' ''y32_'' ''x32_'' ''#x0000000000000020'' ''bv32'' x ret i"

definition clz64_round2 :: "('s, 'c) smt \<Rightarrow> 's \<Rightarrow> 's \<Rightarrow> nat \<Rightarrow> ('c, 's \<times> 's) action" where
  "clz64_round2 S x ret i =
     count_round S (smt_bvlshr S) 64 ''bv0'' ''ret2_'' ''y16_'' ''x16_'' ''#x0000000000000010'' ''bv16'' x ret i"

definition clz64_round3 :: "('s, 'c) smt \<Rightarrow> 's \<Rightarrow> 's \<Rightarrow> nat \<Rightarrow> ('c, 's \<times> 's) action" where
  "clz64_round3 S x ret i =
     count_round S (smt_bvlshr S) 64 ''bv0'' ''ret3_'' ''y8_'' ''x8_'' ''#x0000000000000008'' ''bv8'' x ret i"

definition clz64_round4 :: "('s, 'c) smt \<Rightarrow> 's \<Rightarrow> 's \<Rightarrow> nat \<Rightarrow> ('c, 's \<times> 's) action" where
  "clz64_round4 S x ret i =
     count_round S (smt_bvlshr S) 64 ''bv0'' ''ret4_'' ''y4_'' ''x4_'' ''#x0000000000000004'' ''bv4'' x ret i"

definition clz64_round5 :: "('s, 'c) smt \<Rightarrow> 's \<Rightarrow> 's \<Rightarrow> nat \<Rightarrow> ('c, 's \<times> 's) action" where
  "clz64_round5 S x ret i =
     count_round S (smt_bvlshr S) 64 ''bv0'' ''ret5_'' ''y2_'' ''x2_'' ''#x0000000000000002'' ''bv2'' x ret i"

definition clz64_round6 :: "('s, 'c) smt \<Rightarrow> 's \<Rightarrow> 's \<Rightarrow> nat \<Rightarrow> ('c, 's \<times> 's) action" where
  "clz64_round6 S x ret i =
     count_round S (smt_bvlshr S) 64 ''bv0'' ''ret6_'' ''y1_'' ''x1_'' ''#x0000000000000001'' ''bv1'' x ret i"

definition clz64 :: "('s, 'c) smt \<Rightarrow> 's \<Rightarrow> nat \<Rightarrow> ('c, 's) action" where
  "clz64 S x i =
     act_bind (count_init S 64 ''ret0_'' i) (\<lambda>ret0.
     act_bind (clz64_round1 S x ret0 i) (\<lambda>(ret1, x32).
     act_bind (clz64_round2 S x32 ret1 i) (\<lambda>(ret2, x16).
     act_bind (clz64_round3 S x16 ret2 i) (\<lambda>(ret3, x8).
     act_bind (clz64_round4 S x8 ret3 i) (\<lambda>(ret4, x4).
     act_bind (clz64_round5 S x4 ret4 i) (\<lambda>(ret5, x2).
     act_bind (clz64_round6 S x2 ret5 i) (\<lambda>(ret6, x1).
     act_bind (count_last S 64 ''bv0'' ''ret7_'' ''bv1'' x1 ret6 i) (\<lambda>ret7.
     return ret7))))))))"

definition clz32_round1 :: "('s, 'c) smt \<Rightarrow> 's \<Rightarrow> 's \<Rightarrow> nat \<Rightarrow> ('c, 's \<times> 's) action" where
  "clz32_round1 S x ret i =
     count_round S (smt_bvlshr S) 32 ''bv0'' ''ret1_'' ''y16_'' ''x16_'' ''#x00000010'' ''bv16'' x ret i"

definition clz32_round2 :: "('s, 'c) smt \<Rightarrow> 's \<Rightarrow> 's \<Rightarrow> nat \<Rightarrow> ('c, 's \<times> 's) action" where
  "clz32_round2 S x ret i =
     count_round S (smt_bvlshr S) 32 ''bv0'' ''ret2_'' ''y8_'' ''x8_'' ''#x00000008'' ''bv8'' x ret i"

definition clz32_round3 :: "('s, 'c) smt \<Rightarrow> 's \<Rightarrow> 's \<Rightarrow> nat \<Rightarrow> ('c, 's \<times> 's) action" where
  "clz32_round3 S x ret i =
     count_round S (smt_bvlshr S) 32 ''bv0'' ''ret3_'' ''y4_'' ''x4_'' ''#x00000004'' ''bv4'' x ret i"

definition clz32_round4 :: "('s, 'c) smt \<Rightarrow> 's \<Rightarrow> 's \<Rightarrow> nat \<Rightarrow> ('c, 's \<times> 's) action" where
  "clz32_round4 S x ret i =
     count_round S (smt_bvlshr S) 32 ''bv0'' ''ret4_'' ''y2_'' ''x2_'' ''#x00000002'' ''bv2'' x ret i"

definition clz32_round5 :: "('s, 'c) smt \<Rightarrow> 's \<Rightarrow> 's \<Rightarrow> nat \<Rightarrow> ('c, 's \<times> 's) action" where
  "clz32_round5 S x ret i =
     count_round S (smt_bvlshr S) 32 ''bv0'' ''ret5_'' ''y1_'' ''x1_'' ''#x00000001'' ''bv1'' x ret i"

definition clz32 :: "('s, 'c) smt \<Rightarrow> 's \<Rightarrow> nat \<Rightarrow> ('c, 's) action" where
  "clz32 S x i =
     (let x = smt_extract S 31 0 x in
     act_bind (count_init S 32 ''ret0_'' i) (\<lambda>ret0.
     act_bind (clz32_round1 S x ret0 i) (\<lambda>(ret1, x16).
     act_bind (clz32_round2 S x16 ret1 i) (\<lambda>(ret2, x8).
     act_bind (clz32_round3 S x8 ret2 i) (\<lambda>(ret3, x4).
     act_bind (clz32_round4 S x4 ret3 i) (\<lambda>(ret4, x2).
     act_bind (clz32_round5 S x2 ret4 i) (\<lambda>(ret5, x1).
     act_bind (count_last S 32 ''bv0'' ''ret6_'' ''bv1'' x1 ret5 i) (\<lambda>ret6.
     return ret6))))))))"

definition clz16_round1 :: "('s, 'c) smt \<Rightarrow> 's \<Rightarrow> 's \<Rightarrow> nat \<Rightarrow> ('c, 's \<times> 's) action" where
  "clz16_round1 S x ret i =
     count_round S (smt_bvlshr S) 16 ''bv0'' ''ret2_'' ''y8_'' ''x8_'' ''#x0008'' ''bv8'' x ret i"

definition clz16_round2 :: "('s, 'c) smt \<Rightarrow> 's \<Rightarrow> 's \<Rightarrow> nat \<Rightarrow> ('c, 's \<times> 's) action" where
  "clz16_round2 S x ret i =
     count_round S (smt_bvlshr S) 16 ''bv0'' ''ret3_'' ''y4_'' ''x4_'' ''#x0004'' ''bv4'' x ret i"

definition clz16_round3 :: "('s, 'c) smt \<Rightarrow> 's \<Rightarrow> 's \<Rightarrow> nat \<Rightarrow> ('c, 's \<times> 's) action" where
  "clz16_round3 S x ret i =
     count_round S (smt_bvlshr S) 16 ''bv0'' ''ret4_'' ''y2_'' ''x2_'' ''#x0002'' ''bv2'' x ret i"

definition clz16_round4 :: "('s, 'c) smt \<Rightarrow> 's \<Rightarrow> 's \<Rightarrow> nat \<Rightarrow> ('c, 's \<times> 's) action" where
  "clz16_round4 S x ret i =
     count_round S (smt_bvlshr S) 16 ''bv0'' ''ret5_'' ''y1_'' ''x1_'' ''#x0001'' ''bv1'' x ret i"

definition clz16 :: "('s, 'c) smt \<Rightarrow> 's \<Rightarrow> nat \<Rightarrow> ('c, 's) action" where
  "clz16 S x i =
     (let x = smt_extract S 15 0 x in
     act_bind (count_init S 16 ''ret1_'' i) (\<lambda>ret1.
     act_bind (clz16_round1 S x ret1 i) (\<lambda>(ret2, x8).
     act_bind (clz16_round2 S x8 ret2 i) (\<lambda>(ret3, x4).
     act_bind (clz16_round3 S x4 ret3 i) (\<lambda>(ret4, x2).
     act_bind (clz16_round4 S x2 ret4 i) (\<lambda>(ret5, x1).
     act_bind (count_last S 16 ''bv0'' ''ret6_'' ''bv1'' x1 ret5 i) (\<lambda>ret6.
     return ret6)))))))"

definition clz8_round1 :: "('s, 'c) smt \<Rightarrow> 's \<Rightarrow> 's \<Rightarrow> nat \<Rightarrow> ('c, 's \<times> 's) action" where
  "clz8_round1 S x ret i =
     count_round S (smt_bvlshr S) 8 ''bv0'' ''ret3_'' ''y4_'' ''x4_'' ''#x04'' ''bv4'' x ret i"

definition clz8_round2 :: "('s, 'c) smt \<Rightarrow> 's \<Rightarrow> 's \<Rightarrow> nat \<Rightarrow> ('c, 's \<times> 's) action" where
  "clz8_round2 S x ret i =
     count_round S (smt_bvlshr S) 8 ''bv0'' ''ret4_'' ''y2_'' ''x2_'' ''#x02'' ''bv2'' x ret i"

definition clz8_round3 :: "('s, 'c) smt \<Rightarrow> 's \<Rightarrow> 's \<Rightarrow> nat \<Rightarrow> ('c, 's \<times> 's) action" where
  "clz8_round3 S x ret i =
     count_round S (smt_bvlshr S) 8 ''bv0'' ''ret5_'' ''y1_'' ''x1_'' ''#x01'' ''bv1'' x ret i"

definition clz8 :: "('s, 'c) smt \<Rightarrow> 's \<Rightarrow> nat \<Rightarrow> ('c, 's) action" where
  "clz8 S x i =
     (let x = smt_extract S 7 0 x in
     act_bind (count_init S 8 ''ret0_'' i) (\<lambda>ret0.
     act_bind (clz8_round1 S x ret0 i) (\<lambda>(ret3, x4).
     act_bind (clz8_round2 S x4 ret3 i) (\<lambda>(ret4, x2).
     act_bind (clz8_round3 S x2 ret4 i) (\<lambda>(ret5, x1).
     act_bind (count_last S 8 ''bv0'' ''ret6_'' ''bv1'' x1 ret5 i) (\<lambda>ret6.
     return ret6))))))"

definition clz1 :: "('s, 'c) smt \<Rightarrow> 's \<Rightarrow> nat \<Rightarrow> ('c, 's) action" where
  "clz1 S x i =
     (let x = smt_extract S 0 0 x in
     act_bind (declare_bv S 1 ''clz1ret_'' i) (\<lambda>clz1ret.
     act_bind (assert_ignore S (smt_eq S clz1ret (smt_list S [smt_atom S ''bvnot'', x]))) (\<lambda>_.
     return clz1ret)))"

definition clz_to_smt :: "('s, 'c) smt \<Rightarrow> nat \<Rightarrow> 's \<Rightarrow> nat \<Rightarrow> ('c, 's) action" where
  "clz_to_smt S width xe i =
     (if width = 1 then clz1 S xe i
      else if width = 8 then clz8 S xe i
      else if width = 16 then clz16 S xe i
      else if width = 32 then clz32 S xe i
      else if width = 64 then clz64 S xe i
      else (\<lambda>_. Panic))"

section \<open>Their rounds\<close>

definition clz64_rounds :: "round list" where
  "clz64_rounds =
     [(''ret1_'', ''y32_'', ''x32_'', ''#x0000000000000020'', ''bv32''),
      (''ret2_'', ''y16_'', ''x16_'', ''#x0000000000000010'', ''bv16''),
      (''ret3_'', ''y8_'', ''x8_'', ''#x0000000000000008'', ''bv8''),
      (''ret4_'', ''y4_'', ''x4_'', ''#x0000000000000004'', ''bv4''),
      (''ret5_'', ''y2_'', ''x2_'', ''#x0000000000000002'', ''bv2''),
      (''ret6_'', ''y1_'', ''x1_'', ''#x0000000000000001'', ''bv1'')]"

lemma clz64_rounds_ok:
  "list_all prefix_ok (''ret0_'' # ''ret7_'' # round_names clz64_rounds)"
  "distinct (''ret0_'' # ''ret7_'' # round_names clz64_rounds)"
  "rounds_ok 64 64 clz64_rounds"
  by (simp_all add: clz64_rounds_def round_checks)

definition clz32_rounds :: "round list" where
  "clz32_rounds =
     [(''ret1_'', ''y16_'', ''x16_'', ''#x00000010'', ''bv16''),
      (''ret2_'', ''y8_'', ''x8_'', ''#x00000008'', ''bv8''),
      (''ret3_'', ''y4_'', ''x4_'', ''#x00000004'', ''bv4''),
      (''ret4_'', ''y2_'', ''x2_'', ''#x00000002'', ''bv2''),
      (''ret5_'', ''y1_'', ''x1_'', ''#x00000001'', ''bv1'')]"

lemma clz32_rounds_ok:
  "list_all prefix_ok (''ret0_'' # ''ret6_'' # round_names clz32_rounds)"
  "distinct (''ret0_'' # ''ret6_'' # round_names clz32_rounds)"
  "rounds_ok 32 32 clz32_rounds"
  by (simp_all add: clz32_rounds_def round_checks)

definition clz16_rounds :: "round list" where
  "clz16_rounds =
     [(''ret2_'', ''y8_'', ''x8_'', ''#x0008'', ''bv8''),
      (''ret3_'', ''y4_'', ''x4_'', ''#x0004'', ''bv4''),
      (''ret4_'', ''y2_'', ''x2_'', ''#x0002'', ''bv2''),
      (''ret5_'', ''y1_'', ''x1_'', ''#x0001'', ''bv1'')]"

lemma clz16_rounds_ok:
  "list_all prefix_ok (''ret1_'' # ''ret6_'' # round_names clz16_rounds)"
  "distinct (''ret1_'' # ''ret6_'' # round_names clz16_rounds)"
  "rounds_ok 16 16 clz16_rounds"
  by (simp_all add: clz16_rounds_def round_checks)

definition clz8_rounds :: "round list" where
  "clz8_rounds =
     [(''ret3_'', ''y4_'', ''x4_'', ''#x04'', ''bv4''),
      (''ret4_'', ''y2_'', ''x2_'', ''#x02'', ''bv2''),
      (''ret5_'', ''y1_'', ''x1_'', ''#x01'', ''bv1'')]"

lemma clz8_rounds_ok:
  "list_all prefix_ok (''ret0_'' # ''ret6_'' # round_names clz8_rounds)"
  "distinct (''ret0_'' # ''ret6_'' # round_names clz8_rounds)"
  "rounds_ok 8 8 clz8_rounds"
  by (simp_all add: clz8_rounds_def round_checks)

section \<open>Correctness\<close>

text \<open>The names of a routine, by their prefixes.\<close>

definition clz_names :: "nat \<Rightarrow> string list" where
  "clz_names width =
     (if width = 1 then [''clz1ret_'']
      else if width = 8 then ''ret0_'' # ''ret6_'' # round_names clz8_rounds
      else if width = 16 then ''ret1_'' # ''ret6_'' # round_names clz16_rounds
      else if width = 32 then ''ret0_'' # ''ret6_'' # round_names clz32_rounds
      else ''ret0_'' # ''ret7_'' # round_names clz64_rounds)"

context smt_theory
begin

lemma clz64_runs:
  assumes "stage M c0 i P c" "den M c 64 x N" "set (clz_names 64) \<inter> P = {}"
  shows "runs (clz64 S x i) c (\<lambda>r c'. extends M c c' \<and> ''x1_'' @ dec i \<in> declared M c' \<and>
    valued M c' 64 r (\<lambda>v. clz 64 (N v)))"
proof -
  have unroll: "clz64 S x i =
      act_bind (count_init S 64 ''ret0_'' i) (\<lambda>r.
      act_bind (count_rounds S (smt_bvlshr S) 64 ''bv0'' i clz64_rounds x r) (\<lambda>(r, x).
      count_last S 64 ''bv0'' ''ret7_'' ''bv1'' x r i))"
    by (simp add: clz64_def clz64_round1_def clz64_round2_def clz64_round3_def clz64_round4_def clz64_round5_def clz64_round6_def
        clz64_rounds_def action_simps Let_def)
  have x: "den M c 64 x N" using assms(2) by simp
  have free: "set (''ret0_'' # ''ret7_'' # round_names clz64_rounds) \<inter> P = {}"
    using assms(3) by (simp add: clz_names_def)
  have "runs (clz64 S x i) c (\<lambda>r c'. stage M c0 i (set (''ret0_'' # ''ret7_'' # round_names clz64_rounds) \<union> P) c' \<and> extends M c c' \<and>
      valued M c' 64 r (\<lambda>v. clz 64 (N v)))"
    unfolding unroll by (rule zeros_runs [OF assms(1) clz64_rounds_ok(1,2) free _ x clz64_rounds_ok(3)]) simp
  moreover have "''x1_'' \<in> set (round_names clz64_rounds)" by (simp add: clz64_rounds_def)
  ultimately show ?thesis
    by (elim runs_weaken) (use stage_declared [of M c0 i _ _ "''x1_''"] in fastforce)
qed

lemma clz32_runs:
  assumes "stage M c0 i P c" "den M c 32 x N" "set (clz_names 32) \<inter> P = {}"
  shows "runs (clz32 S x i) c (\<lambda>r c'. extends M c c' \<and> ''x1_'' @ dec i \<in> declared M c' \<and>
    valued M c' 32 r (\<lambda>v. clz 32 (N v)))"
proof -
  have unroll: "clz32 S x i =
      act_bind (count_init S 32 ''ret0_'' i) (\<lambda>r.
      act_bind (count_rounds S (smt_bvlshr S) 32 ''bv0'' i clz32_rounds (smt_extract S 31 0 x) r) (\<lambda>(r, x).
      count_last S 32 ''bv0'' ''ret6_'' ''bv1'' x r i))"
    by (simp add: clz32_def clz32_round1_def clz32_round2_def clz32_round3_def clz32_round4_def clz32_round5_def
        clz32_rounds_def action_simps Let_def)
  have x: "den M c 32 (smt_extract S 31 0 x) N" using den_extract_full [OF assms(2)] by simp
  have free: "set (''ret0_'' # ''ret6_'' # round_names clz32_rounds) \<inter> P = {}"
    using assms(3) by (simp add: clz_names_def)
  have "runs (clz32 S x i) c (\<lambda>r c'. stage M c0 i (set (''ret0_'' # ''ret6_'' # round_names clz32_rounds) \<union> P) c' \<and> extends M c c' \<and>
      valued M c' 32 r (\<lambda>v. clz 32 (N v)))"
    unfolding unroll by (rule zeros_runs [OF assms(1) clz32_rounds_ok(1,2) free _ x clz32_rounds_ok(3)]) simp
  moreover have "''x1_'' \<in> set (round_names clz32_rounds)" by (simp add: clz32_rounds_def)
  ultimately show ?thesis
    by (elim runs_weaken) (use stage_declared [of M c0 i _ _ "''x1_''"] in fastforce)
qed

lemma clz16_runs:
  assumes "stage M c0 i P c" "den M c 16 x N" "set (clz_names 16) \<inter> P = {}"
  shows "runs (clz16 S x i) c (\<lambda>r c'. extends M c c' \<and> ''x1_'' @ dec i \<in> declared M c' \<and>
    valued M c' 16 r (\<lambda>v. clz 16 (N v)))"
proof -
  have unroll: "clz16 S x i =
      act_bind (count_init S 16 ''ret1_'' i) (\<lambda>r.
      act_bind (count_rounds S (smt_bvlshr S) 16 ''bv0'' i clz16_rounds (smt_extract S 15 0 x) r) (\<lambda>(r, x).
      count_last S 16 ''bv0'' ''ret6_'' ''bv1'' x r i))"
    by (simp add: clz16_def clz16_round1_def clz16_round2_def clz16_round3_def clz16_round4_def
        clz16_rounds_def action_simps Let_def)
  have x: "den M c 16 (smt_extract S 15 0 x) N" using den_extract_full [OF assms(2)] by simp
  have free: "set (''ret1_'' # ''ret6_'' # round_names clz16_rounds) \<inter> P = {}"
    using assms(3) by (simp add: clz_names_def)
  have "runs (clz16 S x i) c (\<lambda>r c'. stage M c0 i (set (''ret1_'' # ''ret6_'' # round_names clz16_rounds) \<union> P) c' \<and> extends M c c' \<and>
      valued M c' 16 r (\<lambda>v. clz 16 (N v)))"
    unfolding unroll by (rule zeros_runs [OF assms(1) clz16_rounds_ok(1,2) free _ x clz16_rounds_ok(3)]) simp
  moreover have "''x1_'' \<in> set (round_names clz16_rounds)" by (simp add: clz16_rounds_def)
  ultimately show ?thesis
    by (elim runs_weaken) (use stage_declared [of M c0 i _ _ "''x1_''"] in fastforce)
qed

lemma clz8_runs:
  assumes "stage M c0 i P c" "den M c 8 x N" "set (clz_names 8) \<inter> P = {}"
  shows "runs (clz8 S x i) c (\<lambda>r c'. extends M c c' \<and> ''x1_'' @ dec i \<in> declared M c' \<and>
    valued M c' 8 r (\<lambda>v. clz 8 (N v)))"
proof -
  have unroll: "clz8 S x i =
      act_bind (count_init S 8 ''ret0_'' i) (\<lambda>r.
      act_bind (count_rounds S (smt_bvlshr S) 8 ''bv0'' i clz8_rounds (smt_extract S 7 0 x) r) (\<lambda>(r, x).
      count_last S 8 ''bv0'' ''ret6_'' ''bv1'' x r i))"
    by (simp add: clz8_def clz8_round1_def clz8_round2_def clz8_round3_def
        clz8_rounds_def action_simps Let_def)
  have x: "den M c 8 (smt_extract S 7 0 x) N" using den_extract_full [OF assms(2)] by simp
  have free: "set (''ret0_'' # ''ret6_'' # round_names clz8_rounds) \<inter> P = {}"
    using assms(3) by (simp add: clz_names_def)
  have "runs (clz8 S x i) c (\<lambda>r c'. stage M c0 i (set (''ret0_'' # ''ret6_'' # round_names clz8_rounds) \<union> P) c' \<and> extends M c c' \<and>
      valued M c' 8 r (\<lambda>v. clz 8 (N v)))"
    unfolding unroll by (rule zeros_runs [OF assms(1) clz8_rounds_ok(1,2) free _ x clz8_rounds_ok(3)]) simp
  moreover have "''x1_'' \<in> set (round_names clz8_rounds)" by (simp add: clz8_rounds_def)
  ultimately show ?thesis
    by (elim runs_weaken) (use stage_declared [of M c0 i _ _ "''x1_''"] in fastforce)
qed

lemma clz1_runs:
  assumes "stage M c0 i P c" "den M c 1 x N" "set (clz_names 1) \<inter> P = {}"
  shows "runs (clz1 S x i) c (\<lambda>r c'. extends M c c' \<and> valued M c' 1 r (\<lambda>v. clz 1 (N v)))"
proof -
  have "prefix_ok ''clz1ret_''" "''clz1ret_'' \<notin> P"
    using assms(3) by (simp_all add: round_checks clz_names_def)
  note run = define_eq_runs [OF assms(1) this _ den_bvnot [OF den_extract_full [OF assms(2), of 0]]]
  have "valued M c' 1 r (\<lambda>v. clz 1 (N v))"
    if "extends M c c'" "valued M c' 1 r (\<lambda>v. bv_not 1 (N v))" for r c'
  proof (rule valued_cong [OF that(2)])
    fix v assume "sat M c' v"
    then have "N v < 2" using den_sat [OF assms(2)] extends_sat [OF that(1)] by fastforce
    then show "bv_not 1 (N v) = clz 1 (N v)" using clz_1 [of "N v"] by (auto simp: bv_not_def)
  qed
  with run show ?thesis unfolding clz1_def Let_def by (simp add: runs_weaken)
qed

lemma clz_to_smt_runs:
  assumes "stage M c0 i P c" "set (clz_names width) \<inter> P = {}" "width \<in> {1, 8, 16, 32, 64}" "den M c width x N"
  shows "runs (clz_to_smt S width x i) c
    (\<lambda>r c'. extends M c c' \<and> (width \<noteq> 1 \<longrightarrow> ''x1_'' @ dec i \<in> declared M c') \<and>
       valued M c' width r (\<lambda>v. clz width (N v)))"
  using assms(2-4) clz1_runs [OF assms(1)] clz8_runs [OF assms(1)] clz16_runs [OF assms(1)]
    clz32_runs [OF assms(1)] clz64_runs [OF assms(1)]
  unfolding clz_to_smt_def by (elim insertE emptyE; simp del: clz.simps)

end

section \<open>Property\<close>

text \<open>
  C13. The encoding of count-leading-zeros is exact at every supported width: run on a context
  that does not declare the routine's own names for the expression's number, it declares and asserts without failure, only adds
  definitions (every model of the old context extends to one of the new), and in every model its
  result is the number of leading zeros of the operand.
\<close>
theorem clz_encoding_exact:
  assumes "smt_theory S M" "fresh_names M c (clz_names width) i" "closed_ctx M c"
    and "width \<in> {1, 8, 16, 32, 64}" "den M c width x N"
  shows "\<exists>r c'. clz_to_smt S width x i c = Ok (r, c') \<and> extends M c c' \<and>
    (\<forall>v. sat M c' v \<longrightarrow> ev M v r = Some (BV width (clz width (N v))))"
proof -
  obtain P where "stage M c i P c" "set (clz_names width) \<inter> P = {}"
    using stage_start [OF assms(2,3)] .
  from smt_theory.clz_to_smt_runs [OF assms(1) this assms(4,5)]
  show ?thesis by (intro runs_exact) (auto elim: runs_weaken)
qed

theorem clz_encoding_exact_witness:
  "\<exists>r c'. clz_to_smt sexpr_smt 8 (Atom ''x_7'') 7
       \<lparr>sc_decls = [(''x_7'', bv_sort sexpr_smt 8)], sc_facts = []\<rparr> = Ok (r, c') \<and>
     extends sexpr_sem \<lparr>sc_decls = [(''x_7'', bv_sort sexpr_smt 8)], sc_facts = []\<rparr> c' \<and>
     (\<forall>v. sat sexpr_sem c' v \<longrightarrow> ev sexpr_sem v r = Some (BV 8 (clz 8 (bv_val (v ''x_7'')))))"
proof (rule clz_encoding_exact [OF sx.smt_theory_axioms])
  let ?c = "\<lparr>sc_decls = [(''x_7'', bv_sort sexpr_smt 8)], sc_facts = []\<rparr>"
  have "dec 7 = ''7''" by code_simp
  then show "fresh_names sexpr_sem ?c (clz_names 8) 7"
    by (simp add: fresh_names_def declared_def sexpr_sem_def clz_names_def clz8_rounds_def)
  show "closed_ctx sexpr_sem ?c" by (simp add: closed_ctx_def sexpr_sem_def)
  have "generated ''x_7''"
    using prefix_ok_generated [of "''x_''" 7] \<open>dec 7 = ''7''\<close> by (simp add: prefix_ok_def)
  then have "den sexpr_sem ?c 8 (smt_atom sexpr_smt ''x_7'') (\<lambda>v. bv_val (v ''x_7''))"
    by (intro sx.den_constant) (simp_all add: sexpr_sem_def)
  then show "den sexpr_sem ?c 8 (Atom ''x_7'') (\<lambda>v. bv_val (v ''x_7''))" by (simp add: sexpr_smt_def)
qed simp

end
