(* ===== verification/Encoded_Cls.thy ===== *)
theory Encoded_Cls
  imports Encoded_Count
begin

text \<open>
  Leading sign bits, \<^verbatim>\<open>veri/src/encoded/cls.rs\<close>: a count of leading zeros and a count of leading
  ones, each less the sign bit, and a choice between them by the sign of the operand. The
  encoding of \<^verbatim>\<open>Expr::Cls\<close> in \<^verbatim>\<open>veri/src/solver.rs\<close> picks the routine by width.
\<close>

section \<open>The routines\<close>

definition cls64_zround1 :: "('s, 'c) smt \<Rightarrow> 's \<Rightarrow> 's \<Rightarrow> nat \<Rightarrow> ('c, 's \<times> 's) action" where
  "cls64_zround1 S x ret i =
     count_round S (smt_bvlshr S) 64 ''bv0'' ''zret1_'' ''zy32_'' ''zx32_'' ''#x0000000000000020'' ''bv32'' x ret i"

definition cls64_zround2 :: "('s, 'c) smt \<Rightarrow> 's \<Rightarrow> 's \<Rightarrow> nat \<Rightarrow> ('c, 's \<times> 's) action" where
  "cls64_zround2 S x ret i =
     count_round S (smt_bvlshr S) 64 ''bv0'' ''zret2_'' ''zy16_'' ''zx16_'' ''#x0000000000000010'' ''bv16'' x ret i"

definition cls64_zround3 :: "('s, 'c) smt \<Rightarrow> 's \<Rightarrow> 's \<Rightarrow> nat \<Rightarrow> ('c, 's \<times> 's) action" where
  "cls64_zround3 S x ret i =
     count_round S (smt_bvlshr S) 64 ''bv0'' ''zret3_'' ''zy8_'' ''zx8_'' ''#x0000000000000008'' ''bv8'' x ret i"

definition cls64_zround4 :: "('s, 'c) smt \<Rightarrow> 's \<Rightarrow> 's \<Rightarrow> nat \<Rightarrow> ('c, 's \<times> 's) action" where
  "cls64_zround4 S x ret i =
     count_round S (smt_bvlshr S) 64 ''bv0'' ''zret4_'' ''zy4_'' ''zx4_'' ''#x0000000000000004'' ''bv4'' x ret i"

definition cls64_zround5 :: "('s, 'c) smt \<Rightarrow> 's \<Rightarrow> 's \<Rightarrow> nat \<Rightarrow> ('c, 's \<times> 's) action" where
  "cls64_zround5 S x ret i =
     count_round S (smt_bvlshr S) 64 ''bv0'' ''zret5_'' ''zy2_'' ''zx2_'' ''#x0000000000000002'' ''bv2'' x ret i"

definition cls64_zround6 :: "('s, 'c) smt \<Rightarrow> 's \<Rightarrow> 's \<Rightarrow> nat \<Rightarrow> ('c, 's \<times> 's) action" where
  "cls64_zround6 S x ret i =
     count_round S (smt_bvlshr S) 64 ''bv0'' ''zret6_'' ''zy1_'' ''zx1_'' ''#x0000000000000001'' ''bv1'' x ret i"

definition cls64_sround1 :: "('s, 'c) smt \<Rightarrow> 's \<Rightarrow> 's \<Rightarrow> nat \<Rightarrow> ('c, 's \<times> 's) action" where
  "cls64_sround1 S x ret i =
     count_round S (smt_bvashr S) 64 ''bv18446744073709551615'' ''sret1_'' ''sy32_'' ''sx32_'' ''#x0000000000000020'' ''bv32'' x ret i"

definition cls64_sround2 :: "('s, 'c) smt \<Rightarrow> 's \<Rightarrow> 's \<Rightarrow> nat \<Rightarrow> ('c, 's \<times> 's) action" where
  "cls64_sround2 S x ret i =
     count_round S (smt_bvashr S) 64 ''bv18446744073709551615'' ''sret2_'' ''sy16_'' ''sx16_'' ''#x0000000000000010'' ''bv16'' x ret i"

definition cls64_sround3 :: "('s, 'c) smt \<Rightarrow> 's \<Rightarrow> 's \<Rightarrow> nat \<Rightarrow> ('c, 's \<times> 's) action" where
  "cls64_sround3 S x ret i =
     count_round S (smt_bvashr S) 64 ''bv18446744073709551615'' ''sret3_'' ''sy8_'' ''sx8_'' ''#x0000000000000008'' ''bv8'' x ret i"

definition cls64_sround4 :: "('s, 'c) smt \<Rightarrow> 's \<Rightarrow> 's \<Rightarrow> nat \<Rightarrow> ('c, 's \<times> 's) action" where
  "cls64_sround4 S x ret i =
     count_round S (smt_bvashr S) 64 ''bv18446744073709551615'' ''sret4_'' ''sy4_'' ''sx4_'' ''#x0000000000000004'' ''bv4'' x ret i"

definition cls64_sround5 :: "('s, 'c) smt \<Rightarrow> 's \<Rightarrow> 's \<Rightarrow> nat \<Rightarrow> ('c, 's \<times> 's) action" where
  "cls64_sround5 S x ret i =
     count_round S (smt_bvashr S) 64 ''bv18446744073709551615'' ''sret5_'' ''sy2_'' ''sx2_'' ''#x0000000000000002'' ''bv2'' x ret i"

definition cls64_sround6 :: "('s, 'c) smt \<Rightarrow> 's \<Rightarrow> 's \<Rightarrow> nat \<Rightarrow> ('c, 's \<times> 's) action" where
  "cls64_sround6 S x ret i =
     count_round S (smt_bvashr S) 64 ''bv18446744073709551615'' ''sret6_'' ''sy1_'' ''sx1_'' ''#x0000000000000001'' ''bv1'' x ret i"

definition cls64 :: "('s, 'c) smt \<Rightarrow> 's \<Rightarrow> nat \<Rightarrow> ('c, 's) action" where
  "cls64 S x i =
     act_bind (count_init S 64 ''zret0_'' i) (\<lambda>zret0.
     act_bind (cls64_zround1 S x zret0 i) (\<lambda>(zret1, zx32).
     act_bind (cls64_zround2 S zx32 zret1 i) (\<lambda>(zret2, zx16).
     act_bind (cls64_zround3 S zx16 zret2 i) (\<lambda>(zret3, zx8).
     act_bind (cls64_zround4 S zx8 zret3 i) (\<lambda>(zret4, zx4).
     act_bind (cls64_zround5 S zx4 zret4 i) (\<lambda>(zret5, zx2).
     act_bind (cls64_zround6 S zx2 zret5 i) (\<lambda>(zret6, zx1).
     act_bind (count_last S 64 ''bv0'' ''zret7_'' ''bv1'' zx1 zret6 i) (\<lambda>zret7.
     act_bind (count_less_one S 64 ''clzret_'' zret7 i) (\<lambda>clzret.
     act_bind (count_init S 64 ''sret0_'' i) (\<lambda>sret0.
     act_bind (cls64_sround1 S x sret0 i) (\<lambda>(sret1, sx32).
     act_bind (cls64_sround2 S sx32 sret1 i) (\<lambda>(sret2, sx16).
     act_bind (cls64_sround3 S sx16 sret2 i) (\<lambda>(sret3, sx8).
     act_bind (cls64_sround4 S sx8 sret3 i) (\<lambda>(sret4, sx4).
     act_bind (cls64_sround5 S sx4 sret4 i) (\<lambda>(sret5, sx2).
     act_bind (cls64_sround6 S sx2 sret5 i) (\<lambda>(sret6, sx1).
     act_bind (count_last S 64 ''bv18446744073709551615'' ''sret7_'' ''bv1'' sx1 sret6 i) (\<lambda>sret7.
     act_bind (count_less_one S 64 ''clsret_'' sret7 i) (\<lambda>clsret.
     act_bind (select_by_sign S 64 ''cls64ret_'' x clzret clsret i) (\<lambda>cls64ret.
     return cls64ret)))))))))))))))))))"

definition cls32_zround1 :: "('s, 'c) smt \<Rightarrow> 's \<Rightarrow> 's \<Rightarrow> nat \<Rightarrow> ('c, 's \<times> 's) action" where
  "cls32_zround1 S x ret i =
     count_round S (smt_bvlshr S) 32 ''bv0'' ''zret2_'' ''zy16_'' ''zx16_'' ''#x00000010'' ''bv16'' x ret i"

definition cls32_zround2 :: "('s, 'c) smt \<Rightarrow> 's \<Rightarrow> 's \<Rightarrow> nat \<Rightarrow> ('c, 's \<times> 's) action" where
  "cls32_zround2 S x ret i =
     count_round S (smt_bvlshr S) 32 ''bv0'' ''zret3_'' ''zy8_'' ''zx8_'' ''#x00000008'' ''bv8'' x ret i"

definition cls32_zround3 :: "('s, 'c) smt \<Rightarrow> 's \<Rightarrow> 's \<Rightarrow> nat \<Rightarrow> ('c, 's \<times> 's) action" where
  "cls32_zround3 S x ret i =
     count_round S (smt_bvlshr S) 32 ''bv0'' ''zret4_'' ''zy4_'' ''zx4_'' ''#x00000004'' ''bv4'' x ret i"

definition cls32_zround4 :: "('s, 'c) smt \<Rightarrow> 's \<Rightarrow> 's \<Rightarrow> nat \<Rightarrow> ('c, 's \<times> 's) action" where
  "cls32_zround4 S x ret i =
     count_round S (smt_bvlshr S) 32 ''bv0'' ''zret5_'' ''zy2_'' ''zx2_'' ''#x00000002'' ''bv2'' x ret i"

definition cls32_zround5 :: "('s, 'c) smt \<Rightarrow> 's \<Rightarrow> 's \<Rightarrow> nat \<Rightarrow> ('c, 's \<times> 's) action" where
  "cls32_zround5 S x ret i =
     count_round S (smt_bvlshr S) 32 ''bv0'' ''zret6_'' ''zy1_'' ''zx1_'' ''#x00000001'' ''bv1'' x ret i"

definition cls32_sround1 :: "('s, 'c) smt \<Rightarrow> 's \<Rightarrow> 's \<Rightarrow> nat \<Rightarrow> ('c, 's \<times> 's) action" where
  "cls32_sround1 S x ret i =
     count_round S (smt_bvashr S) 32 ''bv4294967295'' ''sret2_'' ''sy16_'' ''sx16_'' ''#x00000010'' ''bv16'' x ret i"

definition cls32_sround2 :: "('s, 'c) smt \<Rightarrow> 's \<Rightarrow> 's \<Rightarrow> nat \<Rightarrow> ('c, 's \<times> 's) action" where
  "cls32_sround2 S x ret i =
     count_round S (smt_bvashr S) 32 ''bv4294967295'' ''sret3_'' ''sy8_'' ''sx8_'' ''#x00000008'' ''bv8'' x ret i"

definition cls32_sround3 :: "('s, 'c) smt \<Rightarrow> 's \<Rightarrow> 's \<Rightarrow> nat \<Rightarrow> ('c, 's \<times> 's) action" where
  "cls32_sround3 S x ret i =
     count_round S (smt_bvashr S) 32 ''bv4294967295'' ''sret4_'' ''sy4_'' ''sx4_'' ''#x00000004'' ''bv4'' x ret i"

definition cls32_sround4 :: "('s, 'c) smt \<Rightarrow> 's \<Rightarrow> 's \<Rightarrow> nat \<Rightarrow> ('c, 's \<times> 's) action" where
  "cls32_sround4 S x ret i =
     count_round S (smt_bvashr S) 32 ''bv4294967295'' ''sret5_'' ''sy2_'' ''sx2_'' ''#x00000002'' ''bv2'' x ret i"

definition cls32_sround5 :: "('s, 'c) smt \<Rightarrow> 's \<Rightarrow> 's \<Rightarrow> nat \<Rightarrow> ('c, 's \<times> 's) action" where
  "cls32_sround5 S x ret i =
     count_round S (smt_bvashr S) 32 ''bv4294967295'' ''sret6_'' ''sy1_'' ''sx1_'' ''#x00000001'' ''bv1'' x ret i"

definition cls32 :: "('s, 'c) smt \<Rightarrow> 's \<Rightarrow> nat \<Rightarrow> ('c, 's) action" where
  "cls32 S x i =
     (let x = smt_extract S 31 0 x in
     act_bind (count_init S 32 ''zret0_'' i) (\<lambda>zret0.
     act_bind (cls32_zround1 S x zret0 i) (\<lambda>(zret2, zx16).
     act_bind (cls32_zround2 S zx16 zret2 i) (\<lambda>(zret3, zx8).
     act_bind (cls32_zround3 S zx8 zret3 i) (\<lambda>(zret4, zx4).
     act_bind (cls32_zround4 S zx4 zret4 i) (\<lambda>(zret5, zx2).
     act_bind (cls32_zround5 S zx2 zret5 i) (\<lambda>(zret6, zx1).
     act_bind (count_last S 32 ''bv0'' ''zret7_'' ''bv1'' zx1 zret6 i) (\<lambda>zret7.
     act_bind (count_less_one S 32 ''clzret_'' zret7 i) (\<lambda>clzret.
     act_bind (count_init S 32 ''sret0_'' i) (\<lambda>sret0.
     act_bind (cls32_sround1 S x sret0 i) (\<lambda>(sret2, sx16).
     act_bind (cls32_sround2 S sx16 sret2 i) (\<lambda>(sret3, sx8).
     act_bind (cls32_sround3 S sx8 sret3 i) (\<lambda>(sret4, sx4).
     act_bind (cls32_sround4 S sx4 sret4 i) (\<lambda>(sret5, sx2).
     act_bind (cls32_sround5 S sx2 sret5 i) (\<lambda>(sret6, sx1).
     act_bind (count_last S 32 ''bv4294967295'' ''sret7_'' ''bv1'' sx1 sret6 i) (\<lambda>sret7.
     act_bind (count_less_one S 32 ''clsret_'' sret7 i) (\<lambda>clsret.
     act_bind (select_by_sign S 32 ''cls32ret_'' x clzret clsret i) (\<lambda>cls32ret.
     return cls32ret))))))))))))))))))"

definition cls16_zround1 :: "('s, 'c) smt \<Rightarrow> 's \<Rightarrow> 's \<Rightarrow> nat \<Rightarrow> ('c, 's \<times> 's) action" where
  "cls16_zround1 S x ret i =
     count_round S (smt_bvlshr S) 16 ''bv0'' ''zret3_'' ''zy8_'' ''zx8_'' ''#x0008'' ''bv8'' x ret i"

definition cls16_zround2 :: "('s, 'c) smt \<Rightarrow> 's \<Rightarrow> 's \<Rightarrow> nat \<Rightarrow> ('c, 's \<times> 's) action" where
  "cls16_zround2 S x ret i =
     count_round S (smt_bvlshr S) 16 ''bv0'' ''zret4_'' ''zy4_'' ''zx4_'' ''#x0004'' ''bv4'' x ret i"

definition cls16_zround3 :: "('s, 'c) smt \<Rightarrow> 's \<Rightarrow> 's \<Rightarrow> nat \<Rightarrow> ('c, 's \<times> 's) action" where
  "cls16_zround3 S x ret i =
     count_round S (smt_bvlshr S) 16 ''bv0'' ''zret5_'' ''zy2_'' ''zx2_'' ''#x0002'' ''bv2'' x ret i"

definition cls16_zround4 :: "('s, 'c) smt \<Rightarrow> 's \<Rightarrow> 's \<Rightarrow> nat \<Rightarrow> ('c, 's \<times> 's) action" where
  "cls16_zround4 S x ret i =
     count_round S (smt_bvlshr S) 16 ''bv0'' ''zret6_'' ''zy1_'' ''zx1_'' ''#x0001'' ''bv1'' x ret i"

definition cls16_sround1 :: "('s, 'c) smt \<Rightarrow> 's \<Rightarrow> 's \<Rightarrow> nat \<Rightarrow> ('c, 's \<times> 's) action" where
  "cls16_sround1 S x ret i =
     count_round S (smt_bvashr S) 16 ''bv65535'' ''sret3_'' ''sy8_'' ''sx8_'' ''#x0008'' ''bv8'' x ret i"

definition cls16_sround2 :: "('s, 'c) smt \<Rightarrow> 's \<Rightarrow> 's \<Rightarrow> nat \<Rightarrow> ('c, 's \<times> 's) action" where
  "cls16_sround2 S x ret i =
     count_round S (smt_bvashr S) 16 ''bv65535'' ''sret4_'' ''sy4_'' ''sx4_'' ''#x0004'' ''bv4'' x ret i"

definition cls16_sround3 :: "('s, 'c) smt \<Rightarrow> 's \<Rightarrow> 's \<Rightarrow> nat \<Rightarrow> ('c, 's \<times> 's) action" where
  "cls16_sround3 S x ret i =
     count_round S (smt_bvashr S) 16 ''bv65535'' ''sret5_'' ''sy2_'' ''sx2_'' ''#x0002'' ''bv2'' x ret i"

definition cls16_sround4 :: "('s, 'c) smt \<Rightarrow> 's \<Rightarrow> 's \<Rightarrow> nat \<Rightarrow> ('c, 's \<times> 's) action" where
  "cls16_sround4 S x ret i =
     count_round S (smt_bvashr S) 16 ''bv65535'' ''sret6_'' ''sy1_'' ''sx1_'' ''#x0001'' ''bv1'' x ret i"

definition cls16 :: "('s, 'c) smt \<Rightarrow> 's \<Rightarrow> nat \<Rightarrow> ('c, 's) action" where
  "cls16 S x i =
     (let x = smt_extract S 15 0 x in
     act_bind (count_init S 16 ''zret0_'' i) (\<lambda>zret0.
     act_bind (cls16_zround1 S x zret0 i) (\<lambda>(zret3, zx8).
     act_bind (cls16_zround2 S zx8 zret3 i) (\<lambda>(zret4, zx4).
     act_bind (cls16_zround3 S zx4 zret4 i) (\<lambda>(zret5, zx2).
     act_bind (cls16_zround4 S zx2 zret5 i) (\<lambda>(zret6, zx1).
     act_bind (count_last S 16 ''bv0'' ''zret7_'' ''bv1'' zx1 zret6 i) (\<lambda>zret7.
     act_bind (count_less_one S 16 ''clzret_'' zret7 i) (\<lambda>clzret.
     act_bind (count_init S 16 ''sret0_'' i) (\<lambda>sret0.
     act_bind (cls16_sround1 S x sret0 i) (\<lambda>(sret3, sx8).
     act_bind (cls16_sround2 S sx8 sret3 i) (\<lambda>(sret4, sx4).
     act_bind (cls16_sround3 S sx4 sret4 i) (\<lambda>(sret5, sx2).
     act_bind (cls16_sround4 S sx2 sret5 i) (\<lambda>(sret6, sx1).
     act_bind (count_last S 16 ''bv65535'' ''sret7_'' ''bv1'' sx1 sret6 i) (\<lambda>sret7.
     act_bind (count_less_one S 16 ''clsret_'' sret7 i) (\<lambda>clsret.
     act_bind (select_by_sign S 16 ''cls16ret_'' x clzret clsret i) (\<lambda>cls16ret.
     return cls16ret))))))))))))))))"

definition cls8_zround1 :: "('s, 'c) smt \<Rightarrow> 's \<Rightarrow> 's \<Rightarrow> nat \<Rightarrow> ('c, 's \<times> 's) action" where
  "cls8_zround1 S x ret i =
     count_round S (smt_bvlshr S) 8 ''bv0'' ''zret4_'' ''zy4_'' ''zx4_'' ''#x04'' ''bv4'' x ret i"

definition cls8_zround2 :: "('s, 'c) smt \<Rightarrow> 's \<Rightarrow> 's \<Rightarrow> nat \<Rightarrow> ('c, 's \<times> 's) action" where
  "cls8_zround2 S x ret i =
     count_round S (smt_bvlshr S) 8 ''bv0'' ''zret5_'' ''zy2_'' ''zx2_'' ''#x02'' ''bv2'' x ret i"

definition cls8_zround3 :: "('s, 'c) smt \<Rightarrow> 's \<Rightarrow> 's \<Rightarrow> nat \<Rightarrow> ('c, 's \<times> 's) action" where
  "cls8_zround3 S x ret i =
     count_round S (smt_bvlshr S) 8 ''bv0'' ''zret6_'' ''zy1_'' ''zx1_'' ''#x01'' ''bv1'' x ret i"

definition cls8_sround1 :: "('s, 'c) smt \<Rightarrow> 's \<Rightarrow> 's \<Rightarrow> nat \<Rightarrow> ('c, 's \<times> 's) action" where
  "cls8_sround1 S x ret i =
     count_round S (smt_bvashr S) 8 ''bv255'' ''sret4_'' ''sy4_'' ''sx4_'' ''#x04'' ''bv4'' x ret i"

definition cls8_sround2 :: "('s, 'c) smt \<Rightarrow> 's \<Rightarrow> 's \<Rightarrow> nat \<Rightarrow> ('c, 's \<times> 's) action" where
  "cls8_sround2 S x ret i =
     count_round S (smt_bvashr S) 8 ''bv255'' ''sret5_'' ''sy2_'' ''sx2_'' ''#x02'' ''bv2'' x ret i"

definition cls8_sround3 :: "('s, 'c) smt \<Rightarrow> 's \<Rightarrow> 's \<Rightarrow> nat \<Rightarrow> ('c, 's \<times> 's) action" where
  "cls8_sround3 S x ret i =
     count_round S (smt_bvashr S) 8 ''bv255'' ''sret6_'' ''sy1_'' ''sx1_'' ''#x01'' ''bv1'' x ret i"

definition cls8 :: "('s, 'c) smt \<Rightarrow> 's \<Rightarrow> nat \<Rightarrow> ('c, 's) action" where
  "cls8 S x i =
     (let x = smt_extract S 7 0 x in
     act_bind (count_init S 8 ''zret0_'' i) (\<lambda>zret0.
     act_bind (cls8_zround1 S x zret0 i) (\<lambda>(zret4, zx4).
     act_bind (cls8_zround2 S zx4 zret4 i) (\<lambda>(zret5, zx2).
     act_bind (cls8_zround3 S zx2 zret5 i) (\<lambda>(zret6, zx1).
     act_bind (count_last S 8 ''bv0'' ''zret7_'' ''bv1'' zx1 zret6 i) (\<lambda>zret7.
     act_bind (count_less_one S 8 ''clzret_'' zret7 i) (\<lambda>clzret.
     act_bind (count_init S 8 ''sret0_'' i) (\<lambda>sret0.
     act_bind (cls8_sround1 S x sret0 i) (\<lambda>(sret4, sx4).
     act_bind (cls8_sround2 S sx4 sret4 i) (\<lambda>(sret5, sx2).
     act_bind (cls8_sround3 S sx2 sret5 i) (\<lambda>(sret6, sx1).
     act_bind (count_last S 8 ''bv255'' ''sret7_'' ''bv1'' sx1 sret6 i) (\<lambda>sret7.
     act_bind (count_less_one S 8 ''clsret_'' sret7 i) (\<lambda>clsret.
     act_bind (select_by_sign S 8 ''cls8ret_'' x clzret clsret i) (\<lambda>cls8ret.
     return cls8ret))))))))))))))"

definition cls1 :: "('s, 'c) smt \<Rightarrow> nat \<Rightarrow> ('c, 's) action" where
  "cls1 S i =
     act_bind (count_init S 1 ''cls1ret_'' i) (\<lambda>cls1ret.
     return cls1ret)"

definition cls_to_smt :: "('s, 'c) smt \<Rightarrow> nat \<Rightarrow> 's \<Rightarrow> nat \<Rightarrow> ('c, 's) action" where
  "cls_to_smt S width xe i =
     (if width = 8 then cls8 S xe i
      else if width = 16 then cls16 S xe i
      else if width = 32 then cls32 S xe i
      else if width = 64 then cls64 S xe i
      else (\<lambda>_. Panic))"

section \<open>Their rounds\<close>

definition cls64_zrounds :: "round list" where
  "cls64_zrounds =
     [(''zret1_'', ''zy32_'', ''zx32_'', ''#x0000000000000020'', ''bv32''),
      (''zret2_'', ''zy16_'', ''zx16_'', ''#x0000000000000010'', ''bv16''),
      (''zret3_'', ''zy8_'', ''zx8_'', ''#x0000000000000008'', ''bv8''),
      (''zret4_'', ''zy4_'', ''zx4_'', ''#x0000000000000004'', ''bv4''),
      (''zret5_'', ''zy2_'', ''zx2_'', ''#x0000000000000002'', ''bv2''),
      (''zret6_'', ''zy1_'', ''zx1_'', ''#x0000000000000001'', ''bv1'')]"

lemma cls64_zrounds_ok: "rounds_ok 64 64 cls64_zrounds"
  by (simp add: cls64_zrounds_def round_checks)

definition cls64_srounds :: "round list" where
  "cls64_srounds =
     [(''sret1_'', ''sy32_'', ''sx32_'', ''#x0000000000000020'', ''bv32''),
      (''sret2_'', ''sy16_'', ''sx16_'', ''#x0000000000000010'', ''bv16''),
      (''sret3_'', ''sy8_'', ''sx8_'', ''#x0000000000000008'', ''bv8''),
      (''sret4_'', ''sy4_'', ''sx4_'', ''#x0000000000000004'', ''bv4''),
      (''sret5_'', ''sy2_'', ''sx2_'', ''#x0000000000000002'', ''bv2''),
      (''sret6_'', ''sy1_'', ''sx1_'', ''#x0000000000000001'', ''bv1'')]"

lemma cls64_srounds_ok: "rounds_ok 64 64 cls64_srounds"
  by (simp add: cls64_srounds_def round_checks)

definition cls32_zrounds :: "round list" where
  "cls32_zrounds =
     [(''zret2_'', ''zy16_'', ''zx16_'', ''#x00000010'', ''bv16''),
      (''zret3_'', ''zy8_'', ''zx8_'', ''#x00000008'', ''bv8''),
      (''zret4_'', ''zy4_'', ''zx4_'', ''#x00000004'', ''bv4''),
      (''zret5_'', ''zy2_'', ''zx2_'', ''#x00000002'', ''bv2''),
      (''zret6_'', ''zy1_'', ''zx1_'', ''#x00000001'', ''bv1'')]"

lemma cls32_zrounds_ok: "rounds_ok 32 32 cls32_zrounds"
  by (simp add: cls32_zrounds_def round_checks)

definition cls32_srounds :: "round list" where
  "cls32_srounds =
     [(''sret2_'', ''sy16_'', ''sx16_'', ''#x00000010'', ''bv16''),
      (''sret3_'', ''sy8_'', ''sx8_'', ''#x00000008'', ''bv8''),
      (''sret4_'', ''sy4_'', ''sx4_'', ''#x00000004'', ''bv4''),
      (''sret5_'', ''sy2_'', ''sx2_'', ''#x00000002'', ''bv2''),
      (''sret6_'', ''sy1_'', ''sx1_'', ''#x00000001'', ''bv1'')]"

lemma cls32_srounds_ok: "rounds_ok 32 32 cls32_srounds"
  by (simp add: cls32_srounds_def round_checks)

definition cls16_zrounds :: "round list" where
  "cls16_zrounds =
     [(''zret3_'', ''zy8_'', ''zx8_'', ''#x0008'', ''bv8''),
      (''zret4_'', ''zy4_'', ''zx4_'', ''#x0004'', ''bv4''),
      (''zret5_'', ''zy2_'', ''zx2_'', ''#x0002'', ''bv2''),
      (''zret6_'', ''zy1_'', ''zx1_'', ''#x0001'', ''bv1'')]"

lemma cls16_zrounds_ok: "rounds_ok 16 16 cls16_zrounds"
  by (simp add: cls16_zrounds_def round_checks)

definition cls16_srounds :: "round list" where
  "cls16_srounds =
     [(''sret3_'', ''sy8_'', ''sx8_'', ''#x0008'', ''bv8''),
      (''sret4_'', ''sy4_'', ''sx4_'', ''#x0004'', ''bv4''),
      (''sret5_'', ''sy2_'', ''sx2_'', ''#x0002'', ''bv2''),
      (''sret6_'', ''sy1_'', ''sx1_'', ''#x0001'', ''bv1'')]"

lemma cls16_srounds_ok: "rounds_ok 16 16 cls16_srounds"
  by (simp add: cls16_srounds_def round_checks)

definition cls8_zrounds :: "round list" where
  "cls8_zrounds =
     [(''zret4_'', ''zy4_'', ''zx4_'', ''#x04'', ''bv4''),
      (''zret5_'', ''zy2_'', ''zx2_'', ''#x02'', ''bv2''),
      (''zret6_'', ''zy1_'', ''zx1_'', ''#x01'', ''bv1'')]"

lemma cls8_zrounds_ok: "rounds_ok 8 8 cls8_zrounds"
  by (simp add: cls8_zrounds_def round_checks)

definition cls8_srounds :: "round list" where
  "cls8_srounds =
     [(''sret4_'', ''sy4_'', ''sx4_'', ''#x04'', ''bv4''),
      (''sret5_'', ''sy2_'', ''sx2_'', ''#x02'', ''bv2''),
      (''sret6_'', ''sy1_'', ''sx1_'', ''#x01'', ''bv1'')]"

lemma cls8_srounds_ok: "rounds_ok 8 8 cls8_srounds"
  by (simp add: cls8_srounds_def round_checks)

section \<open>Correctness\<close>

text \<open>All names of a routine, in no particular order.\<close>

definition cls_names :: "string \<Rightarrow> string \<Rightarrow> round list \<Rightarrow> string \<Rightarrow> string \<Rightarrow> round list \<Rightarrow> string \<Rightarrow> string list" where
  "cls_names zp0 zpl zrds sp0 spl srds ret =
     ret # ''clsret_'' # ''clzret_'' # zp0 # zpl # round_names zrds @ sp0 # spl # round_names srds"

text \<open>The names of a routine, by their prefixes.\<close>

definition cls_width_names :: "nat \<Rightarrow> string list" where
  "cls_width_names width =
     (if width = 8 then
        cls_names ''zret0_'' ''zret7_'' cls8_zrounds ''sret0_'' ''sret7_'' cls8_srounds ''cls8ret_''
      else if width = 16 then
        cls_names ''zret0_'' ''zret7_'' cls16_zrounds ''sret0_'' ''sret7_'' cls16_srounds ''cls16ret_''
      else if width = 32 then
        cls_names ''zret0_'' ''zret7_'' cls32_zrounds ''sret0_'' ''sret7_'' cls32_srounds ''cls32ret_''
      else
        cls_names ''zret0_'' ''zret7_'' cls64_zrounds ''sret0_'' ''sret7_'' cls64_srounds ''cls64ret_'')"

lemma cls_eq:
  assumes "0 < w" "n < 2 ^ w"
  shows "(if bv_signed w 0 \<le> bv_signed w n then clz w n - 1 else clz w (bv_not w n) - 1) = cls w n"
  using assms bv_signed_nonneg [OF assms] bit_top_iff [OF assms] by (simp add: cls_def not_le)

context smt_theory
begin

lemma zeros_less_runs:
  assumes st: "stage M c0 i P c" "list_all prefix_ok (q # p0 # pl # round_names rds)"
      "distinct (q # p0 # pl # round_names rds)" "set (q # p0 # pl # round_names rds) \<inter> P = {}" "0 < w"
    and x: "den M c w x N" "rounds_ok w w rds"
  shows "runs (act_bind (act_bind (count_init S w p0 i) (\<lambda>r.
        act_bind (count_rounds S (smt_bvlshr S) w ''bv0'' i rds x r) (\<lambda>(r, x).
        count_last S w ''bv0'' pl ''bv1'' x r i))) (\<lambda>r. count_less_one S w q r i)) c
    (\<lambda>r c'. stage M c0 i (set (q # p0 # pl # round_names rds) \<union> P) c' \<and> extends M c c' \<and>
       valued M c' w r (\<lambda>v. clz w (N v) - 1))"
proof (rule runs_seq [OF zeros_runs [OF st(1) _ _ _ st(5) x]], goal_cases)
  case (4 r c1)
  then obtain Z where c1: "stage M c0 i (set (p0 # pl # round_names rds) \<union> P) c1" "extends M c c1"
      "den M c1 w r Z" "\<And>v. sat M c1 v \<Longrightarrow> Z v = clz w (N v)" by (auto simp: valued_def)
  have "valued M c' w r' (\<lambda>v. clz w (N v) - 1)"
    if "extends M c1 c'" "valued M c' w r' (\<lambda>v. Z v - 1)" for r' c'
    by (rule valued_cong [OF that(2)]) (use c1(4) extends_sat [OF that(1)] in simp)
  then show ?case
    using st extends_trans [OF c1(2)]
    by (intro runs_weaken [OF count_less_one_runs [OF c1(1) _ _ st(5) c1(3)]])
      (auto simp: insert_commute)
qed (use st in auto)

lemma ones_less_runs:
  assumes st: "stage M c0 i P c" "list_all prefix_ok (q # p0 # pl # round_names rds)"
      "distinct (q # p0 # pl # round_names rds)" "set (q # p0 # pl # round_names rds) \<inter> P = {}" "0 < w"
    and x: "den M c w x N" "rounds_ok w w rds" "literal_is w (2 ^ w - 1) lit"
  shows "runs (act_bind (act_bind (count_init S w p0 i) (\<lambda>r.
        act_bind (count_rounds S (smt_bvashr S) w lit i rds x r) (\<lambda>(r, x).
        count_last S w lit pl ''bv1'' x r i))) (\<lambda>r. count_less_one S w q r i)) c
    (\<lambda>r c'. stage M c0 i (set (q # p0 # pl # round_names rds) \<union> P) c' \<and> extends M c c' \<and>
       (\<exists>G. valued M c' w r G \<and>
          (\<forall>v. sat M c' v \<longrightarrow> 2 ^ (w - 1) \<le> N v \<longrightarrow> G v = clz w (bv_not w (N v)) - 1)))"
proof (rule runs_seq [OF ones_runs [OF st(1) _ _ _ st(5) x]], goal_cases)
  case (4 r c1)
  then obtain Z where c1: "stage M c0 i (set (p0 # pl # round_names rds) \<union> P) c1" "extends M c c1"
      "den M c1 w r Z"
      "\<And>v. sat M c1 v \<Longrightarrow> 2 ^ (w - 1) \<le> N v \<Longrightarrow> Z v = clz w (bv_not w (N v))"
    by (auto simp: valued_def)
  have "\<exists>G. valued M c' w r' G \<and>
      (\<forall>v. sat M c' v \<longrightarrow> 2 ^ (w - 1) \<le> N v \<longrightarrow> G v = clz w (bv_not w (N v)) - 1)"
    if "extends M c1 c'" "valued M c' w r' (\<lambda>v. Z v - 1)" for r' c'
    using that(2) c1(4) extends_sat [OF that(1)] by (intro exI [of _ "\<lambda>v. Z v - 1"]) simp
  then show ?case
    using st extends_trans [OF c1(2)]
    by (intro runs_weaken [OF count_less_one_runs [OF c1(1) _ _ st(5) c1(3)]])
      (auto simp: insert_commute)
qed (use st in auto)

lemma cls_parts_runs:
  assumes st: "stage M c0 i P c" and names: "list_all prefix_ok (cls_names zp0 zpl zrds sp0 spl srds ret)"
      "distinct (cls_names zp0 zpl zrds sp0 spl srds ret)" "set (cls_names zp0 zpl zrds sp0 spl srds ret) \<inter> P = {}"
    and w: "0 < w" "rounds_ok w w zrds" "rounds_ok w w srds" "literal_is w (2 ^ w - 1) lit"
    and x: "den M c w x N"
  shows "runs (act_bind (act_bind (act_bind (count_init S w zp0 i) (\<lambda>r.
        act_bind (count_rounds S (smt_bvlshr S) w ''bv0'' i zrds x r) (\<lambda>(r, x).
        count_last S w ''bv0'' zpl ''bv1'' x r i))) (\<lambda>r. count_less_one S w ''clzret_'' r i)) (\<lambda>clzret.
      act_bind (act_bind (act_bind (count_init S w sp0 i) (\<lambda>r.
        act_bind (count_rounds S (smt_bvashr S) w lit i srds x r) (\<lambda>(r, x).
        count_last S w lit spl ''bv1'' x r i))) (\<lambda>r. count_less_one S w ''clsret_'' r i)) (\<lambda>clsret.
      select_by_sign S w ret x clzret clsret i))) c
    (\<lambda>r c'. extends M c c' \<and> valued M c' w r (\<lambda>v. cls w (N v)))"
proof (rule runs_seq [OF zeros_less_runs [OF st _ _ _ w(1) x w(2)]], goal_cases)
  case (4 clzret c1)
  let ?P = "set (''clzret_'' # zp0 # zpl # round_names zrds) \<union> P"
  from 4 obtain A where c1: "stage M c0 i ?P c1" "extends M c c1" "den M c1 w clzret A"
      "\<And>v. sat M c1 v \<Longrightarrow> A v = clz w (N v) - 1" by (auto simp: valued_def)
  note x1 = den_mono [OF x c1(2)]
  show ?case
  proof (rule runs_seq [OF ones_less_runs [OF c1(1) _ _ _ w(1) x1 w(3,4)]], goal_cases)
    case (4 clsret c2)
    then obtain B where c2: "stage M c0 i (set (''clsret_'' # sp0 # spl # round_names srds) \<union> ?P) c2"
        "extends M c1 c2" "den M c2 w clsret B"
        "\<And>v. sat M c2 v \<Longrightarrow> 2 ^ (w - 1) \<le> N v \<Longrightarrow> B v = clz w (bv_not w (N v)) - 1"
      by (auto simp: valued_def)
    note x2 = den_mono [OF x1 c2(2)]
    have "valued M c' w r (\<lambda>v. cls w (N v))"
      if c': "extends M c2 c'" "valued M c' w r (\<lambda>v. if bv_signed w 0 \<le> bv_signed w (N v) then A v else B v)"
      for r c'
    proof (rule valued_cong [OF c'(2)])
      fix v assume "sat M c' v"
      then have v: "sat M c2 v" by (rule extends_sat [OF c'(1)])
      then have v1: "sat M c1 v" by (rule extends_sat [OF c2(2)])
      have N: "N v < 2 ^ w" using den_sat [OF x2 v] by simp
      show "(if bv_signed w 0 \<le> bv_signed w (N v) then A v else B v) = cls w (N v)"
        using c1(4) [OF v1] c2(4) [OF v] bv_signed_nonneg [OF w(1) N]
        by (simp add: cls_eq [OF w(1) N, symmetric] not_less)
    qed
    then show ?case
      using names extends_trans [OF extends_trans [OF c1(2) c2(2)]]
      by (intro runs_weaken [OF select_by_sign_runs [OF c2(1) _ _ w(1) x2 den_mono [OF c1(3) c2(2)] c2(3)]])
        (auto simp: cls_names_def)
  qed (use names in \<open>auto simp: cls_names_def\<close>)
qed (use names in \<open>auto simp: cls_names_def\<close>)

lemma cls64_runs:
  assumes "stage M c0 i P c" "den M c 64 x N" "set (cls_width_names 64) \<inter> P = {}"
  shows "runs (cls64 S x i) c (\<lambda>r c'. extends M c c' \<and> valued M c' 64 r (\<lambda>v. cls 64 (N v)))"
proof -
  have names: "list_all prefix_ok (cls_names ''zret0_'' ''zret7_'' cls64_zrounds ''sret0_'' ''sret7_'' cls64_srounds ''cls64ret_'')"
      "distinct (cls_names ''zret0_'' ''zret7_'' cls64_zrounds ''sret0_'' ''sret7_'' cls64_srounds ''cls64ret_'')"
    by (simp_all add: cls_names_def cls64_zrounds_def cls64_srounds_def prefix_ok_def)
  have free: "set (cls_names ''zret0_'' ''zret7_'' cls64_zrounds ''sret0_'' ''sret7_'' cls64_srounds ''cls64ret_'') \<inter> P = {}"
    using assms(3) by (simp add: cls_width_names_def)
  have lit: "literal_is 64 (2 ^ 64 - 1) ''bv18446744073709551615''" by (simp add: round_checks)
  have "den M c 64 x N" using assms(2) by simp
  from cls_parts_runs [OF assms(1) names free _ cls64_zrounds_ok cls64_srounds_ok lit this]
  show ?thesis
    by (simp add: cls64_def cls64_zround1_def cls64_zround2_def cls64_zround3_def cls64_zround4_def cls64_zround5_def cls64_zround6_def cls64_sround1_def cls64_sround2_def cls64_sround3_def cls64_sround4_def cls64_sround5_def cls64_sround6_def
        cls64_zrounds_def cls64_srounds_def action_simps Let_def)
qed

lemma cls32_runs:
  assumes "stage M c0 i P c" "den M c 32 x N" "set (cls_width_names 32) \<inter> P = {}"
  shows "runs (cls32 S x i) c (\<lambda>r c'. extends M c c' \<and> valued M c' 32 r (\<lambda>v. cls 32 (N v)))"
proof -
  have names: "list_all prefix_ok (cls_names ''zret0_'' ''zret7_'' cls32_zrounds ''sret0_'' ''sret7_'' cls32_srounds ''cls32ret_'')"
      "distinct (cls_names ''zret0_'' ''zret7_'' cls32_zrounds ''sret0_'' ''sret7_'' cls32_srounds ''cls32ret_'')"
    by (simp_all add: cls_names_def cls32_zrounds_def cls32_srounds_def prefix_ok_def)
  have free: "set (cls_names ''zret0_'' ''zret7_'' cls32_zrounds ''sret0_'' ''sret7_'' cls32_srounds ''cls32ret_'') \<inter> P = {}"
    using assms(3) by (simp add: cls_width_names_def)
  have lit: "literal_is 32 (2 ^ 32 - 1) ''bv4294967295''" by (simp add: round_checks)
  have "den M c 32 (smt_extract S 31 0 x) N" using den_extract_full [OF assms(2)] by simp
  from cls_parts_runs [OF assms(1) names free _ cls32_zrounds_ok cls32_srounds_ok lit this]
  show ?thesis
    by (simp add: cls32_def cls32_zround1_def cls32_zround2_def cls32_zround3_def cls32_zround4_def cls32_zround5_def cls32_sround1_def cls32_sround2_def cls32_sround3_def cls32_sround4_def cls32_sround5_def
        cls32_zrounds_def cls32_srounds_def action_simps Let_def)
qed

lemma cls16_runs:
  assumes "stage M c0 i P c" "den M c 16 x N" "set (cls_width_names 16) \<inter> P = {}"
  shows "runs (cls16 S x i) c (\<lambda>r c'. extends M c c' \<and> valued M c' 16 r (\<lambda>v. cls 16 (N v)))"
proof -
  have names: "list_all prefix_ok (cls_names ''zret0_'' ''zret7_'' cls16_zrounds ''sret0_'' ''sret7_'' cls16_srounds ''cls16ret_'')"
      "distinct (cls_names ''zret0_'' ''zret7_'' cls16_zrounds ''sret0_'' ''sret7_'' cls16_srounds ''cls16ret_'')"
    by (simp_all add: cls_names_def cls16_zrounds_def cls16_srounds_def prefix_ok_def)
  have free: "set (cls_names ''zret0_'' ''zret7_'' cls16_zrounds ''sret0_'' ''sret7_'' cls16_srounds ''cls16ret_'') \<inter> P = {}"
    using assms(3) by (simp add: cls_width_names_def)
  have lit: "literal_is 16 (2 ^ 16 - 1) ''bv65535''" by (simp add: round_checks)
  have "den M c 16 (smt_extract S 15 0 x) N" using den_extract_full [OF assms(2)] by simp
  from cls_parts_runs [OF assms(1) names free _ cls16_zrounds_ok cls16_srounds_ok lit this]
  show ?thesis
    by (simp add: cls16_def cls16_zround1_def cls16_zround2_def cls16_zround3_def cls16_zround4_def cls16_sround1_def cls16_sround2_def cls16_sround3_def cls16_sround4_def
        cls16_zrounds_def cls16_srounds_def action_simps Let_def)
qed

lemma cls8_runs:
  assumes "stage M c0 i P c" "den M c 8 x N" "set (cls_width_names 8) \<inter> P = {}"
  shows "runs (cls8 S x i) c (\<lambda>r c'. extends M c c' \<and> valued M c' 8 r (\<lambda>v. cls 8 (N v)))"
proof -
  have names: "list_all prefix_ok (cls_names ''zret0_'' ''zret7_'' cls8_zrounds ''sret0_'' ''sret7_'' cls8_srounds ''cls8ret_'')"
      "distinct (cls_names ''zret0_'' ''zret7_'' cls8_zrounds ''sret0_'' ''sret7_'' cls8_srounds ''cls8ret_'')"
    by (simp_all add: cls_names_def cls8_zrounds_def cls8_srounds_def prefix_ok_def)
  have free: "set (cls_names ''zret0_'' ''zret7_'' cls8_zrounds ''sret0_'' ''sret7_'' cls8_srounds ''cls8ret_'') \<inter> P = {}"
    using assms(3) by (simp add: cls_width_names_def)
  have lit: "literal_is 8 (2 ^ 8 - 1) ''bv255''" by (simp add: round_checks)
  have "den M c 8 (smt_extract S 7 0 x) N" using den_extract_full [OF assms(2)] by simp
  from cls_parts_runs [OF assms(1) names free _ cls8_zrounds_ok cls8_srounds_ok lit this]
  show ?thesis
    by (simp add: cls8_def cls8_zround1_def cls8_zround2_def cls8_zround3_def cls8_sround1_def cls8_sround2_def cls8_sround3_def
        cls8_zrounds_def cls8_srounds_def action_simps Let_def)
qed

lemma cls_to_smt_runs:
  assumes "stage M c0 i P c" "set (cls_width_names width) \<inter> P = {}" "width \<in> {8, 16, 32, 64}" "den M c width x N"
  shows "runs (cls_to_smt S width x i) c
    (\<lambda>r c'. extends M c c' \<and> valued M c' width r (\<lambda>v. cls width (N v)))"
  using assms(2-4) cls8_runs [OF assms(1)] cls16_runs [OF assms(1)]
    cls32_runs [OF assms(1)] cls64_runs [OF assms(1)]
  unfolding cls_to_smt_def by (elim insertE emptyE; simp)

end

section \<open>Property\<close>

text \<open>
  C14. The encoding of count-leading-sign-bits is exact at every supported width: on a context
  that does not declare the routine's own names for the expression's number it runs without failure, only adds definitions, and
  in every model its result is the number of leading bits equal to the sign bit, the sign bit not
  counted.
\<close>
theorem cls_encoding_exact:
  assumes "smt_theory S M" "fresh_names M c (cls_width_names width) i" "closed_ctx M c"
    and "width \<in> {8, 16, 32, 64}" "den M c width x N"
  shows "\<exists>r c'. cls_to_smt S width x i c = Ok (r, c') \<and> extends M c c' \<and>
    (\<forall>v. sat M c' v \<longrightarrow> ev M v r = Some (BV width (cls width (N v))))"
proof -
  obtain P where "stage M c i P c" "set (cls_width_names width) \<inter> P = {}"
    using stage_start [OF assms(2,3)] .
  from smt_theory.cls_to_smt_runs [OF assms(1) this assms(4,5)]
  show ?thesis by (rule runs_exact)
qed

theorem cls_encoding_exact_witness:
  "\<exists>r c'. cls_to_smt sexpr_smt 8 (Atom ''#xe3'') 7 \<lparr>sc_decls = [], sc_facts = []\<rparr> = Ok (r, c') \<and>
     extends sexpr_sem \<lparr>sc_decls = [], sc_facts = []\<rparr> c' \<and>
     (\<forall>v. sat sexpr_sem c' v \<longrightarrow> ev sexpr_sem v r = Some (BV 8 2))"
proof -
  have "den sexpr_sem \<lparr>sc_decls = [], sc_facts = []\<rparr> 8 (smt_atom sexpr_smt ''#xe3'') (\<lambda>_. 227)"
    by (rule sx.den_hex) (simp_all add: round_checks)
  then have "den sexpr_sem \<lparr>sc_decls = [], sc_facts = []\<rparr> 8 (Atom ''#xe3'') (\<lambda>_. 227)"
    by (simp add: sexpr_smt_def)
  moreover have "cls 8 227 = 2" by code_simp
  ultimately show ?thesis
    using cls_encoding_exact [OF sx.smt_theory_axioms, of "\<lparr>sc_decls = [], sc_facts = []\<rparr>" 8 7, OF empty_script]
    by fastforce
qed

end
