(* ===== verification/Encoded_Rev.thy ===== *)
theory Encoded_Rev
  imports Encoded_Count
begin

text \<open>
  Bit reversal, \<^verbatim>\<open>veri/src/encoded/rev.rs\<close>: neighbouring blocks of bits are exchanged, the halves
  first and single bits last. The encoding of \<^verbatim>\<open>Expr::Rev\<close> in \<^verbatim>\<open>veri/src/solver.rs\<close> picks the
  routine by width.
\<close>

section \<open>The routines\<close>

text \<open>The two statement patterns: exchange the halves, and exchange blocks selected by masks.\<close>

definition swap_halves ::
  "('s, 'c) smt \<Rightarrow> nat \<Rightarrow> string \<Rightarrow> string \<Rightarrow> 's \<Rightarrow> nat \<Rightarrow> ('c, 's) action" where
  "swap_halves S w name amount x i =
     act_bind (declare_bv S w name i) (\<lambda>x1.
     act_bind (assert_ignore S (smt_eq S x1
       (smt_bvor S (smt_bvlshr S x (smt_atom S amount)) (smt_bvshl S x (smt_atom S amount))))) (\<lambda>_.
     return x1))"

definition swap_masked ::
  "('s, 'c) smt \<Rightarrow> nat \<Rightarrow> string \<Rightarrow> string \<Rightarrow> string \<Rightarrow> string \<Rightarrow> 's \<Rightarrow> nat \<Rightarrow> ('c, 's) action" where
  "swap_masked S w name hi lo amount x i =
     act_bind (declare_bv S w name i) (\<lambda>x1.
     act_bind (assert_ignore S (smt_eq S x1
       (smt_bvor S (smt_bvlshr S (smt_bvand S x (smt_atom S hi)) (smt_atom S amount))
         (smt_bvshl S (smt_bvand S x (smt_atom S lo)) (smt_atom S amount))))) (\<lambda>_.
     return x1))"

definition rev64 :: "('s, 'c) smt \<Rightarrow> 's \<Rightarrow> nat \<Rightarrow> ('c, 's) action" where
  "rev64 S x i =
     act_bind (swap_halves S 64 ''x1_'' ''#x0000000000000020'' x i) (\<lambda>x1.
     act_bind (swap_masked S 64 ''x2_'' ''#xffff0000ffff0000'' ''#x0000ffff0000ffff'' ''#x0000000000000010'' x1 i) (\<lambda>x2.
     act_bind (swap_masked S 64 ''x3_'' ''#xff00ff00ff00ff00'' ''#x00ff00ff00ff00ff'' ''#x0000000000000008'' x2 i) (\<lambda>x3.
     act_bind (swap_masked S 64 ''x4_'' ''#xf0f0f0f0f0f0f0f0'' ''#x0f0f0f0f0f0f0f0f'' ''#x0000000000000004'' x3 i) (\<lambda>x4.
     act_bind (swap_masked S 64 ''x5_'' ''#xcccccccccccccccc'' ''#x3333333333333333'' ''#x0000000000000002'' x4 i) (\<lambda>x5.
     act_bind (swap_masked S 64 ''rev64ret_'' ''#xaaaaaaaaaaaaaaaa'' ''#x5555555555555555'' ''#x0000000000000001'' x5 i) (\<lambda>rev64ret.
     return rev64ret))))))"

definition rev32 :: "('s, 'c) smt \<Rightarrow> 's \<Rightarrow> nat \<Rightarrow> ('c, 's) action" where
  "rev32 S x i =
     (let x = smt_extract S 31 0 x in
     act_bind (swap_halves S 32 ''x1_'' ''#x00000010'' x i) (\<lambda>x1.
     act_bind (swap_masked S 32 ''x2_'' ''#xff00ff00'' ''#x00ff00ff'' ''#x00000008'' x1 i) (\<lambda>x2.
     act_bind (swap_masked S 32 ''x3_'' ''#xf0f0f0f0'' ''#x0f0f0f0f'' ''#x00000004'' x2 i) (\<lambda>x3.
     act_bind (swap_masked S 32 ''x4_'' ''#xcccccccc'' ''#x33333333'' ''#x00000002'' x3 i) (\<lambda>x4.
     act_bind (swap_masked S 32 ''rev32ret_'' ''#xaaaaaaaa'' ''#x55555555'' ''#x00000001'' x4 i) (\<lambda>rev32ret.
     return rev32ret))))))"

definition rev16 :: "('s, 'c) smt \<Rightarrow> 's \<Rightarrow> nat \<Rightarrow> ('c, 's) action" where
  "rev16 S x i =
     (let x = smt_extract S 15 0 x in
     act_bind (swap_halves S 16 ''x1_'' ''#x0008'' x i) (\<lambda>x1.
     act_bind (swap_masked S 16 ''x2_'' ''#xf0f0'' ''#x0f0f'' ''#x0004'' x1 i) (\<lambda>x2.
     act_bind (swap_masked S 16 ''x3_'' ''#xcccc'' ''#x3333'' ''#x0002'' x2 i) (\<lambda>x3.
     act_bind (swap_masked S 16 ''rev16ret_'' ''#xaaaa'' ''#x5555'' ''#x0001'' x3 i) (\<lambda>rev16ret.
     return rev16ret)))))"

definition rev8 :: "('s, 'c) smt \<Rightarrow> 's \<Rightarrow> nat \<Rightarrow> ('c, 's) action" where
  "rev8 S x i =
     (let x = smt_extract S 7 0 x in
     act_bind (swap_halves S 8 ''x1_'' ''#x04'' x i) (\<lambda>x1.
     act_bind (swap_masked S 8 ''x2_'' ''#xcc'' ''#x33'' ''#x02'' x1 i) (\<lambda>x2.
     act_bind (swap_masked S 8 ''rev8ret_'' ''#xaa'' ''#x55'' ''#x01'' x2 i) (\<lambda>rev8ret.
     return rev8ret))))"

definition rev1 :: "('s, 'c) smt \<Rightarrow> 's \<Rightarrow> nat \<Rightarrow> ('c, 's) action" where
  "rev1 S x i =
     (let x = smt_extract S 0 0 x in
     act_bind (declare_bv S 1 ''rev1ret_'' i) (\<lambda>rev1ret.
     act_bind (assert_ignore S (smt_eq S rev1ret x)) (\<lambda>_.
     return rev1ret)))"

definition rev_to_smt :: "('s, 'c) smt \<Rightarrow> nat \<Rightarrow> 's \<Rightarrow> nat \<Rightarrow> ('c, 's) action" where
  "rev_to_smt S width xe i =
     (if width = 1 then rev1 S xe i
      else if width = 8 then rev8 S xe i
      else if width = 16 then rev16 S xe i
      else if width = 32 then rev32 S xe i
      else if width = 64 then rev64 S xe i
      else (\<lambda>_. Panic))"

section \<open>A sequence of exchanges\<close>

type_synonym swap = "string \<times> string \<times> string \<times> string"

primrec swaps :: "('s, 'c) smt \<Rightarrow> nat \<Rightarrow> nat \<Rightarrow> swap list \<Rightarrow> 's \<Rightarrow> ('c, 's) action" where
  "swaps S w i [] x = return x"
| "swaps S w i (sw # sws) x =
     (case sw of (p, hi, lo, amount) \<Rightarrow> act_bind (swap_masked S w p hi lo amount x i) (swaps S w i sws))"

lemma swaps_unfold:
  "swaps S w i [] = return"
  "swaps S w i ((p, hi, lo, amount) # sws) = (\<lambda>x. act_bind (swap_masked S w p hi lo amount x i) (swaps S w i sws))"
  by (simp_all add: fun_eq_iff)

definition hex :: "string \<Rightarrow> nat" where
  "hex s = number 16 (drop 2 s)"

fun swap_amounts :: "swap list \<Rightarrow> nat list" where
  "swap_amounts [] = []"
| "swap_amounts ((p, hi, lo, amount) # sws) = hex amount # swap_amounts sws"

fun swaps_ok :: "nat \<Rightarrow> swap list \<Rightarrow> bool" where
  "swaps_ok w [] \<longleftrightarrow> True"
| "swaps_ok w ((p, hi, lo, amount) # sws) \<longleftrightarrow>
     hex_is w (hex hi) hi \<and> hex_is w (hex lo) lo \<and> hex_is w (hex amount) amount \<and>
     masks_ok w (hex amount) (hex hi) (hex lo) \<and>
     0 < hex amount \<and> 2 * hex amount dvd w \<and> swaps_ok w sws"

text \<open>A term that has the bits of \<open>N\<close>, moved by \<open>f\<close>.\<close>

definition moved :: "('s, 'c) smt_sem \<Rightarrow> 'c \<Rightarrow> nat \<Rightarrow> (valuation \<Rightarrow> nat) \<Rightarrow> (nat \<Rightarrow> nat) \<Rightarrow> 's \<Rightarrow> bool" where
  "moved M c w N f x \<longleftrightarrow> (\<exists>X. den M c w x X \<and> (\<forall>v. sat M c v \<longrightarrow> permuted w f (N v) (X v)))"

text \<open>The names of a routine, by their prefixes.\<close>

definition rev_names :: "nat \<Rightarrow> string list" where
  "rev_names width =
     (if width = 1 then [''rev1ret_'']
      else if width = 8 then [''x1_'', ''x2_'', ''rev8ret_'']
      else if width = 16 then [''x1_'', ''x2_'', ''x3_'', ''rev16ret_'']
      else if width = 32 then [''x1_'', ''x2_'', ''x3_'', ''x4_'', ''rev32ret_'']
      else [''x1_'', ''x2_'', ''x3_'', ''x4_'', ''x5_'', ''rev64ret_''])"

context smt_theory
begin

lemma swap_masked_runs:
  assumes st: "stage M c0 i P c" "prefix_ok p" "p \<notin> P" "0 < w"
    and hex: "hex_is w h hi" "hex_is w l lo" "hex_is w k amount" "masks_ok w k h l" "\<forall>i<w. swap_at k i < w"
    and x: "moved M c w N f x"
  shows "runs (swap_masked S w p hi lo amount x i) c
    (\<lambda>x' c'. stage M c0 i ({p} \<union> P) c' \<and> extends M c c' \<and> moved M c' w N (f \<circ> swap_at k) x')"
proof -
  obtain X where X: "den M c w x X" "\<And>v. sat M c v \<Longrightarrow> permuted w f (N v) (X v)"
    using x by (auto simp: moved_def)
  note den = den_binary(1) [OF den_binary(4) [OF den_binary(2) [OF X(1) den_hex_is [OF hex(1)]] den_hex_is [OF hex(3)]]
      den_binary(3) [OF den_binary(2) [OF X(1) den_hex_is [OF hex(2)]] den_hex_is [OF hex(3)]]]
  have "moved M c' w N (f \<circ> swap_at k) x'"
    if c': "extends M c c'" "valued M c' w x' (\<lambda>v. (X v AND h) div 2 ^ k OR (X v AND l) * 2 ^ k mod 2 ^ w)" for x' c'
  proof -
    obtain X' where X': "den M c' w x' X'"
        "\<And>v. sat M c' v \<Longrightarrow> X' v = ((X v AND h) div 2 ^ k OR (X v AND l) * 2 ^ k mod 2 ^ w)"
      using c'(2) by (auto simp: valued_def)
    have "permuted w (f \<circ> swap_at k) (N v) (X' v)" if "sat M c' v" for v
    proof -
      have "sat M c v" using extends_sat [OF c'(1) that] .
      from X(2) [OF this] permuted_swap_masked [OF _ hex(4), of "X v"] den_sat [OF X(1) this] hex(5)
      show ?thesis unfolding X'(2) [OF that] by (blast intro: permuted_trans)
    qed
    with X'(1) show ?thesis by (auto simp: moved_def)
  qed
  then show ?thesis
    unfolding swap_masked_def by (intro runs_weaken [OF define_eq_runs [OF st den]]) auto
qed

lemma swap_halves_runs:
  assumes st: "stage M c0 i P c" "prefix_ok p" "p \<notin> P" "0 < w"
    and hex: "hex_is w k amount" "w = 2 * k" and x: "den M c w x N"
  shows "runs (swap_halves S w p amount x i) c
    (\<lambda>x' c'. stage M c0 i ({p} \<union> P) c' \<and> extends M c c' \<and> moved M c' w N (swap_at k) x')"
proof -
  note den = den_binary(1) [OF den_binary(4) [OF x den_hex_is [OF hex(1)]] den_binary(3) [OF x den_hex_is [OF hex(1)]]]
  have "moved M c' w N (swap_at k) x'"
    if c': "extends M c c'" "valued M c' w x' (\<lambda>v. N v div 2 ^ k OR N v * 2 ^ k mod 2 ^ w)" for x' c'
    using c'(2) permuted_swap_halves [OF _ hex(2)] den_sat [OF x extends_sat [OF c'(1)]]
    unfolding moved_def valued_def by metis
  then show ?thesis
    unfolding swap_halves_def by (intro runs_weaken [OF define_eq_runs [OF st den]]) auto
qed

lemma swaps_runs:
  assumes "stage M c0 i P c" "list_all prefix_ok (map fst sws)" "distinct (map fst sws)"
    "set (map fst sws) \<inter> P = {}" "0 < w" "swaps_ok w sws" "moved M c w N f x"
  shows "runs (swaps S w i sws x) c
    (\<lambda>x' c'. extends M c c' \<and> moved M c' w N (f \<circ> foldr swap_at (swap_amounts sws)) x')"
  using assms
proof (induction sws arbitrary: P c f x rule: swap_amounts.induct)
  case (2 p hi lo amount sws)
  have fits: "\<forall>i<w. swap_at (hex amount) i < w" using "2.prems"(6) by (auto intro: swap_at_less)
  show ?case
    unfolding swaps.simps prod.case
  proof (rule runs_seq [OF swap_masked_runs [OF "2.prems"(1) _ _ "2.prems"(5) _ _ _ _ fits "2.prems"(7)]], goal_cases)
    case (7 x1 c1)
    then have "runs (swaps S w i sws x1) c1
      (\<lambda>x' c'. extends M c1 c' \<and> moved M c' w N (f \<circ> swap_at (hex amount) \<circ> foldr swap_at (swap_amounts sws)) x')"
      using "2.prems" by (intro "2.IH" [of "{p} \<union> P"]) (auto simp: comp_def)
    then show ?case
      by (rule runs_weaken) (use 7 in \<open>auto simp: comp_def intro: extends_trans\<close>)
  qed (use "2.prems" in auto)
qed (auto simp: comp_def intro!: runs_return)

text \<open>A whole routine: the halves, then the masked exchanges.\<close>

lemma reversal_runs:
  assumes st: "stage M c0 i P c" "list_all prefix_ok (p # map fst sws)" "distinct (p # map fst sws)" "0 < w"
      "set (p # map fst sws) \<inter> P = {}"
    and sws: "hex_is w k amount" "w = 2 * k" "swaps_ok w sws"
      "w = 2 ^ n" "k # swap_amounts sws = map (\<lambda>j. 2 ^ j) (rev [0..<n])"
    and x: "den M c w x N"
  shows "runs (act_bind (swap_halves S w p amount x i) (swaps S w i sws)) c
    (\<lambda>r c'. extends M c c' \<and> valued M c' w r (\<lambda>v. bit_reverse w (N v)))"
proof (rule runs_seq [OF swap_halves_runs [OF st(1) _ _ st(4) sws(1,2) x]], goal_cases)
  case (3 x1 c1)
  then have "runs (swaps S w i sws x1) c1 (\<lambda>x' c'. extends M c1 c' \<and>
      moved M c' w N (swap_at k \<circ> foldr swap_at (swap_amounts sws)) x')"
    using st sws(3) by (intro swaps_runs [of _ _ "{p} \<union> P"]) auto
  moreover have "valued M c' w r (\<lambda>v. bit_reverse w (N v))"
    if "moved M c' w N (swap_at k \<circ> foldr swap_at (swap_amounts sws)) r" for r c'
  proof -
    have "(swap_at k \<circ> foldr swap_at (swap_amounts sws)) j = w - 1 - j" if "j < w" for j
      using swap_powers_reverse [of j n] that unfolding sws(4) sws(5) [symmetric] by simp
    then show ?thesis using that permuted_reverse unfolding moved_def valued_def by blast
  qed
  ultimately show ?case
    using 3 by (elim runs_weaken) (auto intro: extends_trans)
qed (use st in auto)

lemma rev64_runs:
  assumes "stage M c0 i P c" "den M c 64 x N" "set (rev_names 64) \<inter> P = {}"
  shows "runs (rev64 S x i) c (\<lambda>r c'. extends M c c' \<and> valued M c' 64 r (\<lambda>v. bit_reverse 64 (N v)))"
proof -
  let ?sws = "[(''x2_'', ''#xffff0000ffff0000'', ''#x0000ffff0000ffff'', ''#x0000000000000010''),
      (''x3_'', ''#xff00ff00ff00ff00'', ''#x00ff00ff00ff00ff'', ''#x0000000000000008''),
      (''x4_'', ''#xf0f0f0f0f0f0f0f0'', ''#x0f0f0f0f0f0f0f0f'', ''#x0000000000000004''),
      (''x5_'', ''#xcccccccccccccccc'', ''#x3333333333333333'', ''#x0000000000000002''),
      (''rev64ret_'', ''#xaaaaaaaaaaaaaaaa'', ''#x5555555555555555'', ''#x0000000000000001'')]"
  have names: "list_all prefix_ok (''x1_'' # map fst ?sws)" "distinct (''x1_'' # map fst ?sws)"
      "set (''x1_'' # map fst ?sws) \<inter> P = {}"
    using assms(3) by (simp_all add: round_checks rev_names_def)
  have "hex_is 64 32 ''#x0000000000000020''" "swaps_ok 64 ?sws"
      "32 # swap_amounts ?sws = map (\<lambda>j. 2 ^ j) (rev [0..<6])"
    by (simp_all add: round_checks hex_def masks_ok_def upt_conv_Cons bit_numeral_rec bit_0)
  moreover have "den M c 64 x N" using assms(2) by simp
  ultimately have "runs (act_bind (swap_halves S 64 ''x1_'' ''#x0000000000000020'' x i) (swaps S 64 i ?sws)) c
      (\<lambda>r c'. extends M c c' \<and> valued M c' 64 r (\<lambda>v. bit_reverse 64 (N v)))"
    by (intro reversal_runs [OF assms(1) names(1,2) _ names(3)]) simp_all
  then show ?thesis by (simp add: rev64_def swaps_unfold action_simps Let_def)
qed

lemma rev32_runs:
  assumes "stage M c0 i P c" "den M c 32 x N" "set (rev_names 32) \<inter> P = {}"
  shows "runs (rev32 S x i) c (\<lambda>r c'. extends M c c' \<and> valued M c' 32 r (\<lambda>v. bit_reverse 32 (N v)))"
proof -
  let ?sws = "[(''x2_'', ''#xff00ff00'', ''#x00ff00ff'', ''#x00000008''),
      (''x3_'', ''#xf0f0f0f0'', ''#x0f0f0f0f'', ''#x00000004''),
      (''x4_'', ''#xcccccccc'', ''#x33333333'', ''#x00000002''),
      (''rev32ret_'', ''#xaaaaaaaa'', ''#x55555555'', ''#x00000001'')]"
  have names: "list_all prefix_ok (''x1_'' # map fst ?sws)" "distinct (''x1_'' # map fst ?sws)"
      "set (''x1_'' # map fst ?sws) \<inter> P = {}"
    using assms(3) by (simp_all add: round_checks rev_names_def)
  have "hex_is 32 16 ''#x00000010''" "swaps_ok 32 ?sws"
      "16 # swap_amounts ?sws = map (\<lambda>j. 2 ^ j) (rev [0..<5])"
    by (simp_all add: round_checks hex_def masks_ok_def upt_conv_Cons bit_numeral_rec bit_0)
  moreover have "den M c 32 (smt_extract S 31 0 x) N" using den_extract_full [OF assms(2)] by simp
  ultimately have "runs (act_bind (swap_halves S 32 ''x1_'' ''#x00000010'' (smt_extract S 31 0 x) i) (swaps S 32 i ?sws)) c
      (\<lambda>r c'. extends M c c' \<and> valued M c' 32 r (\<lambda>v. bit_reverse 32 (N v)))"
    by (intro reversal_runs [OF assms(1) names(1,2) _ names(3)]) simp_all
  then show ?thesis by (simp add: rev32_def swaps_unfold action_simps Let_def)
qed

lemma rev16_runs:
  assumes "stage M c0 i P c" "den M c 16 x N" "set (rev_names 16) \<inter> P = {}"
  shows "runs (rev16 S x i) c (\<lambda>r c'. extends M c c' \<and> valued M c' 16 r (\<lambda>v. bit_reverse 16 (N v)))"
proof -
  let ?sws = "[(''x2_'', ''#xf0f0'', ''#x0f0f'', ''#x0004''),
      (''x3_'', ''#xcccc'', ''#x3333'', ''#x0002''),
      (''rev16ret_'', ''#xaaaa'', ''#x5555'', ''#x0001'')]"
  have names: "list_all prefix_ok (''x1_'' # map fst ?sws)" "distinct (''x1_'' # map fst ?sws)"
      "set (''x1_'' # map fst ?sws) \<inter> P = {}"
    using assms(3) by (simp_all add: round_checks rev_names_def)
  have "hex_is 16 8 ''#x0008''" "swaps_ok 16 ?sws"
      "8 # swap_amounts ?sws = map (\<lambda>j. 2 ^ j) (rev [0..<4])"
    by (simp_all add: round_checks hex_def masks_ok_def upt_conv_Cons bit_numeral_rec bit_0)
  moreover have "den M c 16 (smt_extract S 15 0 x) N" using den_extract_full [OF assms(2)] by simp
  ultimately have "runs (act_bind (swap_halves S 16 ''x1_'' ''#x0008'' (smt_extract S 15 0 x) i) (swaps S 16 i ?sws)) c
      (\<lambda>r c'. extends M c c' \<and> valued M c' 16 r (\<lambda>v. bit_reverse 16 (N v)))"
    by (intro reversal_runs [OF assms(1) names(1,2) _ names(3)]) simp_all
  then show ?thesis by (simp add: rev16_def swaps_unfold action_simps Let_def)
qed

lemma rev8_runs:
  assumes "stage M c0 i P c" "den M c 8 x N" "set (rev_names 8) \<inter> P = {}"
  shows "runs (rev8 S x i) c (\<lambda>r c'. extends M c c' \<and> valued M c' 8 r (\<lambda>v. bit_reverse 8 (N v)))"
proof -
  let ?sws = "[(''x2_'', ''#xcc'', ''#x33'', ''#x02''),
      (''rev8ret_'', ''#xaa'', ''#x55'', ''#x01'')]"
  have names: "list_all prefix_ok (''x1_'' # map fst ?sws)" "distinct (''x1_'' # map fst ?sws)"
      "set (''x1_'' # map fst ?sws) \<inter> P = {}"
    using assms(3) by (simp_all add: round_checks rev_names_def)
  have "hex_is 8 4 ''#x04''" "swaps_ok 8 ?sws"
      "4 # swap_amounts ?sws = map (\<lambda>j. 2 ^ j) (rev [0..<3])"
    by (simp_all add: round_checks hex_def masks_ok_def upt_conv_Cons bit_numeral_rec bit_0)
  moreover have "den M c 8 (smt_extract S 7 0 x) N" using den_extract_full [OF assms(2)] by simp
  ultimately have "runs (act_bind (swap_halves S 8 ''x1_'' ''#x04'' (smt_extract S 7 0 x) i) (swaps S 8 i ?sws)) c
      (\<lambda>r c'. extends M c c' \<and> valued M c' 8 r (\<lambda>v. bit_reverse 8 (N v)))"
    by (intro reversal_runs [OF assms(1) names(1,2) _ names(3)]) simp_all
  then show ?thesis by (simp add: rev8_def swaps_unfold action_simps Let_def)
qed

lemma rev1_runs:
  assumes "stage M c0 i P c" "den M c 1 x N" "set (rev_names 1) \<inter> P = {}"
  shows "runs (rev1 S x i) c (\<lambda>r c'. extends M c c' \<and> valued M c' 1 r (\<lambda>v. bit_reverse 1 (N v)))"
proof -
  have "prefix_ok ''rev1ret_''" "''rev1ret_'' \<notin> P"
    using assms(3) by (simp_all add: round_checks rev_names_def)
  note run = define_eq_runs [OF assms(1) this _ den_extract_full [OF assms(2), of 0]]
  have "valued M c' 1 r (\<lambda>v. bit_reverse 1 (N v))"
    if "extends M c c'" "valued M c' 1 r N" for r c'
  proof (rule valued_cong [OF that(2)])
    fix v assume "sat M c' v"
    then have "N v < 2" using den_sat [OF assms(2)] extends_sat [OF that(1)] by fastforce
    then show "N v = bit_reverse 1 (N v)" by (auto simp: bit_reverse_def bit_0 less_2_cases_iff)
  qed
  with run show ?thesis unfolding rev1_def Let_def by (simp add: runs_weaken)
qed

lemma rev_to_smt_runs:
  assumes "stage M c0 i P c" "set (rev_names width) \<inter> P = {}" "width \<in> {1, 8, 16, 32, 64}" "den M c width x N"
  shows "runs (rev_to_smt S width x i) c
    (\<lambda>r c'. extends M c c' \<and> valued M c' width r (\<lambda>v. bit_reverse width (N v)))"
  using assms(2-4) rev1_runs [OF assms(1)] rev8_runs [OF assms(1)] rev16_runs [OF assms(1)]
    rev32_runs [OF assms(1)] rev64_runs [OF assms(1)]
  unfolding rev_to_smt_def by (elim insertE emptyE; simp)

end

section \<open>Property\<close>

text \<open>
  C15. The encoding of bit reversal is exact at every supported width: on a context that does not
  declare the routine's own names for the expression's number it runs without failure, only adds definitions, and in every model
  its result is the operand with its bits in reverse order.
\<close>
theorem rev_encoding_exact:
  assumes "smt_theory S M" "fresh_names M c (rev_names width) i" "closed_ctx M c"
    and "width \<in> {1, 8, 16, 32, 64}" "den M c width x N"
  shows "\<exists>r c'. rev_to_smt S width x i c = Ok (r, c') \<and> extends M c c' \<and>
    (\<forall>v. sat M c' v \<longrightarrow> ev M v r = Some (BV width (bit_reverse width (N v))))"
proof -
  obtain P where "stage M c i P c" "set (rev_names width) \<inter> P = {}"
    using stage_start [OF assms(2,3)] .
  from smt_theory.rev_to_smt_runs [OF assms(1) this assms(4,5)]
  show ?thesis by (rule runs_exact)
qed

theorem rev_encoding_exact_witness:
  "\<exists>r c'. rev_to_smt sexpr_smt 8 (Atom ''#x1d'') 7 \<lparr>sc_decls = [], sc_facts = []\<rparr> = Ok (r, c') \<and>
     extends sexpr_sem \<lparr>sc_decls = [], sc_facts = []\<rparr> c' \<and>
     (\<forall>v. sat sexpr_sem c' v \<longrightarrow> ev sexpr_sem v r = Some (BV 8 184))"
proof -
  have "den sexpr_sem \<lparr>sc_decls = [], sc_facts = []\<rparr> 8 (smt_atom sexpr_smt ''#x1d'') (\<lambda>_. 29)"
    by (rule sx.den_hex) (simp_all add: round_checks)
  then have "den sexpr_sem \<lparr>sc_decls = [], sc_facts = []\<rparr> 8 (Atom ''#x1d'') (\<lambda>_. 29)"
    by (simp add: sexpr_smt_def)
  moreover have "bit_reverse 8 29 = 184"
    by (simp add: bit_reverse_def upt_conv_Cons bit_numeral_rec bit_0)
  ultimately show ?thesis
    using rev_encoding_exact [OF sx.smt_theory_axioms, of "\<lparr>sc_decls = [], sc_facts = []\<rparr>" 8 7, OF empty_script]
    by fastforce
qed

end
