(* ===== verification/Encoded_Popcnt.thy ===== *)
theory Encoded_Popcnt
  imports Encoded_Count
begin

text \<open>
  The population count, \<^verbatim>\<open>veri/src/encoded/popcnt.rs\<close>: the sum of the operand's bits, in as many
  bits as the result needs. The routine is generic in the width.
\<close>

section \<open>The routine\<close>

definition zero_extend :: "('s, 'c) smt \<Rightarrow> nat \<Rightarrow> 's \<Rightarrow> 's" where
  "zero_extend S padding value =
     (if padding = 0 then value
      else smt_list S [smt_list S [smt_und S, smt_atom S ''zero_extend'', smt_numeral S padding], value])"

text \<open>\<^verbatim>\<open>usize::ilog2\<close>, which panics on zero.\<close>

fun floor_log2 :: "nat \<Rightarrow> nat" where
  "floor_log2 n = (if n < 2 then 0 else floor_log2 (n div 2) + 1)"

declare floor_log2.simps [simp del]

definition ilog2 :: "nat \<Rightarrow> (unit, nat) outcome" where
  "ilog2 n = (if n = 0 then Panic else Ok (floor_log2 n))"

text \<open>The cast \<^verbatim>\<open>i as i32\<close> of a bit's index keeps its low 32 bits.\<close>

definition popcnt :: "('s, 'c) smt \<Rightarrow> nat \<Rightarrow> 's \<Rightarrow> nat \<Rightarrow> ('c, 's) action" where
  "popcnt S ty x i c =
     oc_bind (ilog2 ty) (\<lambda>bits_for_result.
     let bits_for_result = bits_for_result + 1;
         bits = map (\<lambda>i. zero_extend S (bits_for_result - 1) (smt_extract S (of_nat i) (of_nat i) x)) [0..<ty]
     in if bits = [] then Panic
        else let initial = last bits;
                 r = foldl (smt_bvadd S) initial (butlast bits)
             in act_bind (declare_bv S bits_for_result (''popcnt_'' @ dec ty @ ''_'') i) (\<lambda>result.
                act_bind (assert_unwrap S (smt_eq S result r)) (\<lambda>_.
                return (zero_extend S (ty - bits_for_result) result))) c)"

definition popcnt_to_smt :: "('s, 'c) smt \<Rightarrow> nat \<Rightarrow> 's \<Rightarrow> nat \<Rightarrow> ('c, 's) action" where
  "popcnt_to_smt S width xe i =
     (if width \<in> {8, 16, 32, 64} then popcnt S width xe i else (\<lambda>_. Panic))"

section \<open>Sums of bits\<close>

lemma floor_log2_bounds: "0 < n \<Longrightarrow> 2 ^ floor_log2 n \<le> n \<and> n < 2 ^ (floor_log2 n + 1)"
proof (induction n rule: floor_log2.induct)
  case (1 n)
  show ?case
  proof (cases "n < 2")
    case False
    then have "2 ^ floor_log2 (n div 2) \<le> n div 2 \<and> n div 2 < 2 ^ (floor_log2 (n div 2) + 1)"
      using 1 by (simp add: div_greater_zero_iff)
    with False show ?thesis by (subst (1 2) floor_log2.simps) auto
  qed (use 1 in \<open>auto simp: floor_log2.simps\<close>)
qed

lemma floor_log2_less: "0 < n \<Longrightarrow> floor_log2 n + 1 \<le> n"
  using floor_log2_bounds [of n] less_exp [of "floor_log2 n"] by linarith

lemma popcount_sum: "popcount w n = (\<Sum>i\<leftarrow>[0..<w]. of_bool (bit n i))"
  unfolding popcount_def by (induction w) auto

lemma popcount_le: "popcount w n \<le> w"
  unfolding popcount_def using length_filter_le [of "bit n" "[0..<w]"] by simp

lemma dec_digits: "list_all (\<lambda>ch. ch \<in> set ''0123456789'') (dec n)"
proof (induction n rule: dec.induct)
  case (1 n)
  have "\<forall>k\<in>set [0..<10]. char_of (48 + k :: nat) \<in> set ''0123456789''" by code_simp
  then have "char_of (48 + k :: nat) \<in> set ''0123456789''" if "k < 10" for k using that by fastforce
  with 1 show ?case by (subst dec.simps) (simp del: list.set)
qed

lemma popcnt_prefix: "prefix_ok (''popcnt_'' @ dec w @ ''_'')"
proof -
  have "set ''0123456789'' \<subseteq> set ''abcdefghijklmnopqrstuvwxyz0123456789_''" by code_simp
  with dec_digits [of w] have "list_all (\<lambda>ch. ch \<in> set ''abcdefghijklmnopqrstuvwxyz0123456789_'') (dec w)"
    unfolding list_all_iff by blast
  moreover have "list_all (\<lambda>ch. ch \<in> set ''abcdefghijklmnopqrstuvwxyz0123456789_'') ''popcnt__''" by code_simp
  ultimately show ?thesis by (simp add: prefix_ok_def butlast_append del: list.set) simp
qed

lemma sint_index: "i < 2 ^ 31 \<Longrightarrow> sint (of_nat i :: i32) = int i"
  by (simp add: signed_of_nat signed_take_bit_int_eq_self)

context smt_theory
begin

lemma den_pad: "den M c w a f \<Longrightarrow> u = w + k \<Longrightarrow> den M c u (zero_extend S k a) f"
  using den_zero_extend [of c w a f k] by (simp add: zero_extend_def)

lemma den_sum:
  assumes "den M c w a F" "\<And>i. i \<in> set is \<Longrightarrow> den M c w (t i) (G i)"
  shows "den M c w (foldl (smt_bvadd S) a (map t is)) (\<lambda>v. (F v + (\<Sum>i\<leftarrow>is. G i v)) mod 2 ^ w)"
  using assms
proof (induction "is" arbitrary: a F)
  case Nil
  then show ?case by (auto simp: den_def intro: local_comp)
next
  case (Cons j js)
  from Cons.IH [OF den_binary(6) [OF Cons.prems(1) Cons.prems(2) [of j]] Cons.prems(2)]
  show ?case by (simp add: mod_add_left_eq add.assoc)
qed

lemma den_bit:
  assumes "den M c w x N" "i < w" "i < 2 ^ 31"
  shows "den M c (k + 1) (zero_extend S k (smt_extract S (of_nat i) (of_nat i) x)) (\<lambda>v. of_bool (bit (N v) i))"
proof -
  have "n div 2 ^ i mod 2 ^ 1 = of_bool (bit n i)" for n :: nat
    by (simp only: bit_iff_odd mod_2_eq_odd power_one_right)
  moreover have "sint (of_nat i :: i32) = int i" using assms(3) by (rule sint_index)
  ultimately have "den M c 1 (smt_extract S (of_nat i) (of_nat i) x) (\<lambda>v. of_bool (bit (N v) i))"
    using den_extract [OF assms(1), of "of_nat i" "of_nat i" 1] assms(2) by simp
  then show ?thesis by (rule den_pad) simp
qed

lemma popcnt_runs:
  assumes "stage M c0 i P c" "''popcnt_'' @ dec w @ ''_'' \<notin> P" "0 < w" "den M c w x N" "w \<le> 2 ^ 31"
  shows "runs (popcnt S w x i) c (\<lambda>r c'. extends M c c' \<and> valued M c' w r (\<lambda>v. popcount w (N v)))"
proof -
  let ?b = "floor_log2 w + 1" and ?t = "\<lambda>j. zero_extend S (floor_log2 w) (smt_extract S (of_nat j) (of_nat j) x)"
  obtain u where u: "w = Suc u" using assms(3) by (cases w) auto
  have "den M c ?b (foldl (smt_bvadd S) (?t u) (map ?t [0..<u]))
      (\<lambda>v. (of_bool (bit (N v) u) + (\<Sum>j\<leftarrow>[0..<u]. of_bool (bit (N v) j))) mod 2 ^ ?b)"
    by (rule den_sum; rule den_bit [OF assms(4)]) (use u assms(5) in auto)
  moreover have "of_bool (bit n u) + (\<Sum>j\<leftarrow>[0..<u]. of_bool (bit n j)) = popcount w n" for n
    by (simp add: popcount_sum u)
  moreover have "popcount w n mod 2 ^ ?b = popcount w n" for n
    using popcount_le [of w n] floor_log2_bounds [OF assms(3)] by (intro mod_less) linarith
  ultimately have "den M c ?b (foldl (smt_bvadd S) (?t u) (map ?t [0..<u])) (\<lambda>v. popcount w (N v))"
    by simp
  note run = define_eq_with_runs [OF disjI2 [OF refl] assms(1) popcnt_prefix [of w] assms(2) _ this]
  have pad: "valued M c' w (zero_extend S (w - ?b) r) G" if "valued M c' ?b r G" for c' r G
    using that den_pad [of c' ?b r _ w "w - ?b"] floor_log2_less [OF assms(3)] by (auto simp: valued_def)
  have "popcnt S w x i c = act_bind (act_bind (declare_bv S ?b (''popcnt_'' @ dec w @ ''_'') i) (\<lambda>r.
      act_bind (assert_unwrap S (smt_eq S r (foldl (smt_bvadd S) (?t u) (map ?t [0..<u])))) (\<lambda>_. return r)))
      (\<lambda>r. return (zero_extend S (w - ?b) r)) c"
    using assms(3) by (simp add: popcnt_def ilog2_def u action_simps)
  moreover have "runs (act_bind (act_bind (declare_bv S ?b (''popcnt_'' @ dec w @ ''_'') i) (\<lambda>r.
      act_bind (assert_unwrap S (smt_eq S r (foldl (smt_bvadd S) (?t u) (map ?t [0..<u])))) (\<lambda>_. return r)))
      (\<lambda>r. return (zero_extend S (w - ?b) r))) c
      (\<lambda>r c'. extends M c c' \<and> valued M c' w r (\<lambda>v. popcount w (N v)))"
    by (rule runs_seq [OF run]) (use pad in \<open>auto intro!: runs_return\<close>)
  ultimately show ?thesis by (simp add: runs_def)
qed

end

section \<open>Property\<close>

text \<open>
  C16. The encoding of the population count is exact at every width from 1 to 2^31, the widths
  whose bit indices the cast to 32-bit integers keeps. On a context that does not declare the
  routine's name for this width and number it runs without failure, only adds a definition, and in every model its result is the number of one bits of
  the operand. In particular the sum never wraps in the bits the routine computes for it.
\<close>
theorem popcnt_encoding_exact:
  assumes "smt_theory S M" "fresh_names M c [''popcnt_'' @ dec width @ ''_''] i" "closed_ctx M c"
    and "0 < width" "width \<le> 2 ^ 31" "den M c width x N"
  shows "\<exists>r c'. popcnt S width x i c = Ok (r, c') \<and> extends M c c' \<and>
    (\<forall>v. sat M c' v \<longrightarrow> ev M v r = Some (BV width (popcount width (N v))))"
proof -
  obtain P where P: "stage M c i P c" "set [''popcnt_'' @ dec width @ ''_''] \<inter> P = {}"
    using stage_start [OF assms(2,3)] .
  from smt_theory.popcnt_runs [OF assms(1) P(1) _ assms(4,6,5)] P(2)
  show ?thesis by (intro runs_exact) simp
qed

theorem popcnt_encoding_exact_witness:
  "\<exists>r c'. popcnt sexpr_smt 8 (Atom ''#xb5'') 7 \<lparr>sc_decls = [], sc_facts = []\<rparr> = Ok (r, c') \<and>
     extends sexpr_sem \<lparr>sc_decls = [], sc_facts = []\<rparr> c' \<and>
     (\<forall>v. sat sexpr_sem c' v \<longrightarrow> ev sexpr_sem v r = Some (BV 8 5))"
proof -
  have "den sexpr_sem \<lparr>sc_decls = [], sc_facts = []\<rparr> 8 (smt_atom sexpr_smt ''#xb5'') (\<lambda>_. 181)"
    by (rule sx.den_hex) (simp_all add: round_checks)
  then have "den sexpr_sem \<lparr>sc_decls = [], sc_facts = []\<rparr> 8 (Atom ''#xb5'') (\<lambda>_. 181)"
    by (simp add: sexpr_smt_def)
  moreover have "popcount 8 181 = 5" by code_simp
  ultimately show ?thesis
    using popcnt_encoding_exact [OF sx.smt_theory_axioms, of "\<lparr>sc_decls = [], sc_facts = []\<rparr>" 8 7, OF empty_script]
    by fastforce
qed

end
