(* ===== verification/Encoded_Names.thy ===== *)
theory Encoded_Names
  imports Encoded_Clz Encoded_Cls Encoded_Rev Encoded_Popcnt
begin

text \<open>
  The names of the encodings' constants. Every encoding numbers its constants by the operand, so
  one operand may be counted and reversed only if the prefixes of the two routines differ.
\<close>

context smt_theory
begin

lemma rev_declared_panics:
  assumes "width \<in> {8, 16, 32, 64}" "''x1_'' @ dec i \<in> declared M c"
  shows "rev_to_smt S width x i c = Panic"
proof -
  have "declare_bv S w ''x1_'' i c = Panic" for w
    using declare_again [OF assms(2), of "bv_sort S w"] by (auto simp: declare_bv_def declare_const_def)
  then have "swap_halves S w ''x1_'' amount y i c = Panic" for w amount y
    by (simp add: swap_halves_def act_bind_def)
  with assms(1) show ?thesis
    by (elim insertE emptyE)
      (simp_all add: rev_to_smt_def rev64_def rev32_def rev16_def rev8_def act_bind_def Let_def)
qed

lemma clz_then_rev_panics:
  assumes "stage M c0 i P c" "set (clz_names width) \<inter> P = {}" "width \<in> {8, 16, 32, 64}" "den M c width x N"
  shows "\<exists>r c'. clz_to_smt S width x i c = Ok (r, c') \<and> rev_to_smt S width x i c' = Panic"
proof -
  have "width \<in> {1, 8, 16, 32, 64}" using assms(3) by auto
  from clz_to_smt_runs [OF assms(1,2) this assms(4)]
  obtain r c' where "clz_to_smt S width x i c = Ok (r, c')" "''x1_'' @ dec i \<in> declared M c'"
    using assms(3) unfolding runs_def by auto
  with rev_declared_panics [OF assms(3)] show ?thesis by blast
qed

end

section \<open>Property\<close>

text \<open>
  C17. The encodings of leading zeros and of bit reversal clash at each of the
  widths 8, 16, 32 and 64 (width 1 is not covered: there the routines use other names). On a context that does not declare the names of
  the leading-zeros routine for the operand's number, and in which the operand denotes a bit vector,
  encoding the leading zeros succeeds; encoding the reversal of the same operand after it declares
  the constant x1 of that number a second time, and the unwrapped error of the solver library panics.
\<close>
theorem clz_rev_names_clash:
  assumes "smt_theory S M" "fresh_names M c (clz_names width) i" "closed_ctx M c"
    and "width \<in> {8, 16, 32, 64}" "den M c width x N"
  shows "\<exists>r c'. clz_to_smt S width x i c = Ok (r, c') \<and> rev_to_smt S width x i c' = Panic"
proof -
  obtain P where "stage M c i P c" "set (clz_names width) \<inter> P = {}"
    using stage_start [OF assms(2,3)] .
  from smt_theory.clz_then_rev_panics [OF assms(1) this assms(4,5)] show ?thesis .
qed

theorem clz_rev_names_clash_witness:
  "\<exists>r c'. clz_to_smt sexpr_smt 8 (Atom ''#x1d'') 7 \<lparr>sc_decls = [], sc_facts = []\<rparr> = Ok (r, c') \<and>
     rev_to_smt sexpr_smt 8 (Atom ''#x1d'') 7 c' = Panic"
proof -
  have "den sexpr_sem \<lparr>sc_decls = [], sc_facts = []\<rparr> 8 (smt_atom sexpr_smt ''#x1d'') (\<lambda>_. 29)"
    by (rule sx.den_hex) (simp_all add: round_checks)
  then have "den sexpr_sem \<lparr>sc_decls = [], sc_facts = []\<rparr> 8 (Atom ''#x1d'') (\<lambda>_. 29)"
    by (simp add: sexpr_smt_def)
  then show ?thesis
    by (intro clz_rev_names_clash [OF sx.smt_theory_axioms])
      (simp_all add: empty_script)
qed

end
