(* ===== verification/Isle_Disjointsets.thy ===== *)
theory Isle_Disjointsets
  imports Arrival_Prelude
begin

text \<open>
  \<^verbatim>\<open>isle/src/disjointsets.rs\<close>: disjoint sets as a forest of parent links with ranks. The loops that
  follow the links are partial functions, so that they return is a theorem. The abstraction of
  a forest is the relation \<open>same\<close> of being in one set; every operation is shown against it.
\<close>

section \<open>The data structure\<close>

text \<open>\<^verbatim>\<open>DisjointSets\<close>: each item's parent, and its rank, a \<^verbatim>\<open>u8\<close>.\<close>

type_synonym 't forest = "('t, 't \<times> nat) hashmap"

definition saturating_add_u8 :: "nat \<Rightarrow> nat \<Rightarrow> nat" where
  "saturating_add_u8 m n = min 255 (m + n)"

text \<open>The outer option is the end of the loop; indexing a missing key panics.\<close>

partial_function (option) find_mut ::
  "'t forest \<Rightarrow> 't \<Rightarrow> ('t option \<times> 't forest) run" where
  "find_mut parent x =
     (case hm_get parent x of
        None \<Rightarrow> Some (Ok (None, parent))
      | Some (p, rank) \<Rightarrow>
          if p = x then Some (Ok (Some x, parent))
          else (case hm_get parent p of
              None \<Rightarrow> Some Panic
            | Some (grandparent, _) \<Rightarrow> find_mut (hm_insert x (grandparent, rank) parent) grandparent))"

partial_function (option) find_root :: "'t forest \<Rightarrow> 't \<Rightarrow> 't option option" where
  "find_root parent x =
     (case hm_get parent x of
        None \<Rightarrow> Some None
      | Some (p, _) \<Rightarrow> if p = x then Some (Some x) else find_root parent p)"

text \<open>The node of the representative; an item in no set becomes one, of rank zero.\<close>

definition root_node :: "'t forest \<Rightarrow> 't \<Rightarrow> (('t \<times> nat) \<times> 't forest) run" where
  "root_node parent x =
     after (find_mut parent x) (\<lambda>(found, parent).
       case found of
         Some r \<Rightarrow> (case hm_get parent r of None \<Rightarrow> Some Panic | Some node \<Rightarrow> Some (Ok (node, parent)))
       | None \<Rightarrow> Some (Ok ((x, 0), hm_insert x (x, 0) parent)))"

definition link :: "'t \<times> nat \<Rightarrow> 't \<times> nat \<Rightarrow> 't forest \<Rightarrow> (unit, 't forest) outcome" where
  "link x y parent =
     (let (x, y) = (if snd x < snd y then (y, x) else (x, y)) in
      case hm_get parent (fst y) of
        None \<Rightarrow> Panic
      | Some (_, y_rank) \<Rightarrow>
          let parent = hm_insert (fst y) (fst x, y_rank) parent in
          if snd x = snd y
          then (case hm_get parent (fst x) of
              None \<Rightarrow> Panic
            | Some (p, x_rank) \<Rightarrow> Ok (hm_insert (fst x) (p, saturating_add_u8 x_rank 1) parent))
          else Ok parent)"

definition merge :: "'t forest \<Rightarrow> 't \<Rightarrow> 't \<Rightarrow> 't forest run" where
  "merge parent x y =
     (if x = y then Some Panic
      else after (root_node parent x) (\<lambda>(x, parent).
           after (root_node parent y) (\<lambda>(y, parent).
           if x = y then Some (Ok parent) else Some (link x y parent))))"

definition in_same_set :: "'t forest \<Rightarrow> 't \<Rightarrow> 't \<Rightarrow> bool option" where
  "in_same_set parent x y =
     (case (find_root parent x, find_root parent y) of
        (Some (Some r), Some (Some s)) \<Rightarrow> Some (r = s)
      | (Some _, Some _) \<Rightarrow> Some False
      | _ \<Rightarrow> None)"

text \<open>\<^verbatim>\<open>Vec::retain\<close> with a closure that updates the forest.\<close>

fun retain_set :: "'t \<Rightarrow> 't list \<Rightarrow> 't forest \<Rightarrow> ('t list \<times> 't forest) run" where
  "retain_set x [] parent = Some (Ok ([], parent))"
| "retain_set x (y # ys) parent =
     after (find_mut parent y) (\<lambda>(found, parent).
       case found of
         None \<Rightarrow> Some Panic
       | Some r \<Rightarrow> after (retain_set x ys parent) (\<lambda>(zs, parent). Some (Ok (if r = x then y # zs else zs, parent))))"

definition remove_set_of :: "'t::linorder forest \<Rightarrow> 't \<Rightarrow> ('t list \<times> 't forest) run" where
  "remove_set_of parent x =
     after (find_mut parent x) (\<lambda>(found, parent).
       case found of
         None \<Rightarrow> Some (Ok ([], parent))
       | Some x \<Rightarrow> after (retain_set x (map fst parent) parent) (\<lambda>(members, parent).
           Some (Ok (sort members, foldl (\<lambda>parent y. hm_remove y parent) parent members))))"

definition is_empty :: "'t forest \<Rightarrow> bool" where
  "is_empty parent \<longleftrightarrow> parent = []"

definition len :: "'t forest \<Rightarrow> nat" where
  "len parent = length parent"

section \<open>Roots\<close>

text \<open>\<open>path m n x r\<close>: the links of \<open>m\<close> lead from \<open>x\<close> to the representative \<open>r\<close> in \<open>n\<close> steps.\<close>

inductive path :: "'t forest \<Rightarrow> nat \<Rightarrow> 't \<Rightarrow> 't \<Rightarrow> bool" for m where
  here: "hm_get m x = Some (x, k) \<Longrightarrow> path m 0 x x"
| up: "hm_get m x = Some (p, k) \<Longrightarrow> p \<noteq> x \<Longrightarrow> path m n p r \<Longrightarrow> path m (Suc n) x r"

inductive_cases path_0E [elim!]: "path m 0 x r"
inductive_cases path_SucE [elim!]: "path m (Suc n) x r"

definition root :: "'t forest \<Rightarrow> 't \<Rightarrow> 't \<Rightarrow> bool" where
  "root m x r \<longleftrightarrow> (\<exists>n. path m n x r)"

definition items :: "'t forest \<Rightarrow> 't set" where
  "items m = dom (hm_get m)"

text \<open>The invariant: keys are unique and the links of every item end at a representative.\<close>

definition forest_ok :: "'t forest \<Rightarrow> bool" where
  "forest_ok m \<longleftrightarrow> hm_ok m \<and> (\<forall>x\<in>items m. \<exists>r. root m x r)"

text \<open>The abstraction of a forest.\<close>

definition same :: "'t forest \<Rightarrow> 't \<Rightarrow> 't \<Rightarrow> bool" where
  "same m x y \<longleftrightarrow> (\<exists>r. root m x r \<and> root m y r)"

text \<open>Sets have at least two members.\<close>

definition no_singleton :: "'t forest \<Rightarrow> bool" where
  "no_singleton m \<longleftrightarrow> (\<forall>x\<in>items m. \<exists>y. y \<noteq> x \<and> same m x y)"

lemma path_functional: "path m n x r \<Longrightarrow> path m k x s \<Longrightarrow> n = k \<and> r = s"
proof (induction arbitrary: k rule: path.induct)
  case (here x j)
  then show ?case by (cases k) auto
next
  case (up x p j n r)
  then show ?case by (cases k) auto
qed

lemma root_functional: "root m x r \<Longrightarrow> root m x s \<Longrightarrow> r = s"
  using path_functional unfolding root_def by metis

lemma path_root: "path m n x r \<Longrightarrow> \<exists>k. hm_get m r = Some (r, k)"
  by (induction rule: path.induct) auto

lemma root_root: "root m x r \<Longrightarrow> (\<exists>k. hm_get m r = Some (r, k)) \<and> root m r r"
  using path_root path.here unfolding root_def by metis

lemma root_item: "root m x r \<Longrightarrow> x \<in> items m"
  unfolding root_def items_def by (auto elim: path.cases)

lemma ok_root: "forest_ok m \<Longrightarrow> x \<in> items m \<Longrightarrow> \<exists>r. root m x r"
  by (simp add: forest_ok_def)

lemma root_eqI:
  assumes "forest_ok m" "items m' = items m" "\<And>a r. root m a r \<Longrightarrow> root m' a r"
  shows "root m' = root m"
proof (intro ext iffI)
  fix a r assume a: "root m' a r"
  then obtain s where "root m a s" using root_item [OF a] ok_root [OF assms(1)] assms(2) by auto
  then show "root m a r" using assms(3) root_functional [OF a] by blast
qed (rule assms(3))

section \<open>Finding a representative\<close>

text \<open>What an update may do to the links that nobody sees.\<close>

definition tidied :: "'t forest \<Rightarrow> 't forest \<Rightarrow> bool" where
  "tidied m m' \<longleftrightarrow> forest_ok m' \<and> root m' = root m \<and> items m' = items m \<and>
     (\<forall>r k. hm_get m r = Some (r, k) \<longrightarrow> hm_get m' r = Some (r, k))"

lemma tidied_refl: "forest_ok m \<Longrightarrow> tidied m m"
  by (simp add: tidied_def)

lemma tidied_trans: "tidied m m' \<Longrightarrow> tidied m' m'' \<Longrightarrow> tidied m m''"
  by (simp add: tidied_def)

lemma find_root_path: "path m n x r \<Longrightarrow> find_root m x = Some (Some r)"
  by (induction rule: path.induct) (simp_all add: find_root.simps)

lemma find_root_none: "x \<notin> items m \<Longrightarrow> find_root m x = Some None"
  by (subst find_root.simps) (auto simp: items_def split: option.splits)

lemma find_mut_none: "x \<notin> items m \<Longrightarrow> find_mut m x = Some (Ok (None, m))"
  by (subst find_mut.simps) (auto simp: items_def split: option.splits)

text \<open>Path halving: linking an item to its grandparent keeps the roots and lengthens no path.\<close>

lemma path_halving:
  assumes "hm_get m x = Some (p, k)" "p \<noteq> x" "hm_get m p = Some (g, j)"
  shows "path m n y r \<Longrightarrow> \<exists>n'\<le>n. path (hm_insert x (g, k) m) n' y r"
proof (induction n arbitrary: y rule: less_induct)
  case (less n)
  let ?m = "hm_insert x (g, k) m"
  show ?case
  proof (cases "y = x")
    case False
    from less.prems show ?thesis
    proof (cases rule: path.cases)
      case here
      with False show ?thesis by (auto intro: path.here)
    next
      case (up q i n1)
      with less.IH [of n1 q] obtain n' where "n' \<le> n1" "path ?m n' q r" by auto
      with up False show ?thesis by (intro exI [of _ "Suc n'"]) (auto intro: path.up)
    qed
  next
    case True
    with less.prems assms(1,2) obtain n1 where n1: "n = Suc n1" "path m n1 p r" by (auto elim: path.cases)
    show ?thesis
    proof (cases n1)
      case 0
      with n1 assms have "path ?m 0 p r" "g = p" by (auto intro: path.here)
      then have "path ?m (Suc 0) x r" using assms by (intro path.up [of ?m x g k 0 r]) simp_all
      with n1 True show ?thesis by (intro exI [of _ "Suc 0"]) simp
    next
      case (Suc n2)
      with n1 assms have g: "path m n2 g r" by auto
      have "g \<noteq> x" using path_functional [OF g, of n r] less.prems True n1(1) Suc
        by (metis Suc_n_not_le_n le_Suc_eq)
      moreover obtain n' where "n' \<le> n2" "path ?m n' g r" using less.IH [OF _ g] n1 Suc by auto
      ultimately show ?thesis using True n1 Suc by (intro exI [of _ "Suc n'"]) (auto intro: path.up)
    qed
  qed
qed

lemma halving_tidied:
  assumes "forest_ok m" "hm_get m x = Some (p, k)" "p \<noteq> x" "hm_get m p = Some (g, j)"
  shows "tidied m (hm_insert x (g, k) m)"
proof -
  have items: "items (hm_insert x (g, k) m) = items m" using assms(2) by (auto simp: items_def split: if_splits)
  have "root (hm_insert x (g, k) m) = root m"
    using path_halving [OF assms(2-4)] by (intro root_eqI [OF assms(1) items]) (metis root_def)
  then show ?thesis using assms by (auto simp: tidied_def forest_ok_def items)
qed

lemma find_mut_path:
  "path m n x r \<Longrightarrow> forest_ok m \<Longrightarrow>
     \<exists>m'. find_mut m x = Some (Ok (Some r, m')) \<and> tidied m m'"
proof (induction n arbitrary: m x rule: less_induct)
  case (less n)
  from less.prems(1) show ?case
  proof (cases rule: path.cases)
    case (here k)
    then show ?thesis using tidied_refl [OF less.prems(2)] by (subst find_mut.simps) simp
  next
    case (up p k n1)
    obtain g j where g: "hm_get m p = Some (g, j)" using up(4) by (auto elim: path.cases)
    let ?m = "hm_insert x (g, k) m"
    note h = halving_tidied [OF less.prems(2) up(2,3) g]
    have "\<exists>i<n. path m i g r"
    proof (cases n1)
      case 0
      then show ?thesis using up g by (auto intro: path.here)
    next
      case (Suc n2)
      then show ?thesis using up g by (intro exI [of _ n2]) auto
    qed
    then obtain i where "i < n" "path ?m i g r"
      using path_halving [OF up(2,3) g] by (meson le_less_trans)
    with less.IH [of i ?m g] h obtain m' where "find_mut ?m g = Some (Ok (Some r, m'))" "tidied ?m m'"
      by (auto simp: tidied_def)
    with tidied_trans [OF h] show ?thesis using up g by (subst find_mut.simps) auto
  qed
qed

lemma find_mut_root:
  "root m x r \<Longrightarrow> forest_ok m \<Longrightarrow>
     \<exists>m'. find_mut m x = Some (Ok (Some r, m')) \<and> tidied m m'"
  using find_mut_path by (metis root_def)

lemma root_node_present:
  assumes "forest_ok m" "root m x r"
  shows "\<exists>k m'. root_node m x = Some (Ok ((r, k), m')) \<and> hm_get m' r = Some (r, k) \<and> tidied m m'"
proof -
  obtain m' where m': "find_mut m x = Some (Ok (Some r, m'))" "tidied m m'"
    using find_mut_root [OF assms(2,1)] by blast
  moreover obtain k where "hm_get m' r = Some (r, k)"
    using root_root [of m' x r] assms(2) m'(2) by (auto simp: tidied_def)
  ultimately show ?thesis by (simp add: root_node_def after_def)
qed

section \<open>Merging\<close>

text \<open>How the roots move when some of them get a parent.\<close>

lemma root_move:
  assumes "\<And>a k. hm_get m a = Some (a, k) \<Longrightarrow> root m' a (f a)"
    and "\<And>a p k. hm_get m a = Some (p, k) \<Longrightarrow> p \<noteq> a \<Longrightarrow> \<exists>k'. hm_get m' a = Some (p, k')"
  shows "root m a r \<Longrightarrow> root m' a (f r)"
proof -
  have "path m n a r \<Longrightarrow> root m' a (f r)" for n
    by (induction rule: path.induct) (use assms in \<open>force simp: root_def intro: path.up\<close>)+
  then show "root m a r \<Longrightarrow> root m' a (f r)" by (auto simp: root_def)
qed

lemma root_self: "root m x x \<longleftrightarrow> (\<exists>k. hm_get m x = Some (x, k))"
  using root_root [of m x x] by (auto simp: root_def intro: path.here)

lemma root_up: "hm_get m x = Some (p, k) \<Longrightarrow> p \<noteq> x \<Longrightarrow> root m p r \<Longrightarrow> root m x r"
  unfolding root_def by (meson path.up)

lemma root_node_absent:
  assumes "forest_ok m" "x \<notin> items m"
  shows "\<exists>m'. root_node m x = Some (Ok ((x, 0), m')) \<and> hm_get m' x = Some (x, 0) \<and>
    forest_ok m' \<and> (\<forall>a r. root m' a r \<longleftrightarrow> root m a r \<or> a = x \<and> r = x) \<and> items m' = insert x (items m) \<and>
    (\<forall>a. a \<noteq> x \<longrightarrow> hm_get m' a = hm_get m a)"
proof -
  let ?m = "hm_insert x (x, 0) m"
  have x: "root ?m x x" by (simp add: root_self)
  have mono: "root m a r \<Longrightarrow> root ?m a r" for a r
    by (rule root_move [where f = "\<lambda>r. r"]) (use assms(2) in \<open>auto simp: items_def root_self\<close>)
  have items: "items ?m = insert x (items m)" by (auto simp: items_def split: if_splits)
  have root: "root ?m a r \<longleftrightarrow> root m a r \<or> a = x \<and> r = x" for a r
  proof
    assume a: "root ?m a r"
    then have "a = x \<or> a \<in> items m" using root_item [OF a] items by auto
    then show "root m a r \<or> a = x \<and> r = x"
      using a x mono ok_root [OF assms(1), of a] root_functional by metis
  qed (use x mono in auto)
  have "forest_ok ?m" using assms(1) items root by (auto simp: forest_ok_def)
  then show ?thesis
    using items root find_mut_none [OF assms(2)] by (simp add: root_node_def after_def)
qed

lemma root_node_ok:
  assumes "forest_ok m"
  shows "\<exists>r k m'. root_node m x = Some (Ok ((r, k), m')) \<and> hm_get m' r = Some (r, k) \<and> root m' x r \<and>
    forest_ok m' \<and> items m' = insert x (items m) \<and>
    (\<forall>a s. root m' a s \<longleftrightarrow> root m a s \<or> x \<notin> items m \<and> a = x \<and> s = x) \<and>
    (\<forall>r k. hm_get m r = Some (r, k) \<longrightarrow> hm_get m' r = Some (r, k))"
proof (cases "x \<in> items m")
  case True
  then obtain r where r: "root m x r" using ok_root [OF assms] by blast
  from root_node_present [OF assms r] show ?thesis
    using True r unfolding tidied_def by (metis insert_absorb)
next
  case False
  from root_node_absent [OF assms this] obtain m' where "root_node m x = Some (Ok ((x, 0), m'))"
    "hm_get m' x = Some (x, 0)" "forest_ok m'" "\<And>a r. root m' a r \<longleftrightarrow> root m a r \<or> a = x \<and> r = x"
    "items m' = insert x (items m)" "\<And>a. a \<noteq> x \<Longrightarrow> hm_get m' a = hm_get m a"
    by blast
  moreover have "hm_get m r \<noteq> None \<Longrightarrow> r \<noteq> x" for r using False by (auto simp: items_def)
  ultimately show ?thesis using False by (intro exI [of _ x] exI [of _ 0] exI [of _ m']) auto
qed

lemma link_roots:
  assumes "forest_ok m" "hm_get m x = Some (x, j)" "hm_get m y = Some (y, k)" "x \<noteq> y" "m' = hm_insert y (x, k) m"
  shows "forest_ok m'" "items m' = items m" "root m' a r \<longleftrightarrow> (if root m a y then r = x else root m a r)"
proof -
  have x: "root m' x x" using assms by (simp add: root_self)
  have "root m' y x" by (rule root_up [OF _ assms(4) x]) (simp add: assms(5))
  with x have mono: "root m a r \<Longrightarrow> root m' a (if r = y then x else r)" for a r
    by (rule_tac root_move [where f = "\<lambda>r. if r = y then x else r"])
      (use assms in \<open>auto simp: root_self\<close>)
  show items: "items m' = items m" using assms(3,5) by (auto simp: items_def split: if_splits)
  show "root m' a r \<longleftrightarrow> (if root m a y then r = x else root m a r)"
    using mono [of a] root_functional [of m a] root_functional [of m' a] root_item [of m' a r] ok_root [OF assms(1), of a] items
    by (smt (verit, best))
  show "forest_ok m'"
    using assms(1,5) mono items unfolding forest_ok_def by (metis hm_ok_insert)
qed

lemma rank_roots:
  assumes "forest_ok m" "hm_get m x = Some (p, j)" "m' = hm_insert x (p, k) m"
  shows "forest_ok m'" "items m' = items m" "root m' = root m"
proof -
  have mono: "root m a r \<Longrightarrow> root m' a r" for a r
    by (rule root_move [where f = "\<lambda>r. r"]) (use assms in \<open>auto simp: root_self\<close>)
  show items: "items m' = items m" using assms(2,3) by (auto simp: items_def split: if_splits)
  show "root m' = root m" using mono by (rule root_eqI [OF assms(1) items])
  then show "forest_ok m'" using assms(1,3) items by (simp add: forest_ok_def)
qed

lemma same_refl_iff: "forest_ok m \<Longrightarrow> same m a a \<longleftrightarrow> a \<in> items m"
  using ok_root root_item unfolding same_def by metis

lemma same_items: "same m a b \<Longrightarrow> a \<in> items m \<and> b \<in> items m"
  by (auto simp: same_def dest: root_item)

lemma same_sym: "same m a b \<Longrightarrow> same m b a"
  by (auto simp: same_def)

lemma same_trans: "same m a b \<Longrightarrow> same m b c \<Longrightarrow> same m a c"
  unfolding same_def using root_functional by metis

lemma same_root: "root m x r \<Longrightarrow> same m a x \<longleftrightarrow> root m a r"
  unfolding same_def using root_functional by metis

lemma link_same:
  assumes "forest_ok m" "hm_get m x = Some (x, j)" "hm_get m y = Some (y, k)" "x \<noteq> y"
  shows "\<exists>m'. link (x, j) (y, k) m = Ok m' \<and> forest_ok m' \<and> items m' = items m \<and>
    (\<forall>a b. same m' a b \<longleftrightarrow> same m a b \<or> (root m a x \<or> root m a y) \<and> (root m b x \<or> root m b y))"
proof -
  have *: "\<exists>m'. link (x, j) (y, k) m = Ok m' \<and> forest_ok m' \<and> items m' = items m \<and>
      (\<forall>a r. root m' a r \<longleftrightarrow> (if root m a y then r = x else root m a r))"
    if "forest_ok m" "hm_get m x = Some (x, j)" "hm_get m y = Some (y, k)" "x \<noteq> y" "\<not> j < k" for x y j k
  proof (cases "j = k")
    case True
    note l = link_roots [OF that(1-4) refl]
    have "hm_get (hm_insert y (x, k) m) x = Some (x, j)" using that by simp
    note r = rank_roots [OF l(1) this refl, of "saturating_add_u8 j 1"]
    show ?thesis using that True l r by (simp add: link_def)
  next
    case False
    then show ?thesis using link_roots [OF that(1-4) refl] that by (simp add: link_def)
  qed
  have swap: "link (x, j) (y, k) m = link (y, k) (x, j) m" if "j < k" using that by (simp add: link_def)
  have same: "same m' a b \<longleftrightarrow> same m a b \<or> (root m a x \<or> root m a y) \<and> (root m b x \<or> root m b y)"
    if "\<And>a r. root m' a r \<longleftrightarrow> (if root m a y then r = x else root m a r)" for m' x y a b
    unfolding same_def that by (cases "root m a y"; cases "root m b y") (auto dest: root_functional)
  show ?thesis
  proof (cases "j < k")
    case True
    from * [OF assms(1,3,2)] True assms(4) swap show ?thesis using same [of _ x y] by fastforce
  next
    case False
    from * [OF assms False] show ?thesis using same [of _ y x] by fastforce
  qed
qed

text \<open>The specification of merging: the two classes become one, and new items join them.\<close>

definition class_of :: "('t \<Rightarrow> 't \<Rightarrow> bool) \<Rightarrow> 't \<Rightarrow> 't \<Rightarrow> bool" where
  "class_of R x a \<longleftrightarrow> a = x \<or> R a x"

definition unite :: "('t \<Rightarrow> 't \<Rightarrow> bool) \<Rightarrow> 't \<Rightarrow> 't \<Rightarrow> 't \<Rightarrow> 't \<Rightarrow> bool" where
  "unite R x y a b \<longleftrightarrow> R a b \<or> (class_of R x a \<or> class_of R y a) \<and> (class_of R x b \<or> class_of R y b)"

lemma root_node_same:
  assumes "forest_ok m"
  shows "\<exists>r k m'. root_node m x = Some (Ok ((r, k), m')) \<and> hm_get m' r = Some (r, k) \<and> root m' x r \<and>
    forest_ok m' \<and> items m' = insert x (items m) \<and> (\<forall>a b. same m' a b \<longleftrightarrow> same m a b \<or> a = x \<and> b = x) \<and>
    (\<forall>a s. root m a s \<longrightarrow> root m' a s) \<and> (\<forall>r k. hm_get m r = Some (r, k) \<longrightarrow> hm_get m' r = Some (r, k))"
proof -
  obtain r k m' where *: "root_node m x = Some (Ok ((r, k), m'))" "hm_get m' r = Some (r, k)" "root m' x r"
    "forest_ok m'" "items m' = insert x (items m)"
    "\<And>a s. root m' a s \<longleftrightarrow> root m a s \<or> x \<notin> items m \<and> a = x \<and> s = x"
    "\<And>r k. hm_get m r = Some (r, k) \<Longrightarrow> hm_get m' r = Some (r, k)"
    using root_node_ok [OF assms, of x] by blast
  moreover have "same m' a b \<longleftrightarrow> same m a b \<or> a = x \<and> b = x" for a b
    using same_refl_iff [OF assms, of x] root_root [of m] root_item [of m] unfolding same_def *(6) by metis
  ultimately show ?thesis by blast
qed

lemma merge_same:
  assumes "forest_ok m" "x \<noteq> y"
  shows "\<exists>m'. merge m x y = Some (Ok m') \<and> forest_ok m' \<and> items m' = insert x (insert y (items m)) \<and>
    (\<forall>a b. same m' a b \<longleftrightarrow> unite (same m) x y a b)"
proof -
  obtain rx kx m1 where m1: "root_node m x = Some (Ok ((rx, kx), m1))" "hm_get m1 rx = Some (rx, kx)" "root m1 x rx"
    "forest_ok m1" "items m1 = insert x (items m)" "\<And>a b. same m1 a b \<longleftrightarrow> same m a b \<or> a = x \<and> b = x"
    using root_node_same [OF assms(1), of x] by blast
  obtain ry ky m2 where m2: "root_node m1 y = Some (Ok ((ry, ky), m2))" "hm_get m2 ry = Some (ry, ky)" "root m2 y ry"
    "forest_ok m2" "items m2 = insert y (items m1)" "\<And>a b. same m2 a b \<longleftrightarrow> same m1 a b \<or> a = y \<and> b = y"
    "\<And>a s. root m1 a s \<Longrightarrow> root m2 a s" "\<And>r k. hm_get m1 r = Some (r, k) \<Longrightarrow> hm_get m2 r = Some (r, k)"
    using root_node_same [OF m1(4), of y] by blast
  have rx: "root m2 x rx" using m2(7) m1(3) .
  have s2: "same m2 a b \<longleftrightarrow> same m a b \<or> a = x \<and> b = x \<or> a = y \<and> b = y" for a b using m1(6) m2(6) by blast
  show ?thesis
  proof (cases "(rx, kx) = (ry, ky)")
    case True
    then have "same m2 x y" using rx m2(3) by (auto simp: same_def)
    with s2 assms(2) have xy: "same m x y" by blast
    have "same m2 a b \<longleftrightarrow> unite (same m) x y a b" for a b
      unfolding unite_def class_of_def s2 using xy same_sym [of m] same_trans [of m] by metis
    then show ?thesis using True m1 m2 assms(2) by (auto simp: merge_def after_def)
  next
    case False
    then have "rx \<noteq> ry" using m2(2) m2(8) [OF m1(2)] by auto
    from link_same [OF m2(4) m2(8) [OF m1(2)] m2(2) this]
    obtain m3 where m3: "link (rx, kx) (ry, ky) m2 = Ok m3" "forest_ok m3" "items m3 = items m2"
      "\<And>a b. same m3 a b \<longleftrightarrow> same m2 a b \<or> (same m2 a x \<or> same m2 a y) \<and> (same m2 b x \<or> same m2 b y)"
      unfolding same_root [OF rx] same_root [OF m2(3)] by blast
    have "same m3 a b \<longleftrightarrow> unite (same m) x y a b" for a b
      unfolding m3(4) unite_def class_of_def s2 by blast
    then show ?thesis using False m1 m2 m3 assms(2) by (auto simp: merge_def after_def)
  qed
qed

section \<open>Removing a set\<close>

lemma retain_set_tidied:
  "forest_ok m \<Longrightarrow> set ys \<subseteq> items m \<Longrightarrow>
     \<exists>m'. retain_set x ys m = Some (Ok (filter (\<lambda>y. root m y x) ys, m')) \<and> tidied m m'"
proof (induction ys arbitrary: m)
  case (Cons y ys)
  obtain r where r: "root m y r" using ok_root [OF Cons.prems(1)] Cons.prems(2) by auto
  obtain m1 where m1: "find_mut m y = Some (Ok (Some r, m1))" "tidied m m1"
    using find_mut_root [OF r Cons.prems(1)] by blast
  obtain m2 where m2: "retain_set x ys m1 = Some (Ok (filter (\<lambda>y. root m1 y x) ys, m2))" "tidied m1 m2"
    using Cons.IH [of m1] m1(2) Cons.prems(2) by (auto simp: tidied_def)
  have "root m y x \<longleftrightarrow> r = x" using root_functional [OF r] r by blast
  with m1 m2 tidied_trans [OF m1(2) m2(2)] show ?case by (auto simp: after_def tidied_def)
qed (simp add: tidied_refl)

lemma remove_all_roots:
  assumes "forest_ok m" "\<And>a. a \<in> set ys \<longleftrightarrow> root m a x" "m' = foldl (\<lambda>m y. hm_remove y m) m ys"
  shows "forest_ok m'" "root m' a r \<longleftrightarrow> root m a r \<and> r \<noteq> x"
proof -
  have get: "hm_get m' a = (if root m a x then None else hm_get m a)" for a
    using hm_get_remove_all [of m ys a] assms(2,3) by simp
  have mono: "path m n a r \<Longrightarrow> r \<noteq> x \<Longrightarrow> root m' a r" for n a r
  proof (induction rule: path.induct)
    case (here a k)
    then have "\<not> root m a x" using root_functional [of m a x a] root_self [of m a] by auto
    with here show ?case by (simp add: root_self get)
  next
    case (up a p k n r)
    then have "root m a r" by (auto simp: root_def intro: path.up)
    then have "\<not> root m a x" using root_functional [of m a x r] up.prems by auto
    with up show ?case by (intro root_up [of m' a p k]) (simp_all add: get)
  qed
  show root: "root m' a r \<longleftrightarrow> root m a r \<and> r \<noteq> x" for a r
  proof
    assume a: "root m' a r"
    then have "a \<in> items m" "\<not> root m a x" using root_item [OF a] get [of a] by (simp_all add: items_def domIff split: if_splits)
    then obtain s where "root m a s" "s \<noteq> x" using ok_root [OF assms(1)] by auto
    then show "root m a r \<and> r \<noteq> x" using mono root_functional [OF a] by (metis root_def)
  qed (metis mono root_def)
  have "\<exists>r. root m' a r" if "a \<in> items m'" for a
    using that get [of a] ok_root [OF assms(1), of a] unfolding root by (auto simp: items_def domIff split: if_splits)
  then show "forest_ok m'" using assms(1,3) by (simp add: forest_ok_def hm_ok_remove_all)
qed

lemma remove_set_of_same:
  assumes "forest_ok m"
  shows "\<exists>members m'. remove_set_of m x = Some (Ok (members, m')) \<and> forest_ok m' \<and>
    sorted members \<and> distinct members \<and> set members = {a. same m a x} \<and>
    (\<forall>a b. same m' a b \<longleftrightarrow> same m a b \<and> \<not> same m a x)"
proof (cases "x \<in> items m")
  case False
  then have "\<not> same m a x" for a using root_item [of m x] by (auto simp: same_def)
  then show ?thesis using assms find_mut_none [OF False] by (simp add: remove_set_of_def after_def)
next
  case True
  then obtain r where r: "root m x r" using ok_root [OF assms] by blast
  obtain m1 where m1: "find_mut m x = Some (Ok (Some r, m1))" "tidied m m1"
    using find_mut_root [OF r assms] by blast
  have ok1: "forest_ok m1" and root1: "root m1 = root m" using m1(2) by (auto simp: tidied_def)
  have keys: "set (map fst m1) = items m1" by (auto simp: items_def dom_map_of_conv_image_fst)
  obtain m2 where m2: "retain_set r (map fst m1) m1 = Some (Ok (filter (\<lambda>y. root m y r) (map fst m1), m2))" "tidied m1 m2"
    using retain_set_tidied [OF ok1, of "map fst m1" r] keys root1 by auto
  let ?ys = "filter (\<lambda>y. root m y r) (map fst m1)"
  have ok2: "forest_ok m2" and root2: "root m2 = root m" using m2(2) root1 by (auto simp: tidied_def)
  have ys: "a \<in> set ?ys \<longleftrightarrow> root m2 a r" for a
    using keys root_item [of m1 a r] root1 root2 by (auto simp del: set_map)
  note rem = remove_all_roots [OF ok2 ys refl]
  have "distinct ?ys" using ok1 by (simp add: forest_ok_def hm_ok_def)
  moreover have "set ?ys = {a. same m a x}" by (simp only: set_eq_iff ys root2 same_root [OF r] mem_Collect_eq) simp
  moreover have "same (foldl (\<lambda>m y. hm_remove y m) m2 ?ys) a b \<longleftrightarrow> same m a b \<and> \<not> same m a x" for a b
    unfolding same_root [OF r] unfolding same_def rem(2) root2 by (auto dest: root_functional)
  moreover have "remove_set_of m x = Some (Ok (sort ?ys, foldl (\<lambda>m y. hm_remove y m) m2 ?ys))"
    using m1(1) m2(1) by (simp add: remove_set_of_def after_def)
  ultimately show ?thesis using rem(1) by (simp del: set_filter filter_map)
qed

section \<open>Histories\<close>

text \<open>A forest that a program can build: from the empty one, by the operations that change it.\<close>

inductive built :: "'t::linorder forest \<Rightarrow> bool" where
  default: "built []"
| merged: "built m \<Longrightarrow> merge m x y = Some (Ok m') \<Longrightarrow> built m'"
| found: "built m \<Longrightarrow> find_mut m x = Some (Ok (r, m')) \<Longrightarrow> built m'"
| removed: "built m \<Longrightarrow> remove_set_of m x = Some (Ok (ys, m')) \<Longrightarrow> built m'"

lemma find_mut_ok:
  assumes "forest_ok m"
  shows "\<exists>r m'. find_mut m x = Some (Ok (r, m')) \<and> find_root m x = Some r \<and> tidied m m' \<and>
    (case r of None \<Rightarrow> x \<notin> items m | Some s \<Rightarrow> root m x s)"
proof (cases "x \<in> items m")
  case True
  then obtain s where s: "root m x s" using ok_root [OF assms] by blast
  then obtain n where "path m n x s" by (auto simp: root_def)
  with find_root_path find_mut_root [OF s assms] s show ?thesis by fastforce
next
  case False
  then show ?thesis using find_mut_none find_root_none tidied_refl [OF assms] by fastforce
qed

lemma unite_not_singleton: "x \<noteq> y \<Longrightarrow> class_of R x a \<or> class_of R y a \<Longrightarrow> \<exists>b. b \<noteq> a \<and> unite R x y a b"
  unfolding unite_def class_of_def by metis

lemma built_invariant: "built m \<Longrightarrow> forest_ok m \<and> no_singleton m"
proof (induction rule: built.induct)
  case default
  then show ?case by (simp add: forest_ok_def no_singleton_def items_def)
next
  case (merged m x y m')
  then have xy: "x \<noteq> y" by (auto simp: merge_def)
  with merge_same [of m x y] merged have m': "forest_ok m'" "items m' = insert x (insert y (items m))"
    "\<And>a b. same m' a b \<longleftrightarrow> unite (same m) x y a b" by auto
  have "\<exists>b. b \<noteq> a \<and> same m' a b" if "a \<in> items m'" for a
  proof (cases "a \<in> items m")
    case True
    then show ?thesis using merged.IH m'(3) by (auto simp: no_singleton_def unite_def)
  next
    case False
    then show ?thesis using that m'(2) unite_not_singleton [OF xy, of "same m" a] unfolding m'(3) by (auto simp: class_of_def)
  qed
  with m'(1) show ?case by (simp add: no_singleton_def)
next
  case (found m x r m')
  then have "tidied m m'" using find_mut_ok [of m x] by auto
  with found.IH show ?case by (simp add: tidied_def no_singleton_def same_def)
next
  case (removed m x ys m')
  with remove_set_of_same [of m x] have m': "forest_ok m'" "\<And>a b. same m' a b \<longleftrightarrow> same m a b \<and> \<not> same m a x" by auto
  have "\<exists>b. b \<noteq> a \<and> same m' a b" if "a \<in> items m'" for a
  proof -
    have "same m a a" "\<not> same m a x" using that m' same_refl_iff [OF m'(1)] by auto
    moreover then obtain b where "b \<noteq> a" "same m a b"
      using removed.IH same_refl_iff [of m a] unfolding no_singleton_def by blast
    ultimately show ?thesis using m'(2) by blast
  qed
  with m'(1) show ?case by (simp add: no_singleton_def)
qed

lemma in_same_set_same:
  assumes "forest_ok m"
  shows "in_same_set m x y = Some (same m x y)"
proof -
  obtain r where r: "find_root m x = Some r" "case r of None \<Rightarrow> x \<notin> items m | Some s \<Rightarrow> root m x s"
    using find_mut_ok [OF assms, of x] by blast
  obtain s where s: "find_root m y = Some s" "case s of None \<Rightarrow> y \<notin> items m | Some t \<Rightarrow> root m y t"
    using find_mut_ok [OF assms, of y] by blast
  show ?thesis
    using r s root_item [of m] root_functional [of m] unfolding same_def
    by (cases r; cases s) (auto simp: in_same_set_def, blast)
qed

section \<open>Properties\<close>

text \<open>
  C18. Finding a representative ends on every forest that the operations build, with and without
  path halving, with the same answer; halving changes neither the items nor the sets; and two
  items have the same representative exactly when they are in one set.
\<close>
theorem find_total:
  assumes "built m"
  shows "\<exists>r m' s. find_mut m x = Some (Ok (r, m')) \<and> find_root m x = Some r \<and> built m' \<and>
    items m' = items m \<and> same m' = same m \<and> (r = None \<longleftrightarrow> x \<notin> items m) \<and>
    find_root m y = Some s \<and> (r \<noteq> None \<and> r = s \<longleftrightarrow> same m x y)"
proof -
  have ok: "forest_ok m" using built_invariant [OF assms] by simp
  obtain r m' where r: "find_mut m x = Some (Ok (r, m'))" "find_root m x = Some r" "tidied m m'"
    "case r of None \<Rightarrow> x \<notin> items m | Some s \<Rightarrow> root m x s" using find_mut_ok [OF ok, of x] by blast
  obtain s where s: "find_root m y = Some s" "case s of None \<Rightarrow> y \<notin> items m | Some t \<Rightarrow> root m y t"
    using find_mut_ok [OF ok, of y] by blast
  have "r \<noteq> None \<and> r = s \<longleftrightarrow> same m x y"
    using r(4) s(2) root_item [of m] root_functional [of m] unfolding same_def
    by (cases r; cases s) (auto, blast)
  moreover have "r = None \<longleftrightarrow> x \<notin> items m" using r(4) root_item [of m x] by (cases r) auto
  ultimately show ?thesis
    using r s built.found [OF assms r(1)] by (auto simp: tidied_def same_def fun_eq_iff)
qed

lemma merge_example:
  "merge [] (7::nat) 2 = Some (Ok [(7, (7, Suc 0)), (2, (7, 0))])"
  by (simp add: merge_def root_node_def find_mut.simps after_def link_def saturating_add_u8_def)

lemma built_example: "built [(7::nat, (7, Suc 0)), (2, (7, 0))]"
  by (rule built.merged [OF built.default merge_example])

theorem find_total_witness:
  "\<exists>r m' s. find_mut [(7::nat, (7, Suc 0)), (2, (7, 0))] 2 = Some (Ok (r, m')) \<and> built m' \<and>
     find_root [(7::nat, (7, Suc 0)), (2, (7, 0))] 3 = Some s \<and> r \<noteq> None"
proof -
  have "(2::nat) \<in> items [(7::nat, (7, Suc 0)), (2, (7, 0))]" by (simp add: items_def domIff)
  with find_total [OF built_example, of 2 3] show ?thesis by metis
qed

text \<open>
  C19. Merging refines the union of two classes: it returns for any two distinct items of a
  forest that the operations build, and afterwards two items are in one set exactly if they were
  before or both belong to the merged items or their sets.
\<close>
theorem merge_refines_union:
  assumes "built m" "x \<noteq> y"
  shows "\<exists>m'. merge m x y = Some (Ok m') \<and> built m' \<and> items m' = insert x (insert y (items m)) \<and>
    same m' = unite (same m) x y \<and> (\<forall>a b. in_same_set m' a b = Some (unite (same m) x y a b))"
proof -
  have "forest_ok m" using built_invariant [OF assms(1)] by simp
  from merge_same [OF this assms(2)] obtain m' where m': "merge m x y = Some (Ok m')" "forest_ok m'"
    "items m' = insert x (insert y (items m))" "\<And>a b. same m' a b \<longleftrightarrow> unite (same m) x y a b" by blast
  with built.merged [OF assms(1) m'(1)] show ?thesis
    by (intro exI [of _ m']) (auto simp: fun_eq_iff in_same_set_same)
qed

theorem merge_refines_union_witness:
  "\<exists>m'. merge [(7::nat, (7, Suc 0)), (2, (7, 0))] 3 2 = Some (Ok m') \<and> in_same_set m' 7 3 = Some True \<and>
     in_same_set m' 7 4 = Some False"
proof -
  let ?m = "[(7::nat, (7::nat, Suc 0)), (2, (7, 0))]"
  have ok: "forest_ok ?m" using built_invariant [OF built_example] by simp
  have "in_same_set ?m 7 2 = Some True" "in_same_set ?m 7 4 = Some False" "in_same_set ?m 2 4 = Some False"
      "in_same_set ?m 4 2 = Some False" "in_same_set ?m 4 3 = Some False"
    by (simp_all add: in_same_set_def find_root.simps)
  then have "same ?m 7 2" "\<not> same ?m 7 4" "\<not> same ?m 4 2" "\<not> same ?m 4 3" by (simp_all add: in_same_set_same [OF ok])
  then have "unite (same ?m) 3 2 7 3" "\<not> unite (same ?m) 3 2 7 4" by (simp_all add: unite_def class_of_def)
  with merge_refines_union [OF built_example, of 3 2] show ?thesis by fastforce
qed

text \<open>
  C20. Removing a set returns its members in ascending order without repetition, keeps every
  other set as it was, and leaves no trace of the members.
\<close>
theorem remove_set_exact:
  assumes "built m"
  shows "\<exists>members m'. remove_set_of m x = Some (Ok (members, m')) \<and> built m' \<and>
    sorted_wrt (<) members \<and> set members = {a. same m a x} \<and> items m' = items m - set members \<and>
    (\<forall>a b. same m' a b \<longleftrightarrow> same m a b \<and> a \<notin> set members)"
proof -
  have ok: "forest_ok m" using built_invariant [OF assms] by simp
  from remove_set_of_same [OF this, of x] obtain members m' where m': "remove_set_of m x = Some (Ok (members, m'))"
    "forest_ok m'" "sorted members" "distinct members" "set members = {a. same m a x}"
    "\<And>a b. same m' a b \<longleftrightarrow> same m a b \<and> \<not> same m a x" by blast
  have "items m' = items m - set members"
    using same_refl_iff [OF m'(2)] same_refl_iff [OF ok] m'(5,6) by blast
  with m' built.removed [OF assms m'(1)] show ?thesis
    by (intro exI [of _ members] exI [of _ m']) (simp add: strict_sorted_iff)
qed

theorem remove_set_exact_witness:
  "\<exists>members m'. remove_set_of [(7::nat, (7, Suc 0)), (2, (7, 0))] 2 = Some (Ok (members, m')) \<and>
     {7, 2} \<subseteq> set members \<and> sorted_wrt (<) members"
proof -
  let ?m = "[(7::nat, (7::nat, Suc 0)), (2, (7, 0))]"
  have "in_same_set ?m 7 2 = Some True" "in_same_set ?m 2 2 = Some True"
    by (simp_all add: in_same_set_def find_root.simps)
  then have "same ?m 7 2" "same ?m 2 2"
    using in_same_set_same [OF conjunct1 [OF built_invariant [OF built_example]]] by simp_all
  with remove_set_exact [OF built_example, of 2] show ?thesis by fastforce
qed

text \<open>
  C21. The invariant of the data structure: in every forest that the operations build, keys are
  unique, the links from every item end at a representative, and no set has a single member.
\<close>
theorem sets_have_two_members:
  assumes "built m"
  shows "forest_ok m \<and> (\<forall>x\<in>items m. \<exists>y. y \<noteq> x \<and> in_same_set m x y = Some True)"
  using built_invariant [OF assms] in_same_set_same [of m] by (auto simp: no_singleton_def)

theorem sets_have_two_members_witness:
  "\<exists>y. y \<noteq> 7 \<and> in_same_set [(7::nat, (7, Suc 0)), (2, (7, 0))] 7 y = Some True"
proof -
  have "(7::nat) \<in> items [(7::nat, (7, Suc 0)), (2, (7, 0))]" by (simp add: items_def domIff)
  with sets_have_two_members [OF built_example] show ?thesis by blast
qed

end
