(* ===== verification/Trie_Rules.thy ===== *)
theory Trie_Rules
  imports Isle_Pos Isle_Disjointsets
begin

text \<open>
  The rules of \<^verbatim>\<open>isle/src/trie_again.rs\<close>: bindings, constraints on them, rules, and the test whether
  two rules may match one input. The meaning of a rule is the set of valuations of its bindings
  that it matches.
\<close>

section \<open>Bindings and constraints\<close>

text \<open>\<^verbatim>\<open>BindingId\<close> is a \<^verbatim>\<open>u16\<close> and \<^verbatim>\<open>TupleIndex\<close> a \<^verbatim>\<open>u8\<close>; the limits are checked where ids are made.\<close>

type_synonym binding_id = nat
type_synonym tuple_index = nat

datatype binding =
    BConstInt int type_id
  | BConstPrim sym
  | BArgument tuple_index
  | BExtractor term_id binding_id
  | BConstructor term_id "binding_id list" nat
  | BIterator binding_id
  | BMakeVariant type_id variant_id "binding_id list"
  | BMatchVariant binding_id variant_id tuple_index
  | BMakeSome binding_id
  | BMatchSome binding_id
  | BMatchTuple binding_id tuple_index

datatype trie_constraint =
    CVariant type_id variant_id tuple_index
  | CConstInt int type_id
  | CConstPrim sym
  | CSome

record trie_rule =
  rule_id :: rule_id
  rule_pos :: pos
  constraints :: "(binding_id, trie_constraint) hashmap"
  equals :: "binding_id forest"
  iterators :: "binding_id set"
  prio :: int
  rule_name :: "sym option"
  impure :: "binding_id list"
  result :: binding_id

datatype overlap = No | Yes bool

fun binding_sources :: "binding \<Rightarrow> binding_id list" where
  "binding_sources (BConstInt _ _) = []"
| "binding_sources (BConstPrim _) = []"
| "binding_sources (BArgument _) = []"
| "binding_sources (BExtractor _ parameter) = [parameter]"
| "binding_sources (BConstructor _ parameters _) = parameters"
| "binding_sources (BIterator source) = [source]"
| "binding_sources (BMakeVariant _ _ xs) = xs"
| "binding_sources (BMatchVariant source _ _) = [source]"
| "binding_sources (BMakeSome inner) = [inner]"
| "binding_sources (BMatchSome source) = [source]"
| "binding_sources (BMatchTuple source _) = [source]"

fun bindings_for :: "trie_constraint \<Rightarrow> binding_id \<Rightarrow> binding list" where
  "bindings_for (CConstInt _ _) source = []"
| "bindings_for (CConstPrim _) source = []"
| "bindings_for CSome source = [BMatchSome source]"
| "bindings_for (CVariant _ variant n) source = map (\<lambda>field. BMatchVariant source variant field) [0..<n]"

fun compatible :: "trie_constraint \<Rightarrow> binding \<Rightarrow> bool" where
  "compatible (CVariant tc vc _) (BMakeVariant tb vb _) \<longleftrightarrow> tb = tc \<and> vb = vc"
| "compatible (CConstInt vc tc) (BConstInt vb tb) \<longleftrightarrow> vc = vb \<and> tc = tb"
| "compatible _ _ \<longleftrightarrow> True"

section \<open>Rules\<close>

fun overlap_loop ::
  "(binding_id \<times> trie_constraint) list \<Rightarrow> (binding_id, trie_constraint) hashmap \<Rightarrow> bool \<Rightarrow> overlap" where
  "overlap_loop [] big sub = Yes sub"
| "overlap_loop ((binding, a) # small) big sub =
     (case hm_get big binding of
        Some b \<Rightarrow> if a \<noteq> b then No else overlap_loop small big sub
      | None \<Rightarrow> overlap_loop small big False)"

definition may_overlap :: "trie_rule \<Rightarrow> trie_rule \<Rightarrow> overlap" where
  "may_overlap self other =
     (let (small, big) =
        (if length (constraints self) \<le> length (constraints other) then (self, other) else (other, self))
      in overlap_loop (constraints small) (constraints big) (is_empty (equals small) \<and> is_empty (equals big)))"

definition total_constraints :: "trie_rule \<Rightarrow> nat" where
  "total_constraints r = length (constraints r) + len (equals r)"

definition get_constraint :: "trie_rule \<Rightarrow> binding_id \<Rightarrow> trie_constraint option" where
  "get_constraint r source = hm_get (constraints r) source"

record unreachable_error =
  err_pos :: pos
  constraint_a :: trie_constraint
  constraint_b :: trie_constraint

definition rule_set_constraint ::
  "trie_rule \<Rightarrow> binding_id \<Rightarrow> trie_constraint \<Rightarrow> (unreachable_error, trie_rule) outcome" where
  "rule_set_constraint r source constraint =
     (case hm_get (constraints r) source of
        Some old \<Rightarrow>
          if old \<noteq> constraint
          then Err \<lparr>err_pos = rule_pos r, constraint_a = old, constraint_b = constraint\<rparr>
          else Ok r
      | None \<Rightarrow> Ok (r\<lparr>constraints := hm_insert source constraint (constraints r)\<rparr>))"

section \<open>Meaning\<close>

text \<open>
  Run-time values, as far as patterns can tell them apart. A constraint of a type identifies its
  values by variant, integer or primitive name.
\<close>

datatype rvalue =
    VInt int type_id
  | VPrim sym
  | VVariant type_id variant_id "rvalue list"
  | VSome rvalue
  | VNone
  | VTuple "rvalue list"
  | VOpaque nat

type_synonym renv = "binding_id \<Rightarrow> rvalue"

fun accepts :: "trie_constraint \<Rightarrow> rvalue \<Rightarrow> bool" where
  "accepts (CVariant t v n) (VVariant t' v' vs) \<longleftrightarrow> t = t' \<and> v = v' \<and> length vs = n"
| "accepts (CConstInt i t) (VInt i' t') \<longleftrightarrow> i = i' \<and> t = t'"
| "accepts (CConstPrim s) (VPrim s') \<longleftrightarrow> s = s'"
| "accepts CSome (VSome _) \<longleftrightarrow> True"
| "accepts _ _ \<longleftrightarrow> False"

text \<open>A value satisfies one constraint at most.\<close>

lemma accepts_unique: "accepts a x \<Longrightarrow> accepts b x \<Longrightarrow> a = b"
  by (cases x; cases a; cases b) auto

definition satisfies :: "(binding_id, trie_constraint) hashmap \<Rightarrow> renv \<Rightarrow> bool" where
  "satisfies cs env \<longleftrightarrow> (\<forall>b c. hm_get cs b = Some c \<longrightarrow> accepts c (env b))"

definition agrees :: "binding_id forest \<Rightarrow> renv \<Rightarrow> bool" where
  "agrees m env \<longleftrightarrow> (\<forall>a b. same m a b \<longrightarrow> env a = env b)"

definition matches :: "trie_rule \<Rightarrow> renv \<Rightarrow> bool" where
  "matches r env \<longleftrightarrow> satisfies (constraints r) env \<and> agrees (equals r) env"

definition rule_ok :: "trie_rule \<Rightarrow> bool" where
  "rule_ok r \<longleftrightarrow> hm_ok (constraints r) \<and> built (equals r)"

lemma same_Nil [simp]: "\<not> same [] a b"
  by (auto simp: same_def root_def elim: path.cases)

lemma agrees_Nil [simp]: "agrees [] env"
  by (simp add: agrees_def)

section \<open>Overlap\<close>

lemma overlap_loop_No:
  "overlap_loop small big s = No \<longleftrightarrow> (\<exists>b a a'. (b, a) \<in> set small \<and> hm_get big b = Some a' \<and> a \<noteq> a')"
  by (induction small big s rule: overlap_loop.induct) (auto split: option.splits, blast)

lemma overlap_loop_subset:
  "overlap_loop small big s = Yes True \<longleftrightarrow> s \<and> (\<forall>b a. (b, a) \<in> set small \<longrightarrow> hm_get big b = Some a)"
  by (induction small big s rule: overlap_loop.induct) (auto split: option.splits)

lemma may_overlap_No:
  assumes "rule_ok r" "rule_ok s"
  shows "may_overlap r s = No \<longleftrightarrow>
    (\<exists>b a a'. hm_get (constraints r) b = Some a \<and> hm_get (constraints s) b = Some a' \<and> a \<noteq> a')"
  using assms unfolding may_overlap_def rule_ok_def
  by (auto simp: overlap_loop_No hm_mem_get Let_def)

lemma may_overlap_exclusive:
  assumes "rule_ok r" "rule_ok s" "may_overlap r s = No"
  shows "\<not> (matches r env \<and> matches s env)"
  using assms(3) accepts_unique unfolding may_overlap_No [OF assms(1,2)] matches_def satisfies_def by metis

text \<open>Of two maps of one size, the included one is the other.\<close>

lemma submap_same_size:
  assumes "hm_ok m" "hm_ok n" "length n \<le> length m" "\<And>b a. hm_get m b = Some a \<Longrightarrow> hm_get n b = Some a"
  shows "hm_get n b = hm_get m b"
proof -
  have sub: "dom (hm_get m) \<subseteq> dom (hm_get n)" using assms(4) by (auto simp: dom_def)
  have "card (dom (hm_get n)) \<le> card (dom (hm_get m))"
    using hm_length_dom [OF assms(1)] hm_length_dom [OF assms(2)] assms(3) by simp
  then have dom: "dom (hm_get m) = dom (hm_get n)"
    by (intro card_seteq [OF _ sub]) (simp_all add: finite_dom_map_of)
  show ?thesis
    using assms(4) [of b] dom by (cases "hm_get m b") (metis domIff, simp)
qed

lemma may_overlap_subset:
  assumes "rule_ok r" "rule_ok s" "may_overlap r s = Yes True" "total_constraints r \<le> total_constraints s"
  shows "equals r = []" "equals s = []" "hm_get (constraints r) b = Some a \<Longrightarrow> hm_get (constraints s) b = Some a"
proof -
  have ok: "hm_ok (constraints r)" "hm_ok (constraints s)" using assms(1,2) by (auto simp: rule_ok_def)
  show eq: "equals r = []" "equals s = []"
    using assms(3) by (auto simp: may_overlap_def overlap_loop_subset is_empty_def Let_def split: if_splits)
  have le: "length (constraints r) \<le> length (constraints s)"
    using assms(4) eq by (simp add: total_constraints_def len_def)
  then show "hm_get (constraints r) b = Some a \<Longrightarrow> hm_get (constraints s) b = Some a"
    using assms(3) ok by (simp add: may_overlap_def overlap_loop_subset hm_mem_get Let_def)
qed

lemma may_overlap_sym:
  assumes "rule_ok r" "rule_ok s"
  shows "may_overlap r s = may_overlap s r"
proof (cases "length (constraints r) = length (constraints s)")
  case True
  have ok: "hm_ok (constraints r)" "hm_ok (constraints s)" using assms by (auto simp: rule_ok_def)
  have No: "may_overlap r s = No \<longleftrightarrow> may_overlap s r = No"
    unfolding may_overlap_No [OF assms] may_overlap_No [OF assms(2,1)] by metis
  have "overlap_loop (constraints r) (constraints s) e = Yes True \<longleftrightarrow>
      overlap_loop (constraints s) (constraints r) e = Yes True" for e
    unfolding overlap_loop_subset hm_mem_get [OF ok(1)] hm_mem_get [OF ok(2)]
    using submap_same_size [OF ok] submap_same_size [OF ok(2,1)] True by (metis order_refl)
  then have "may_overlap r s = Yes True \<longleftrightarrow> may_overlap s r = Yes True"
    using True by (simp add: may_overlap_def conj_commute)
  with No show ?thesis by (cases "may_overlap r s"; cases "may_overlap s r") auto
qed (auto simp: may_overlap_def)

end
