(* ===== verification/Trie_Builder.thy ===== *)
theory Trie_Builder
  imports Trie_Rules "HOL-Library.Sublist"
begin

text \<open>
  \<^verbatim>\<open>RuleSetBuilder\<close> of \<^verbatim>\<open>isle/src/trie_again.rs\<close>: the hash-consed table of bindings, constraints on the
  rule being built, and \<^verbatim>\<open>normalize_equivalence_classes\<close>, which copies constraints through sets of
  equal bindings; the table's invariant, and the effect of one constraint, one merge and one class.
\<close>

section \<open>The builder\<close>

record rule_set =
  rs_rules :: "trie_rule list"
  rs_bindings :: "binding list"
  rs_map :: "(binding, binding_id) hashmap"

record rs_builder =
  current_rule :: trie_rule
  impure_instance :: nat
  unreachable :: "unreachable_error list"
  rules :: rule_set

abbreviation bindings_of :: "rs_builder \<Rightarrow> binding list" where
  "bindings_of B \<equiv> rs_bindings (rules B)"

definition find_binding :: "rule_set \<Rightarrow> binding \<Rightarrow> binding_id option" where
  "find_binding R binding = hm_get (rs_map R) binding"

text \<open>A new id is the length of the table, and must fit into a \<^verbatim>\<open>u16\<close>.\<close>

definition dedup_binding :: "rs_builder \<Rightarrow> binding \<Rightarrow> (binding_id \<times> rs_builder) run" where
  "dedup_binding B binding =
     (case hm_get (rs_map (rules B)) binding of
        Some i \<Rightarrow> Some (Ok (i, B))
      | None \<Rightarrow>
          let i = length (bindings_of B) in
          if i < 65536
          then Some (Ok (i, B\<lparr>rules := (rules B)\<lparr>rs_bindings := bindings_of B @ [binding],
                                                   rs_map := hm_insert binding i (rs_map (rules B))\<rparr>\<rparr>))
          else Some Panic)"

fun dedup_all :: "rs_builder \<Rightarrow> binding list \<Rightarrow> (binding_id list \<times> rs_builder) run" where
  "dedup_all B [] = Some (Ok ([], B))"
| "dedup_all B (b # bs) =
     after (dedup_binding B b) (\<lambda>(i, B). after (dedup_all B bs) (\<lambda>(is, B). Some (Ok (i # is, B))))"

definition note_constraint :: "rs_builder \<Rightarrow> binding_id \<Rightarrow> trie_constraint \<Rightarrow> rs_builder" where
  "note_constraint B input constraint =
     (case rule_set_constraint (current_rule B) input constraint of
        Ok r \<Rightarrow> B\<lparr>current_rule := r\<rparr>
      | Err e \<Rightarrow> B\<lparr>unreachable := unreachable B @ [e]\<rparr>
      | Panic \<Rightarrow> B)"

definition set_constraint :: "rs_builder \<Rightarrow> binding_id \<Rightarrow> trie_constraint \<Rightarrow> (binding_id list \<times> rs_builder) run" where
  "set_constraint B input constraint = dedup_all (note_constraint B input constraint) (bindings_for constraint input)"

section \<open>Normalisation\<close>

text \<open>Work still to do: constraints that must be copied through the set of an item. The head is the next to be taken.\<close>

type_synonym deferred = "(binding_id \<times> trie_constraint) list"

definition defer_site :: "rs_builder \<Rightarrow> deferred \<Rightarrow> binding_id \<Rightarrow> deferred" where
  "defer_site B d x = (case get_constraint (current_rule B) x of Some c \<Rightarrow> (x, c) # d | None \<Rightarrow> d)"

abbreviation with_equals :: "rs_builder \<Rightarrow> binding_id forest \<Rightarrow> rs_builder" where
  "with_equals B m \<equiv> B\<lparr>current_rule := (current_rule B)\<lparr>equals := m\<rparr>\<rparr>"

fun merge_fields :: "rs_builder \<Rightarrow> deferred \<Rightarrow> (binding_id \<times> binding_id) list \<Rightarrow> (deferred \<times> rs_builder) run" where
  "merge_fields B d [] = Some (Ok (d, B))"
| "merge_fields B d ((x, y) # ps) =
     after (merge (equals (current_rule B)) x y) (\<lambda>m.
     merge_fields (with_equals B m) (defer_site B d y) ps)"

fun propagate_class ::
  "rs_builder \<Rightarrow> deferred \<Rightarrow> binding_id list \<Rightarrow> trie_constraint \<Rightarrow> binding_id list \<Rightarrow> (deferred \<times> rs_builder) run" where
  "propagate_class B d base_fields constraint [] = Some (Ok (d, B))"
| "propagate_class B d base_fields constraint (b # rest) =
     after (set_constraint B b constraint) (\<lambda>(ys, B).
     after (merge_fields B d (zip base_fields ys)) (\<lambda>(d, B).
     propagate_class B d base_fields constraint rest))"

definition normalize_step ::
  "rs_builder \<Rightarrow> deferred \<Rightarrow> binding_id \<Rightarrow> trie_constraint \<Rightarrow> (deferred \<times> rs_builder) run" where
  "normalize_step B d current constraint =
     after (remove_set_of (equals (current_rule B)) current) (\<lambda>(members, m).
     let B = with_equals B m in
     case members of
       [] \<Rightarrow> Some (Ok (d, B))
     | base # rest \<Rightarrow>
         after (set_constraint B base constraint) (\<lambda>(base_fields, B).
         propagate_class B (foldl (defer_site B) d base_fields) base_fields constraint rest))"

partial_function (option) normalize_loop :: "rs_builder \<Rightarrow> deferred \<Rightarrow> rs_builder run" where
  "normalize_loop B d =
     (case d of
        [] \<Rightarrow> Some (Ok B)
      | (current, constraint) # d \<Rightarrow>
          (case normalize_step B d current constraint of
             None \<Rightarrow> None
           | Some (Ok (d, B)) \<Rightarrow> normalize_loop B d
           | Some (Err e) \<Rightarrow> Some (Err e)
           | Some Panic \<Rightarrow> Some Panic))"

fun defer_roots ::
  "binding_id forest \<Rightarrow> deferred \<Rightarrow> (binding_id \<times> trie_constraint) list \<Rightarrow> (deferred \<times> binding_id forest) run" where
  "defer_roots m d [] = Some (Ok (d, m))"
| "defer_roots m d ((binding, constraint) # cs) =
     after (find_mut m binding) (\<lambda>(found, m).
     defer_roots m (case found of Some r \<Rightarrow> (r, constraint) # d | None \<Rightarrow> d) cs)"

definition normalize_equivalence_classes :: "rs_builder \<Rightarrow> rs_builder run" where
  "normalize_equivalence_classes B =
     after (defer_roots (equals (current_rule B)) [] (constraints (current_rule B))) (\<lambda>(d, m).
     normalize_loop (with_equals B m) d)"

lemma normalize_loop_Nil: "normalize_loop B [] = Some (Ok B)"
  by (subst normalize_loop.simps) simp

lemma normalize_loop_Cons:
  "normalize_loop B ((x, c) # d) = after (normalize_step B d x c) (\<lambda>(d, B). normalize_loop B d)"
  by (subst normalize_loop.simps) (auto simp: after_def split: option.splits outcome.splits)

section \<open>The table of bindings\<close>

definition table_ok :: "rule_set \<Rightarrow> bool" where
  "table_ok R \<longleftrightarrow>
     (\<forall>b i. hm_get (rs_map R) b = Some i \<longleftrightarrow> i < length (rs_bindings R) \<and> rs_bindings R ! i = b) \<and>
     length (rs_bindings R) \<le> 65536 \<and>
     (\<forall>i<length (rs_bindings R). \<forall>s\<in>set (binding_sources (rs_bindings R ! i)). s < i)"

definition at :: "rs_builder \<Rightarrow> binding_id \<Rightarrow> binding \<Rightarrow> bool" where
  "at B i b \<longleftrightarrow> i < length (bindings_of B) \<and> bindings_of B ! i = b"

text \<open>Only the table has changed, and has only grown.\<close>

definition grown :: "rs_builder \<Rightarrow> rs_builder \<Rightarrow> bool" where
  "grown B B' \<longleftrightarrow> current_rule B' = current_rule B \<and> impure_instance B' = impure_instance B \<and>
     unreachable B' = unreachable B \<and> rs_rules (rules B') = rs_rules (rules B) \<and>
     prefix (bindings_of B) (bindings_of B')"

lemma grown_refl [simp]: "grown B B"
  by (simp add: grown_def)

lemma grown_trans: "grown A B \<Longrightarrow> grown B C \<Longrightarrow> grown A C"
  by (auto simp: grown_def)

lemma at_prefix: "prefix (bindings_of B) (bindings_of B') \<Longrightarrow> at B i b \<Longrightarrow> at B' i b"
  by (auto simp: at_def prefix_def nth_append)

lemma at_unique: "table_ok (rules B) \<Longrightarrow> at B i b \<Longrightarrow> at B j b \<Longrightarrow> i = j"
  unfolding table_ok_def at_def by (metis option.inject)

lemma at_same: "at B i a \<Longrightarrow> at B i b \<Longrightarrow> a = b"
  by (simp add: at_def)

lemma at_sources: "table_ok (rules B) \<Longrightarrow> at B i b \<Longrightarrow> s \<in> set (binding_sources b) \<Longrightarrow> s < i"
  by (auto simp: table_ok_def at_def)

lemma dedup_binding_ends:
  assumes "table_ok (rules B)" "\<forall>s\<in>set (binding_sources b). s < length (bindings_of B)"
  shows "ends (dedup_binding B b) (\<lambda>(i, B'). table_ok (rules B') \<and> grown B B' \<and> at B' i b)"
proof (cases "hm_get (rs_map (rules B)) b")
  case (Some i)
  then have "at B i b" using assms(1) by (auto simp: table_ok_def at_def)
  then show ?thesis using Some assms(1) by (simp add: dedup_binding_def)
next
  case None
  have new: "\<not> at B i b" for i using assms(1) None unfolding table_ok_def at_def by (metis option.distinct(1))
  then have "i < length (bindings_of B) \<Longrightarrow> bindings_of B ! i \<noteq> b" for i by (auto simp: at_def)
  then show ?thesis
    using assms None by (auto simp: dedup_binding_def Let_def table_ok_def grown_def at_def nth_append less_Suc_eq)
qed

lemma dedup_all_ends:
  assumes "table_ok (rules B)" "\<forall>b\<in>set bs. \<forall>s\<in>set (binding_sources b). s < length (bindings_of B)"
  shows "ends (dedup_all B bs) (\<lambda>(is, B'). table_ok (rules B') \<and> grown B B' \<and> list_all2 (at B') is bs)"
  using assms
proof (induction bs arbitrary: B)
  case (Cons b bs)
  show ?case
    unfolding dedup_all.simps
  proof (rule ends_after [OF dedup_binding_ends [OF Cons.prems(1)]], goal_cases)
    case (2 iB)
    then obtain i B1 where B1: "iB = (i, B1)" "table_ok (rules B1)" "grown B B1" "at B1 i b" by auto
    have "length (bindings_of B) \<le> length (bindings_of B1)" using B1(3) by (auto simp: grown_def dest: prefix_length_le)
    then have "\<forall>b\<in>set bs. \<forall>s\<in>set (binding_sources b). s < length (bindings_of B1)"
      using Cons.prems(2) by fastforce
    from Cons.IH [OF B1(2) this] show ?case
      unfolding B1(1) prod.case
      by (rule ends_after) (use B1 in \<open>auto intro: grown_trans at_prefix simp: grown_def\<close>)
  qed (use Cons.prems in auto)
qed auto

section \<open>One constraint, one merge\<close>

abbreviation constraint_at :: "rs_builder \<Rightarrow> binding_id \<Rightarrow> trie_constraint option" where
  "constraint_at B x \<equiv> hm_get (constraints (current_rule B)) x"

abbreviation equals_of :: "rs_builder \<Rightarrow> binding_id forest" where
  "equals_of B \<equiv> equals (current_rule B)"

text \<open>The number of fields is a \<^verbatim>\<open>u8\<close>.\<close>

definition small :: "trie_constraint \<Rightarrow> bool" where
  "small c \<longleftrightarrow> length (bindings_for c 0) \<le> 255"

lemma length_bindings_for: "length (bindings_for c x) = length (bindings_for c y)"
  by (cases c) auto

lemma bindings_for_sources: "b \<in> set (bindings_for c x) \<Longrightarrow> binding_sources b = [x]"
  by (cases c) auto

definition builder_ok :: "rs_builder \<Rightarrow> bool" where
  "builder_ok B \<longleftrightarrow> table_ok (rules B) \<and> rule_ok (current_rule B) \<and>
     (\<forall>x c. constraint_at B x = Some c \<longrightarrow> small c \<and> x < length (bindings_of B)) \<and>
     items (equals_of B) \<subseteq> {..<length (bindings_of B)}"

text \<open>What normalisation leaves alone.\<close>

definition frame :: "rs_builder \<Rightarrow> rs_builder \<Rightarrow> bool" where
  "frame B B' \<longleftrightarrow> (current_rule B')\<lparr>constraints := [], equals := []\<rparr> = (current_rule B)\<lparr>constraints := [], equals := []\<rparr> \<and>
     impure_instance B' = impure_instance B \<and> rs_rules (rules B') = rs_rules (rules B) \<and>
     prefix (bindings_of B) (bindings_of B') \<and> prefix (unreachable B) (unreachable B')"

lemma frame_refl [simp]: "frame B B"
  by (simp add: frame_def)

lemma frame_trans: "frame A B \<Longrightarrow> frame B C \<Longrightarrow> frame A C"
  by (auto simp: frame_def intro: prefix_order.trans)

lemma frame_equals: "frame B (with_equals B m)"
  by (simp add: frame_def)

abbreviation fields_at :: "rs_builder \<Rightarrow> binding_id \<Rightarrow> trie_constraint \<Rightarrow> binding_id list \<Rightarrow> bool" where
  "fields_at B x c is \<equiv> list_all2 (at B) is (bindings_for c x)"

lemma fields_at_frame: "fields_at B x c is \<Longrightarrow> frame B B' \<Longrightarrow> fields_at B' x c is"
  by (auto simp: frame_def intro: list_all2_mono at_prefix)

lemma fields_at_later: "table_ok (rules B) \<Longrightarrow> fields_at B x c is \<Longrightarrow> i \<in> set is \<Longrightarrow> x < i \<and> i < length (bindings_of B)"
  using at_sources [of B i] bindings_for_sources [of _ c x]
  by (fastforce simp: list_all2_conv_all_nth in_set_conv_nth at_def)

lemma set_constraint_ends:
  assumes "builder_ok B" "x < length (bindings_of B)" "small c"
  shows "ends (set_constraint B x c) (\<lambda>(is, B'). builder_ok B' \<and> frame B B' \<and> fields_at B' x c is \<and>
    equals_of B' = equals_of B \<and>
    (\<forall>y. constraint_at B' y = (if y = x \<and> constraint_at B x = None then Some c else constraint_at B y)) \<and>
    (unreachable B' = unreachable B \<longleftrightarrow> constraint_at B x \<in> {None, Some c}))"
proof -
  let ?B = "note_constraint B x c"
  have rest: "rules ?B = rules B" "impure_instance ?B = impure_instance B"
    "equals_of ?B = equals_of B" "frame B ?B"
    "constraint_at ?B y = (if y = x \<and> constraint_at B x = None then Some c else constraint_at B y)"
    "unreachable ?B = unreachable B \<longleftrightarrow> constraint_at B x \<in> {None, Some c}"
    "hm_ok (constraints (current_rule B)) \<Longrightarrow> hm_ok (constraints (current_rule ?B))" for y
    by (auto simp: note_constraint_def rule_set_constraint_def frame_def split: option.splits)
  have "\<forall>b\<in>set (bindings_for c x). \<forall>s\<in>set (binding_sources b). s < length (bindings_of ?B)"
    using assms(2) bindings_for_sources [of _ c x] by (auto simp: rest(1))
  from dedup_all_ends [OF _ this] assms(1)
  have "ends (set_constraint B x c) (\<lambda>(is, B'). table_ok (rules B') \<and> grown ?B B' \<and> fields_at B' x c is)"
    by (simp add: set_constraint_def rest(1) builder_ok_def)
  then show ?thesis
  proof (rule ends_weaken)
    fix isB assume "case isB of (is, B') \<Rightarrow> table_ok (rules B') \<and> grown ?B B' \<and> fields_at B' x c is"
    then obtain "is" B' where B': "isB = (is, B')" "table_ok (rules B')" "grown ?B B'" "fields_at B' x c is" by auto
    have cr: "current_rule B' = current_rule ?B" and un: "unreachable B' = unreachable ?B"
      and len: "length (bindings_of B) \<le> length (bindings_of B')"
      using B'(3) rest(1) by (auto simp: grown_def dest: prefix_length_le)
    have "frame ?B B'" using B'(3) by (simp add: frame_def grown_def)
    then have "frame B B'" using rest(4) frame_trans by blast
    moreover have "builder_ok B'"
      using assms B'(2) len rest unfolding builder_ok_def cr rule_ok_def by (auto split: if_splits) (meson less_le_trans)+
    ultimately show "case isB of (is, B') \<Rightarrow> builder_ok B' \<and> frame B B' \<and> fields_at B' x c is \<and>
      equals_of B' = equals_of B \<and>
      (\<forall>y. constraint_at B' y = (if y = x \<and> constraint_at B x = None then Some c else constraint_at B y)) \<and>
      (unreachable B' = unreachable B \<longleftrightarrow> constraint_at B x \<in> {None, Some c})"
      using B' rest un cr by simp
  qed
qed

lemma agrees_unite:
  assumes "same m' = unite (same m) x y"
  shows "agrees m' env \<longleftrightarrow> agrees m env \<and> env x = env y"
  unfolding agrees_def assms unite_def class_of_def by metis

lemma merge_agrees:
  assumes "built m" "x \<noteq> y"
  shows "\<exists>m'. merge m x y = Some (Ok m') \<and> built m' \<and> items m' = insert x (insert y (items m)) \<and>
    (\<forall>env. agrees m' env \<longleftrightarrow> agrees m env \<and> env x = env y) \<and> (\<forall>a b. same m a b \<longrightarrow> same m' a b)"
proof -
  have "forest_ok m" using built_invariant [OF assms(1)] by simp
  from merge_same [OF this assms(2)] obtain m' where m': "merge m x y = Some (Ok m')"
    "items m' = insert x (insert y (items m))" "same m' = unite (same m) x y" by (auto simp: fun_eq_iff)
  moreover have "built m'" by (rule built.merged [OF assms(1) m'(1)])
  moreover have "same m a b \<Longrightarrow> same m' a b" for a b unfolding m'(3) unite_def by blast
  ultimately show ?thesis using agrees_unite [OF m'(3)] by blast
qed

text \<open>The effect of making pairs of bindings equal: \<open>m\<close> are the new equalities, \<open>d'\<close> the new work.\<close>

definition fields_merged ::
  "rs_builder \<Rightarrow> deferred \<Rightarrow> (binding_id \<times> binding_id) list \<Rightarrow> deferred \<Rightarrow> binding_id forest \<Rightarrow> bool" where
  "fields_merged B d ps d' m \<longleftrightarrow> builder_ok (with_equals B m) \<and>
     items m \<subseteq> items (equals_of B) \<union> fst ` set ps \<union> snd ` set ps \<and>
     (\<forall>env. agrees m env \<longleftrightarrow> agrees (equals_of B) env \<and> (\<forall>(x, y)\<in>set ps. env x = env y)) \<and>
     (\<forall>a b. same (equals_of B) a b \<longrightarrow> same m a b) \<and>
     set d' = set d \<union> {(y, c). y \<in> snd ` set ps \<and> constraint_at B y = Some c}"

lemma fields_merged_Nil: "builder_ok B \<Longrightarrow> fields_merged B d [] d (equals_of B)"
  by (simp add: fields_merged_def)

lemma fields_merged_Cons:
  assumes "fields_merged (with_equals B m) (defer_site B d y) ps d' m'"
    and "items m = insert x (insert y (items (equals_of B)))"
    and "\<And>env. agrees m env \<longleftrightarrow> agrees (equals_of B) env \<and> env x = env y"
    and "\<And>a b. same (equals_of B) a b \<Longrightarrow> same m a b"
  shows "fields_merged B d ((x, y) # ps) d' m'"
proof -
  have "set (defer_site B d y) = set d \<union> {(z, c). z = y \<and> constraint_at B z = Some c}"
    by (auto simp: defer_site_def get_constraint_def split: option.splits)
  then have "set d' = set d \<union> {(z, c). z \<in> snd ` set ((x, y) # ps) \<and> constraint_at B z = Some c}"
    using assms(1) by (auto simp: fields_merged_def)
  moreover have "items m' \<subseteq> items (equals_of B) \<union> fst ` set ((x, y) # ps) \<union> snd ` set ((x, y) # ps)"
    using assms(1,2) by (auto simp: fields_merged_def)
  ultimately show ?thesis using assms(1,3,4) by (simp add: fields_merged_def)
qed

lemma merge_fields_ends:
  assumes "builder_ok B" "\<forall>(x, y)\<in>set ps. x \<noteq> y \<and> x < length (bindings_of B) \<and> y < length (bindings_of B)"
  shows "ends (merge_fields B d ps) (\<lambda>(d', B'). \<exists>m. B' = with_equals B m \<and> fields_merged B d ps d' m)"
  using assms
proof (induction ps arbitrary: B d)
  case Nil
  then show ?case using fields_merged_Nil [of B d] by (auto intro!: exI [of _ "equals_of B"])
next
  case (Cons p ps)
  obtain x y where p: "p = (x, y)" by force
  have xy: "x \<noteq> y" "x < length (bindings_of B)" "y < length (bindings_of B)" using Cons.prems(2) p by auto
  have "built (equals_of B)" using Cons.prems(1) by (simp add: builder_ok_def rule_ok_def)
  from merge_agrees [OF this xy(1)] obtain m where m: "merge (equals_of B) x y = Some (Ok m)" "built m"
    "items m = insert x (insert y (items (equals_of B)))"
    "\<And>env. agrees m env \<longleftrightarrow> agrees (equals_of B) env \<and> env x = env y" "\<And>a b. same (equals_of B) a b \<Longrightarrow> same m a b"
    by blast
  have ok: "builder_ok (with_equals B m)" using Cons.prems(1) m xy by (auto simp: builder_ok_def rule_ok_def)
  have "ends (merge_fields (with_equals B m) (defer_site B d y) ps)
      (\<lambda>(d', B'). \<exists>m'. B' = with_equals B m' \<and> fields_merged (with_equals B m) (defer_site B d y) ps d' m')"
    using Cons.IH [OF ok, of "defer_site B d y"] Cons.prems(2) by simp
  then show ?case
    unfolding p merge_fields.simps m(1) after_Ok
    by (rule ends_weaken) (use fields_merged_Cons [OF _ m(3-5)] in auto)
qed

section \<open>One class\<close>

text \<open>
  The effect of copying a constraint to the members \<open>xs\<close> of a class and making their fields,
  \<open>F\<close>, equal to those of the first member.
\<close>

inductive class_constrained ::
  "rs_builder \<Rightarrow> deferred \<Rightarrow> binding_id list \<Rightarrow> trie_constraint \<Rightarrow> binding_id list \<Rightarrow>
   (binding_id \<Rightarrow> binding_id list) \<Rightarrow> deferred \<Rightarrow> rs_builder \<Rightarrow> bool"
  for B :: rs_builder and d :: deferred and fs :: "binding_id list" and c :: trie_constraint
    and xs :: "binding_id list" and F :: "binding_id \<Rightarrow> binding_id list" and d' :: deferred and B' :: rs_builder where
  constrained:
    "\<lbrakk>builder_ok B'; frame B B';
      \<And>x. constraint_at B' x = (if x \<in> set xs \<and> constraint_at B x = None then Some c else constraint_at B x);
      unreachable B' = unreachable B \<longleftrightarrow> (\<forall>x\<in>set xs. constraint_at B x \<in> {None, Some c});
      \<And>x. x \<in> set xs \<Longrightarrow> fields_at B' x c (F x);
      items (equals_of B') \<subseteq> items (equals_of B) \<union> set fs \<union> (\<Union>x\<in>set xs. set (F x));
      \<And>env. agrees (equals_of B') env \<longleftrightarrow> agrees (equals_of B) env \<and> (\<forall>x\<in>set xs. map env (F x) = map env fs);
      \<And>a b. same (equals_of B) a b \<Longrightarrow> same (equals_of B') a b;
      set d \<subseteq> set d';
      \<And>x cx. (x, cx) \<in> set d' \<Longrightarrow> (x, cx) \<in> set d \<or> constraint_at B' x = Some cx;
      \<And>x y cy. x \<in> set xs \<Longrightarrow> y \<in> set (F x) \<Longrightarrow> constraint_at B y = Some cy \<Longrightarrow> (y, cy) \<in> set d'\<rbrakk>
     \<Longrightarrow> class_constrained B d fs c xs F d' B'"

lemma class_constrained_Nil: "builder_ok B \<Longrightarrow> class_constrained B d fs c [] F d B"
  by (rule constrained) auto

lemma zip_agree: "length xs = length ys \<Longrightarrow> (\<forall>(x, y)\<in>set (zip xs ys). f x = f y) \<longleftrightarrow> map f ys = map f xs"
  by (induction xs ys rule: list_induct2) auto

lemma class_constrained_Cons:
  assumes B1: "builder_ok B1" "frame B B1" "fields_at B1 x c ys" "equals_of B1 = equals_of B"
      "\<And>y. constraint_at B1 y = (if y = x \<and> constraint_at B x = None then Some c else constraint_at B y)"
      "unreachable B1 = unreachable B \<longleftrightarrow> constraint_at B x \<in> {None, Some c}"
    and m: "fields_merged B1 d (zip fs ys) d1 m" "length fs = length ys"
    and r: "class_constrained (with_equals B1 m) d1 fs c xs F d' B'" and x: "x \<notin> set xs"
  shows "class_constrained B d fs c (x # xs) (F(x := ys)) d' B'"
  using r
proof cases
  case constrained
  have m': "items m \<subseteq> items (equals_of B) \<union> set fs \<union> set ys"
    "\<And>env. agrees m env \<longleftrightarrow> agrees (equals_of B) env \<and> map env ys = map env fs"
    "\<And>a b. same (equals_of B) a b \<Longrightarrow> same m a b"
    "set d1 = set d \<union> {(y, cy). y \<in> set ys \<and> constraint_at B1 y = Some cy}"
    using m by (auto simp: fields_merged_def B1(4) zip_agree simp flip: set_map)
  have "(\<Union>z\<in>set xs. set ((F(x := ys)) z)) = (\<Union>z\<in>set xs. set (F z))" using x by (intro SUP_cong) auto
  then have U: "(\<Union>z\<in>set (x # xs). set ((F(x := ys)) z)) = set ys \<union> (\<Union>z\<in>set xs. set (F z))" by simp
  have frame1: "frame B1 B'" by (rule frame_trans [OF frame_equals constrained(2)])
  have un: "unreachable B' = unreachable B \<longleftrightarrow> unreachable B1 = unreachable B \<and> unreachable B' = unreachable B1"
    using B1(2) frame1 unfolding frame_def by (metis prefix_order.antisym)
  show ?thesis
  proof (rule class_constrained.constrained)
    show "unreachable B' = unreachable B \<longleftrightarrow> (\<forall>z\<in>set (x # xs). constraint_at B z \<in> {None, Some c})"
      using un B1(5,6) constrained(4) x by auto
    show "items (equals_of B') \<subseteq> items (equals_of B) \<union> set fs \<union> (\<Union>z\<in>set (x # xs). set ((F(x := ys)) z))"
      using constrained(6) m'(1) unfolding U by simp blast
    show "agrees (equals_of B') env \<longleftrightarrow> agrees (equals_of B) env \<and>
        (\<forall>z\<in>set (x # xs). map env ((F(x := ys)) z) = map env fs)" for env
      using constrained(7) [of env] m'(2) [of env] x by auto
    show "(z, cz) \<in> set d \<or> constraint_at B' z = Some cz" if "(z, cz) \<in> set d'" for z cz
    proof -
      from constrained(10) [OF that] consider "(z, cz) \<in> set d" | "constraint_at B1 z = Some cz" | "constraint_at B' z = Some cz"
        unfolding m'(4) by blast
      then show ?thesis by cases (simp_all add: constrained(3))
    qed
    show "(y, cy) \<in> set d'" if "z \<in> set (x # xs)" "y \<in> set ((F(x := ys)) z)" "constraint_at B y = Some cy" for z y cy
    proof -
      have y: "constraint_at B1 y = Some cy" using B1(5) [of y] that(3) by (cases "y = x") simp_all
      show ?thesis
      proof (cases "z = x")
        case True
        then have "(y, cy) \<in> set d1" using that(2) y unfolding m'(4) by simp
        then show ?thesis using constrained(9) by blast
      next
        case False
        then show ?thesis using constrained(11) [of z y cy] that y by simp
      qed
    qed
    show "constraint_at B' z = (if z \<in> set (x # xs) \<and> constraint_at B z = None then Some c else constraint_at B z)" for z
      using constrained(3) [of z] B1(5) [of z] x by auto
    show "frame B B'" by (rule frame_trans [OF B1(2) frame1])
    show "fields_at B' z c ((F(x := ys)) z)" if "z \<in> set (x # xs)" for z
      using that x constrained(5) [of z] fields_at_frame [OF B1(3) frame1] by auto
    show "same (equals_of B') a b" if "same (equals_of B) a b" for a b
      using constrained(8) [of a b] m'(3) [OF that] by simp
    show "set d \<subseteq> set d'" using constrained(9) m'(4) by blast
  qed (rule constrained(1))
qed

lemma fields_distinct:
  assumes "table_ok (rules B)" "fields_at B x c fs" "fields_at B y c ys" "x \<noteq> y" "(i, j) \<in> set (zip fs ys)"
  shows "i \<noteq> j \<and> i < length (bindings_of B) \<and> j < length (bindings_of B)"
proof -
  obtain k where k: "k < length fs" "k < length ys" "i = fs ! k" "j = ys ! k"
    using assms(5) by (auto simp: in_set_zip)
  then have ij: "at B i (bindings_for c x ! k)" "at B j (bindings_for c y ! k)"
    "k < length (bindings_for c x)" "k < length (bindings_for c y)"
    using assms(2,3) by (auto simp: list_all2_conv_all_nth)
  then have "binding_sources (bindings_for c x ! k) \<noteq> binding_sources (bindings_for c y ! k)"
    using assms(4) bindings_for_sources [OF nth_mem] by simp
  with ij at_same [of B i] show ?thesis by (auto simp: at_def)
qed

lemma propagate_class_ends:
  assumes "builder_ok B" "small c" "fields_at B base c fs"
    "distinct xs" "base \<notin> set xs" "set xs \<subseteq> {..<length (bindings_of B)}"
  shows "ends (propagate_class B d fs c xs) (\<lambda>(d', B'). \<exists>F. class_constrained B d fs c xs F d' B')"
  using assms
proof (induction xs arbitrary: B d)
  case Nil
  then show ?case using class_constrained_Nil by auto
next
  case (Cons x xs)
  show ?case
    unfolding propagate_class.simps
  proof (rule ends_after [OF set_constraint_ends [OF Cons.prems(1) _ Cons.prems(2)]], goal_cases)
    case (2 yB)
    then obtain ys B1 where B1: "yB = (ys, B1)" "builder_ok B1" "frame B B1" "fields_at B1 x c ys" "equals_of B1 = equals_of B"
      "\<And>y. constraint_at B1 y = (if y = x \<and> constraint_at B x = None then Some c else constraint_at B y)"
      "unreachable B1 = unreachable B \<longleftrightarrow> constraint_at B x \<in> {None, Some c}" by auto
    have fs: "fields_at B1 base c fs" by (rule fields_at_frame [OF Cons.prems(3) B1(3)])
    have tbl: "table_ok (rules B1)" using B1(2) by (simp add: builder_ok_def)
    have zip: "\<forall>(i, j)\<in>set (zip fs ys). i \<noteq> j \<and> i < length (bindings_of B1) \<and> j < length (bindings_of B1)"
      using fields_distinct [OF tbl fs B1(4)] Cons.prems(5) by auto
    have len: "length fs = length ys" using fs B1(4) length_bindings_for by (metis list_all2_lengthD)
    have len1: "length (bindings_of B) \<le> length (bindings_of B1)" using B1(3) by (auto simp: frame_def dest: prefix_length_le)
    show ?case
      unfolding B1(1) prod.case
    proof (rule ends_after [OF merge_fields_ends [OF B1(2) zip]], goal_cases)
      case (1 dB)
      then obtain d1 m where m: "dB = (d1, with_equals B1 m)" "fields_merged B1 d (zip fs ys) d1 m" by auto
      have ok2: "builder_ok (with_equals B1 m)" using m(2) by (simp add: fields_merged_def)
      have fs2: "fields_at (with_equals B1 m) base c fs" by (rule fields_at_frame [OF fs frame_equals])
      have "ends (propagate_class (with_equals B1 m) d1 fs c xs)
          (\<lambda>(d', B'). \<exists>F. class_constrained (with_equals B1 m) d1 fs c xs F d' B')"
        using Cons.prems len1 by (intro Cons.IH [OF ok2 Cons.prems(2) fs2]) auto
      then show ?case
        unfolding m(1) prod.case
        by (rule ends_weaken) (use class_constrained_Cons [OF B1(2-7) m(2) len] Cons.prems(4) in fastforce)
    qed
  qed (use Cons.prems in auto)
qed

end
