(* ===== verification/Trie_Normalize.thy ===== *)
theory Trie_Normalize
  imports Trie_Builder
begin

text \<open>
  Correctness of \<^verbatim>\<open>normalize_equivalence_classes\<close> of \<^verbatim>\<open>isle/src/trie_again.rs\<close>: it ends, keeps the meaning
  of the rule, and separates constraints from equalities on every rule that some input matches.
\<close>

section \<open>Meaning of the bindings\<close>

text \<open>A valuation is consistent with the table when the bindings of a match are the parts they name.\<close>

fun part_of :: "renv \<Rightarrow> binding_id \<Rightarrow> binding \<Rightarrow> bool" where
  "part_of env i (BMatchVariant s v f) \<longleftrightarrow>
     (case env s of VVariant t w vs \<Rightarrow> w = v \<longrightarrow> f < length vs \<longrightarrow> env i = vs ! f | _ \<Rightarrow> True)"
| "part_of env i (BMatchSome s) \<longleftrightarrow> (case env s of VSome x \<Rightarrow> env i = x | _ \<Rightarrow> True)"
| "part_of env i (BMatchTuple s f) \<longleftrightarrow>
     (case env s of VTuple vs \<Rightarrow> f < length vs \<longrightarrow> env i = vs ! f | _ \<Rightarrow> True)"
| "part_of env i _ \<longleftrightarrow> True"

definition consistent :: "renv \<Rightarrow> binding list \<Rightarrow> bool" where
  "consistent env bs \<longleftrightarrow> (\<forall>i<length bs. part_of env i (bs ! i))"

lemma consistent_prefix: "prefix bs bs' \<Longrightarrow> consistent env bs' \<Longrightarrow> consistent env bs"
  by (auto simp: consistent_def prefix_def nth_append split: if_splits)

fun parts :: "rvalue \<Rightarrow> rvalue list" where
  "parts (VVariant _ _ vs) = vs"
| "parts (VSome x) = [x]"
| "parts _ = []"

text \<open>An accepted value is its constraint and its parts, and its parts are smaller.\<close>

lemma accepted_fields:
  assumes "accepts c (env x)" "consistent env (bindings_of B)" "fields_at B x c fs"
  shows "map env fs = parts (env x)"
proof (rule nth_equalityI)
  show len: "length (map env fs) = length (parts (env x))"
    using assms(1) list_all2_lengthD [OF assms(3)] by (cases c; cases "env x") auto
  fix k assume k: "k < length (map env fs)"
  then have "part_of env (fs ! k) (bindings_for c x ! k)"
    using assms(2) list_all2_nthD [OF assms(3)] by (fastforce simp: at_def consistent_def)
  moreover have "k < length (bindings_for c x)" using k list_all2_lengthD [OF assms(3)] by simp
  ultimately show "map env fs ! k = parts (env x) ! k"
    using assms(1) k by (cases c; cases "env x") auto
qed

lemma accepted_eq: "accepts c x \<Longrightarrow> accepts c y \<Longrightarrow> parts x = parts y \<Longrightarrow> x = y"
  by (cases c; cases x; cases y) auto

lemma parts_smaller: "y \<in> set (parts x) \<Longrightarrow> size y < size x"
  by (cases x) (auto dest: size_list_estimation' [OF _ order_refl, where f = size] simp: less_Suc_eq_le)

section \<open>One step\<close>

text \<open>
  A step of the loop: either the item is in no set any more, or its set leaves the equalities and
  all its members get the constraint.
\<close>

inductive normalize_moves ::
  "rs_builder \<Rightarrow> deferred \<Rightarrow> binding_id \<Rightarrow> trie_constraint \<Rightarrow> deferred \<Rightarrow> rs_builder \<Rightarrow> bool"
  for B :: rs_builder and d :: deferred and x :: binding_id and c :: trie_constraint where
  idle: "x \<notin> items (equals_of B) \<Longrightarrow> built m \<Longrightarrow> same m = same (equals_of B) \<Longrightarrow>
    items m = items (equals_of B) \<Longrightarrow> normalize_moves B d x c d (with_equals B m)"
| work: "x \<in> items (equals_of B) \<Longrightarrow> built m \<Longrightarrow> xs \<noteq> [] \<Longrightarrow> distinct xs \<Longrightarrow> set xs = {a. same (equals_of B) a x} \<Longrightarrow>
    items m = items (equals_of B) - set xs \<Longrightarrow> (\<And>a b. same m a b \<longleftrightarrow> same (equals_of B) a b \<and> a \<notin> set xs) \<Longrightarrow>
    class_constrained (with_equals B m) d (F (hd xs)) c xs F d' B' \<Longrightarrow> normalize_moves B d x c d' B'"

lemma deferred_fields:
  "set (foldl (defer_site B) d fs) = set d \<union> {(y, c). y \<in> set fs \<and> constraint_at B y = Some c}"
proof (induction fs arbitrary: d)
  case (Cons y fs)
  have "set (defer_site B d y) = set d \<union> {(z, c). z = y \<and> constraint_at B z = Some c}"
    by (auto simp: defer_site_def get_constraint_def split: option.splits)
  with Cons.IH [of "defer_site B d y"] show ?case by auto
qed simp

lemma class_ends:
  assumes "builder_ok B" "small c" "distinct (base # rest)" "set (base # rest) \<subseteq> {..<length (bindings_of B)}"
  shows "ends (after (set_constraint B base c) (\<lambda>(fs, B). propagate_class B (foldl (defer_site B) d fs) fs c rest))
    (\<lambda>(d', B'). \<exists>F. class_constrained B d (F base) c (base # rest) F d' B')"
proof (rule ends_after [OF set_constraint_ends [OF assms(1) _ assms(2), of base]], goal_cases)
  case (2 fB)
  then obtain fs B1 where B1: "fB = (fs, B1)" "builder_ok B1" "frame B B1" "fields_at B1 base c fs" "equals_of B1 = equals_of B"
    "\<And>y. constraint_at B1 y = (if y = base \<and> constraint_at B base = None then Some c else constraint_at B y)"
    "unreachable B1 = unreachable B \<longleftrightarrow> constraint_at B base \<in> {None, Some c}" by auto
  let ?d = "foldl (defer_site B1) d fs"
  have "snd ` set (zip fs fs) = set fs" "fst ` set (zip fs fs) = set fs" by (simp_all flip: set_map)
  moreover have "\<forall>(x, y)\<in>set (zip fs fs). env x = env y" for env :: renv by (auto simp: in_set_zip)
  ultimately have m: "fields_merged B1 d (zip fs fs) ?d (equals_of B1)"
    using B1(2) deferred_fields [of B1 d fs] by (simp add: fields_merged_def)
  have len: "length (bindings_of B) \<le> length (bindings_of B1)" using B1(3) by (auto simp: frame_def dest: prefix_length_le)
  have "ends (propagate_class B1 ?d fs c rest) (\<lambda>(d', B'). \<exists>F. class_constrained B1 ?d fs c rest F d' B')"
    using assms(3,4) len by (intro propagate_class_ends [OF B1(2) assms(2) B1(4)]) auto
  then show ?case
    unfolding B1(1) prod.case
  proof (rule ends_weaken, clarify)
    fix d' B' F assume "class_constrained B1 ?d fs c rest F d' B'"
    then have "class_constrained (with_equals B1 (equals_of B1)) ?d fs c rest F d' B'" by simp
    from class_constrained_Cons [OF B1(2-7) m refl this] assms(3)
    have "class_constrained B d fs c (base # rest) (F(base := fs)) d' B'" by simp
    then show "\<exists>F. class_constrained B d (F base) c (base # rest) F d' B'" by (intro exI [of _ "F(base := fs)"]) simp
  qed
qed (use assms in auto)

lemma normalize_step_ends:
  assumes "builder_ok B" "small c"
  shows "ends (normalize_step B d x c) (\<lambda>(d', B'). normalize_moves B d x c d' B')"
proof -
  have built: "built (equals_of B)" and ok: "forest_ok (equals_of B)"
    using assms(1) built_invariant by (auto simp: builder_ok_def rule_ok_def)
  from remove_set_of_same [OF ok, of x] obtain xs m where
    m: "remove_set_of (equals_of B) x = Some (Ok (xs, m))" "forest_ok m"
      "distinct xs" "set xs = {a. same (equals_of B) a x}"
      "\<And>a b. same m a b \<longleftrightarrow> same (equals_of B) a b \<and> \<not> same (equals_of B) a x" by blast
  have bm: "built m" by (rule built.removed [OF built m(1)])
  have items: "items m = items (equals_of B) - set xs"
    using same_refl_iff [OF ok] same_refl_iff [OF m(2)] m(4,5) by blast
  show ?thesis
  proof (cases xs)
    case Nil
    then have "x \<notin> items (equals_of B)" using m(4) same_refl_iff [OF ok, of x] by auto
    moreover have "same m = same (equals_of B)" using m(4,5) Nil by (auto simp: fun_eq_iff)
    ultimately show ?thesis
      using normalize_moves.idle [of x B m d c] bm items Nil m(1) by (simp add: normalize_step_def)
  next
    case (Cons base rest)
    have sub: "set xs \<subseteq> {..<length (bindings_of (with_equals B m))}"
      using m(4) assms(1) same_items [of "equals_of B" _ x] unfolding builder_ok_def by fastforce
    have okB: "builder_ok (with_equals B m)" using assms(1) bm items by (auto simp: builder_ok_def rule_ok_def)
    have "x \<in> items (equals_of B)"
      using m(4) Cons same_items [of "equals_of B" base x] by auto
    note w = normalize_moves.work [OF this bm _ m(3,4) items, where d = d and c = c]
    have "ends (after (set_constraint (with_equals B m) base c)
        (\<lambda>(fs, B). propagate_class B (foldl (defer_site B) d fs) fs c rest))
        (\<lambda>(d', B'). \<exists>F. class_constrained (with_equals B m) d (F base) c (base # rest) F d' B')"
      using class_ends [OF okB assms(2)] m(3) sub unfolding Cons by blast
    then have "ends (normalize_step B d x c)
        (\<lambda>(d', B'). \<exists>F. class_constrained (with_equals B m) d (F base) c (base # rest) F d' B')"
      using m(1) Cons by (simp add: normalize_step_def)
    then show ?thesis
      by (rule ends_weaken) (use w m(4,5) Cons in auto)
  qed
qed

section \<open>What a step keeps\<close>

lemma moves_ok:
  assumes "normalize_moves B d x c d' B'" "builder_ok B"
  shows "builder_ok B'" "frame B B'"
proof -
  have "builder_ok B' \<and> frame B B'"
    using assms
  proof cases
    case (idle m)
    then show ?thesis using assms(2) frame_equals by (simp add: builder_ok_def rule_ok_def)
  next
    case (work m xs F)
    from work(8) show ?thesis by cases (use frame_trans [OF frame_equals] in blast)
  qed
  then show "builder_ok B'" "frame B B'" by auto
qed

lemma moves_small:
  assumes "normalize_moves B d x c d' B'" "\<And>y cy. (y, cy) \<in> set d \<Longrightarrow> small cy" "(y, cy) \<in> set d'" "builder_ok B"
  shows "small cy"
  using assms(1)
proof cases
  case (work m xs F)
  from work(8) show ?thesis
  proof cases
    case constrained
    from constrained(10) [OF assms(3)] assms(2) constrained(1) show ?thesis unfolding builder_ok_def by blast
  qed
qed (use assms in auto)

text \<open>The valuations that a step is about.\<close>

definition due :: "deferred \<Rightarrow> renv \<Rightarrow> bool" where
  "due d env \<longleftrightarrow> (\<forall>y cy. (y, cy) \<in> set d \<longrightarrow> accepts cy (env y))"

lemma satisfiesD: "satisfies cs env \<Longrightarrow> hm_get cs b = Some c \<Longrightarrow> accepts c (env b)"
  by (simp add: satisfies_def)

lemma class_values: "agrees m env \<Longrightarrow> set xs = {a. same m a x} \<Longrightarrow> a \<in> set xs \<Longrightarrow> env a = env x"
  by (auto simp: agrees_def)

lemma moves_forward:
  assumes "normalize_moves B d x c d' B'" "builder_ok B" "consistent env (bindings_of B')"
    "matches (current_rule B) env" "due ((x, c) # d) env"
  shows "unreachable B' = unreachable B \<and> matches (current_rule B') env \<and> due d' env"
  using assms(1)
proof cases
  case (idle m)
  then show ?thesis using assms(4,5) by (auto simp: matches_def agrees_def due_def)
next
  case (work m xs F)
  have sat: "satisfies (constraints (current_rule B)) env" and agr: "agrees (equals_of B) env"
    using assms(4) by (auto simp: matches_def)
  have val: "env a = env x" if "a \<in> set xs" for a by (rule class_values [OF agr work(5) that])
  have acc: "accepts c (env x)" using assms(5) by (simp add: due_def)
  from work(8) show ?thesis
  proof cases
    case constrained
    have eq: "constraint_at B a \<in> {None, Some c}" if "a \<in> set xs" for a
    proof (cases "constraint_at B a")
      case (Some c')
      then have "accepts c' (env x)" using satisfiesD [OF sat Some] val [OF that] by simp
      then show ?thesis using Some accepts_unique [OF acc] by blast
    qed simp
    have sat': "satisfies (constraints (current_rule B')) env"
      unfolding satisfies_def constrained(3) using satisfiesD [OF sat] val acc by simp
    have "map env (F a) = parts (env x)" if "a \<in> set xs" for a
      using accepted_fields [OF _ assms(3) constrained(5) [OF that]] acc val [OF that] by simp
    moreover have "agrees m env" using agr work(7) by (auto simp: agrees_def)
    ultimately have "agrees (equals_of B') env" using constrained(7) work(3) by simp
    moreover have "due d' env" using constrained(10) assms(5) satisfiesD [OF sat'] unfolding due_def by (meson list.set_intros(2))
    ultimately show ?thesis using constrained(4) eq sat' by (simp add: matches_def)
  qed
qed

lemma moves_backward:
  assumes "normalize_moves B d x c d' B'" "builder_ok B" "consistent env (bindings_of B')"
    "unreachable B' = unreachable B" "matches (current_rule B') env"
  shows "matches (current_rule B) env"
  using assms(1)
proof cases
  case (idle m)
  then show ?thesis using assms(5) by (auto simp: matches_def agrees_def)
next
  case (work m xs F)
  have sat: "satisfies (constraints (current_rule B')) env" and agr: "agrees (equals_of B') env"
    using assms(5) by (auto simp: matches_def)
  from work(8) show ?thesis
  proof cases
    case constrained
    have "constraint_at B' a = Some c" if "a \<in> set xs" for a
      using that constrained(3) [of a] constrained(4) assms(4) by fastforce
    then have acc: "accepts c (env a)" if "a \<in> set xs" for a using that satisfiesD [OF sat] by blast
    have parts: "parts (env a) = map env (F (hd xs))" if "a \<in> set xs" for a
      using accepted_fields [OF acc [OF that] assms(3) constrained(5) [OF that]] constrained(7) [of env] agr that by simp
    have "env a = env b" if "same (equals_of B) a b" for a b
    proof (cases "a \<in> set xs")
      case True
      then have "b \<in> set xs" using that work(5) same_sym same_trans by (metis mem_Collect_eq)
      then show ?thesis using True acc parts accepted_eq by metis
    next
      case False
      then have "same m a b" using that work(7) by simp
      then show ?thesis using constrained(7) [of env] agr by (simp add: agrees_def)
    qed
    then have "agrees (equals_of B) env" by (simp add: agrees_def)
    moreover have "satisfies (constraints (current_rule B)) env"
      unfolding satisfies_def using satisfiesD [OF sat] constrained(3) by (simp split: if_splits)
    ultimately show ?thesis by (simp add: matches_def)
  qed
qed

section \<open>Separation\<close>

text \<open>Every constrained item of the equalities is due to lose its set.\<close>

definition covered :: "rs_builder \<Rightarrow> deferred \<Rightarrow> bool" where
  "covered B d \<longleftrightarrow> (\<forall>z cz. z \<in> items (equals_of B) \<longrightarrow> constraint_at B z = Some cz \<longrightarrow>
     (\<exists>y cy. (y, cy) \<in> set d \<and> same (equals_of B) y z))"

lemma class_items:
  assumes "class_constrained (with_equals B m) d (F (hd xs)) c xs F d' B'" "xs \<noteq> []"
  shows "items (equals_of B') \<subseteq> items m \<union> (\<Union>a\<in>set xs. set (F a))"
proof -
  have "set (F (hd xs)) \<subseteq> (\<Union>a\<in>set xs. set (F a))" using hd_in_set [OF assms(2)] by blast
  with assms(1) show ?thesis by cases auto
qed

lemma moves_covered:
  assumes "normalize_moves B d x c d' B'" "builder_ok B" "consistent env (bindings_of B')"
    "matches (current_rule B) env" "accepts c (env x)" "covered B ((x, c) # d)"
  shows "covered B' d'"
  using assms(1)
proof cases
  case (idle m)
  have "\<not> same (equals_of B) x z" for z using idle(3) by (auto dest: same_items)
  then show ?thesis using idle assms(6) unfolding covered_def by simp metis
next
  case (work m xs F)
  have agr: "agrees (equals_of B) env" using assms(4) by (simp add: matches_def)
  have val: "env a = env x" if "a \<in> set xs" for a by (rule class_values [OF agr work(5) that])
  from work(8) show ?thesis
  proof cases
    case constrained
    have outside: "y \<notin> set xs" if "a \<in> set xs" "y \<in> set (F a)" for a y
    proof
      assume y: "y \<in> set xs"
      have "map env (F a) = parts (env a)"
        using accepted_fields [OF _ assms(3) constrained(5) [OF that(1)]] assms(5) val [OF that(1)] by simp
      then have "env y \<in> set (parts (env a))" using that(2) by (metis image_eqI set_map)
      then show False using parts_smaller val [OF y] val [OF that(1)] by fastforce
    qed
    have ok': "forest_ok (equals_of B')"
      using constrained(1) built_invariant by (auto simp: builder_ok_def rule_ok_def)
    show ?thesis
      unfolding covered_def
    proof (intro allI impI)
      fix z cz assume z: "z \<in> items (equals_of B')" "constraint_at B' z = Some cz"
      then consider "z \<in> items m" | a where "a \<in> set xs" "z \<in> set (F a)"
        using class_items [OF work(8,3)] by blast
      then show "\<exists>y cy. (y, cy) \<in> set d' \<and> same (equals_of B') y z"
      proof cases
        case 1
        then have out: "z \<in> items (equals_of B)" "z \<notin> set xs" using work(6) by auto
        then have "constraint_at B z = Some cz" using z(2) constrained(3) [of z] by simp
        then obtain y cy where y: "(y, cy) \<in> set ((x, c) # d)" "same (equals_of B) y z"
          using assms(6) out(1) unfolding covered_def by blast
        have "y \<notin> set xs" using y(2) out(2) work(5) same_sym same_trans by (metis mem_Collect_eq)
        moreover have "y \<noteq> x" using same_sym [OF y(2)] out(2) work(5) by auto
        ultimately have "(y, cy) \<in> set d'" "same (equals_of B') y z"
          using y constrained(8) [of y z] constrained(9) work(7) by auto
        then show ?thesis by blast
      next
        case 2
        then have "z \<notin> set xs" using outside by blast
        then have "constraint_at B z = Some cz" using z(2) constrained(3) [of z] by simp
        then have "(z, cz) \<in> set d'" using constrained(11) [OF 2] by simp
        then show ?thesis using z(1) same_refl_iff [OF ok'] by blast
      qed
    qed
  qed
qed

section \<open>Termination\<close>

text \<open>
  Sets move to later bindings, of which there are fewer than \<^verbatim>\<open>u16\<close> numbers: the weight of an item
  exceeds that of the 255 fields its constraint can have.
\<close>

definition weight :: "binding_id forest \<Rightarrow> nat" where
  "weight m = (\<Sum>a\<in>items m. 256 ^ (65536 - a))"

lemma finite_items: "finite (items m)"
  by (simp add: items_def finite_dom_map_of)

lemma fields_weight:
  assumes "table_ok (rules B)" "fields_at B a c fs" "small c"
  shows "(\<Sum>y\<in>set fs. 256 ^ (65536 - y)) < (256::nat) ^ (65536 - a)"
proof (cases "fs = []")
  case False
  have len: "card (set fs) \<le> 255"
    using card_length [of fs] assms(2,3) list_all2_lengthD [OF assms(2)] length_bindings_for [of c a 0]
    by (simp add: small_def)
  have later: "a < y \<and> y < 65536" if "y \<in> set fs" for y
    using fields_at_later [OF assms(1,2) that] assms(1) by (auto simp: table_ok_def)
  obtain y where "y \<in> set fs" using False by (cases fs) auto
  then have a: "a < 65536" using later by fastforce
  have "(256::nat) ^ (65536 - y) \<le> 256 ^ (65536 - (a + 1))" if "y \<in> set fs" for y
    using later [OF that] by (intro power_increasing) auto
  from sum_bounded_above [OF this, where A = "set fs"]
  have "(\<Sum>y\<in>set fs. 256 ^ (65536 - y)) \<le> card (set fs) * (256::nat) ^ (65536 - (a + 1))"
    unfolding of_nat_id .
  also have "\<dots> \<le> 255 * 256 ^ (65536 - (a + 1))" using len by (rule mult_le_mono1)
  also have "\<dots> < 256 * 256 ^ (65536 - (a + 1))" by simp
  also have "\<dots> = 256 ^ (65536 - a)" using a by (simp add: Suc_diff_Suc flip: power_Suc)
  finally show ?thesis .
qed simp

lemma sum_Un_le: "finite A \<Longrightarrow> finite B \<Longrightarrow> sum f (A \<union> B) \<le> sum f A + sum f B" for f :: "'a \<Rightarrow> nat"
  by (simp add: sum_Un_nat)

lemma sum_UN_le:
  "finite I \<Longrightarrow> (\<And>i. i \<in> I \<Longrightarrow> finite (A i)) \<Longrightarrow> sum f (\<Union>i\<in>I. A i) \<le> (\<Sum>i\<in>I. sum f (A i))" for f :: "'a \<Rightarrow> nat"
proof (induction I rule: finite_induct)
  case (insert i I)
  then have "sum f (A i \<union> (\<Union>j\<in>I. A j)) \<le> sum f (A i) + sum f (\<Union>j\<in>I. A j)" by (intro sum_Un_le) auto
  with insert show ?case by fastforce
qed simp

lemma moves_weight:
  assumes "normalize_moves B d x c d' B'" "builder_ok B" "small c"
  shows "weight (equals_of B') < weight (equals_of B) \<or> weight (equals_of B') = weight (equals_of B) \<and> d' = d"
  using assms(1)
proof cases
  case (idle m)
  then show ?thesis by (simp add: weight_def)
next
  case (work m xs F)
  let ?w = "\<lambda>a. (256::nat) ^ (65536 - a)"
  have tbl: "table_ok (rules B')" using moves_ok(1) [OF assms(1,2)] by (simp add: builder_ok_def)
  have fields: "a \<in> set xs \<Longrightarrow> fields_at B' a c (F a)" for a using work(8) by cases
  have "weight (equals_of B') \<le> sum ?w (items m \<union> (\<Union>a\<in>set xs. set (F a)))"
    unfolding weight_def using class_items [OF work(8,3)] by (intro sum_mono2) (auto simp: finite_items)
  also have "\<dots> \<le> sum ?w (items m) + sum ?w (\<Union>a\<in>set xs. set (F a))"
    by (rule sum_Un_le) (auto simp: finite_items)
  also have "sum ?w (\<Union>a\<in>set xs. set (F a)) \<le> (\<Sum>a\<in>set xs. sum ?w (set (F a)))"
    by (rule sum_UN_le) auto
  also have "(\<Sum>a\<in>set xs. sum ?w (set (F a))) < sum ?w (set xs)"
    using work(3) by (intro sum_strict_mono fields_weight [OF tbl fields assms(3)]) auto
  also have "sum ?w (items m) + sum ?w (set xs) = weight (equals_of B)"
    unfolding weight_def work(6)
    by (rule sum.subset_diff [symmetric]) (use work(5) in \<open>auto simp: finite_items dest: same_items\<close>)
  finally show ?thesis by simp
qed

section \<open>The loop\<close>

definition loop_ok :: "rs_builder \<Rightarrow> deferred \<Rightarrow> bool" where
  "loop_ok B d \<longleftrightarrow> builder_ok B \<and> (\<forall>y cy. (y, cy) \<in> set d \<longrightarrow> small cy)"

text \<open>What the loop has done when it ends.\<close>

definition normalized :: "rs_builder \<Rightarrow> deferred \<Rightarrow> rs_builder \<Rightarrow> bool" where
  "normalized B d B' \<longleftrightarrow> builder_ok B' \<and> frame B B' \<and>
     (\<forall>env. consistent env (bindings_of B') \<longrightarrow>
        (matches (current_rule B) env \<and> due d env \<longrightarrow>
           unreachable B' = unreachable B \<and> matches (current_rule B') env \<and> (covered B d \<longrightarrow> covered B' [])) \<and>
        (unreachable B' = unreachable B \<and> matches (current_rule B') env \<longrightarrow> matches (current_rule B) env))"

lemma normalized_Nil: "builder_ok B \<Longrightarrow> normalized B [] B"
  by (simp add: normalized_def)

lemma normalized_forward:
  "normalized B d B' \<Longrightarrow> consistent env (bindings_of B') \<Longrightarrow> matches (current_rule B) env \<Longrightarrow> due d env \<Longrightarrow>
     unreachable B' = unreachable B \<and> matches (current_rule B') env \<and> (covered B d \<longrightarrow> covered B' [])"
  unfolding normalized_def by blast

lemma normalized_backward:
  "normalized B d B' \<Longrightarrow> consistent env (bindings_of B') \<Longrightarrow> unreachable B' = unreachable B \<Longrightarrow>
     matches (current_rule B') env \<Longrightarrow> matches (current_rule B) env"
  unfolding normalized_def by blast

lemma normalized_step:
  assumes "normalize_moves B d x c d1 B1" "builder_ok B" "normalized B1 d1 B'"
  shows "normalized B ((x, c) # d) B'"
proof -
  have B1: "builder_ok B1" "frame B B1" using moves_ok [OF assms(1,2)] by auto
  have B': "builder_ok B'" "frame B1 B'" using assms(3) by (auto simp: normalized_def)
  have un: "unreachable B' = unreachable B \<longleftrightarrow> unreachable B1 = unreachable B \<and> unreachable B' = unreachable B1"
    using B1(2) B'(2) unfolding frame_def by (metis prefix_order.antisym)
  have con: "consistent env (bindings_of B1)" if "consistent env (bindings_of B')" for env
    using B'(2) that by (auto simp: frame_def intro: consistent_prefix)
  have "unreachable B' = unreachable B \<and> matches (current_rule B') env \<and> (covered B ((x, c) # d) \<longrightarrow> covered B' [])"
    if env: "consistent env (bindings_of B')" "matches (current_rule B) env" "due ((x, c) # d) env" for env
  proof -
    have "unreachable B1 = unreachable B \<and> matches (current_rule B1) env \<and> due d1 env"
      by (rule moves_forward [OF assms(1,2) con [OF env(1)] env(2,3)])
    moreover have "covered B ((x, c) # d) \<Longrightarrow> covered B1 d1"
      using moves_covered [OF assms(1,2) con [OF env(1)] env(2)] env(3) by (auto simp: due_def)
    ultimately show ?thesis using normalized_forward [OF assms(3) env(1)] un by metis
  qed
  moreover have "matches (current_rule B) env"
    if env: "consistent env (bindings_of B')" "unreachable B' = unreachable B" "matches (current_rule B') env" for env
    using moves_backward [OF assms(1,2) con [OF env(1)]] normalized_backward [OF assms(3) env(1)] env(2,3) un by metis
  ultimately show ?thesis using B' frame_trans [OF B1(2) B'(2)] by (simp add: normalized_def)
qed

lemma normalize_loop_ends: "loop_ok B d \<Longrightarrow> ends (normalize_loop B d) (normalized B d)"
proof (induction "(weight (equals_of B), length d)" arbitrary: B d rule: wf_induct_rule [OF wf_lex_prod [OF wf_less_than wf_less_than]])
  case 1
  have ok: "builder_ok B" using "1.prems" by (simp add: loop_ok_def)
  show ?case
  proof (cases d)
    case Nil
    then show ?thesis using normalized_Nil [OF ok] by (simp add: normalize_loop_Nil)
  next
    case (Cons xc d1)
    obtain x c where xc: "xc = (x, c)" by force
    have c: "small c" "\<And>y cy. (y, cy) \<in> set d1 \<Longrightarrow> small cy" using "1.prems" Cons xc by (auto simp: loop_ok_def)
    show ?thesis
      unfolding Cons xc normalize_loop_Cons
    proof (rule ends_after [OF normalize_step_ends [OF ok c(1)]], clarify)
      fix d2 B2 assume mv: "normalize_moves B d1 x c d2 B2"
      have "loop_ok B2 d2" using moves_ok(1) [OF mv ok] moves_small [OF mv c(2) _ ok] by (auto simp: loop_ok_def)
      moreover have "((weight (equals_of B2), length d2), (weight (equals_of B), length d)) \<in> less_than <*lex*> less_than"
        using moves_weight [OF mv ok c(1)] Cons by auto
      ultimately have "ends (normalize_loop B2 d2) (normalized B2 d2)" by (intro "1.hyps")
      then show "ends (normalize_loop B2 d2) (normalized B ((x, c) # d1))"
        by (rule ends_weaken) (rule normalized_step [OF mv ok])
    qed
  qed
qed

section \<open>The whole pass\<close>

lemma defer_roots_ok:
  "built m \<Longrightarrow> \<exists>d' m'. defer_roots m d cs = Some (Ok (d', m')) \<and> built m' \<and> root m' = root m \<and> items m' = items m \<and>
     set d' = set d \<union> {(r, c). \<exists>b. (b, c) \<in> set cs \<and> root m b r}"
proof (induction cs arbitrary: m d)
  case (Cons bc cs)
  obtain b c where bc: "bc = (b, c)" by force
  have "forest_ok m" using built_invariant [OF Cons.prems] by simp
  from find_mut_ok [OF this, of b] obtain r m1 where r: "find_mut m b = Some (Ok (r, m1))" "tidied m m1"
    "case r of None \<Rightarrow> b \<notin> items m | Some s \<Rightarrow> root m b s" by blast
  let ?d = "case r of Some s \<Rightarrow> (s, c) # d | None \<Rightarrow> d"
  have d: "set ?d = set d \<union> {(s, c'). c' = c \<and> root m b s}"
    using r(3) root_functional [of m b] root_item [of m b] by (cases r) auto
  have m1: "root m1 = root m" "items m1 = items m" using r(2) by (auto simp: tidied_def)
  from Cons.IH [OF built.found [OF Cons.prems r(1)], of ?d] obtain d' m' where
    "defer_roots m1 ?d cs = Some (Ok (d', m'))" "built m'" "root m' = root m" "items m' = items m"
    "set d' = set ?d \<union> {(s, c). \<exists>b. (b, c) \<in> set cs \<and> root m b s}" unfolding m1 by blast
  then show ?case using r(1) by (intro exI [of _ d'] exI [of _ m']) (auto simp: bc d)
qed auto

text \<open>What normalisation of a whole rule promises.\<close>

definition normalizes :: "rs_builder \<Rightarrow> rs_builder \<Rightarrow> bool" where
  "normalizes B B' \<longleftrightarrow> builder_ok B' \<and> frame B B' \<and>
     (\<forall>env. consistent env (bindings_of B') \<longrightarrow>
        (matches (current_rule B) env \<longleftrightarrow> unreachable B' = unreachable B \<and> matches (current_rule B') env) \<and>
        (matches (current_rule B) env \<longrightarrow> covered B' []))"

lemma normalized_normalizes:
  assumes "normalized (with_equals B m) d B'" "covered (with_equals B m) d"
    and "\<And>env. matches (current_rule (with_equals B m)) env \<longleftrightarrow> matches (current_rule B) env"
    and "\<And>env. matches (current_rule B) env \<Longrightarrow> due d env"
  shows "normalizes B B'"
proof -
  have "unreachable (with_equals B m) = unreachable B" by simp
  moreover have "builder_ok B'" "frame (with_equals B m) B'" using assms(1) by (auto simp: normalized_def)
  then have "builder_ok B'" "frame B B'" using frame_trans [OF frame_equals] by blast+
  ultimately show ?thesis
    using normalized_forward [OF assms(1)] normalized_backward [OF assms(1)] assms(2-4)
    unfolding normalizes_def by metis
qed

lemma normalize_ends:
  assumes "builder_ok B"
  shows "ends (normalize_equivalence_classes B) (normalizes B)"
proof -
  have ok: "built (equals_of B)" "hm_ok (constraints (current_rule B))"
    using assms by (auto simp: builder_ok_def rule_ok_def)
  from defer_roots_ok [OF ok(1), of "[]" "constraints (current_rule B)"] obtain d m where
    d: "defer_roots (equals_of B) [] (constraints (current_rule B)) = Some (Ok (d, m))" "built m"
      "root m = root (equals_of B)" "items m = items (equals_of B)"
      "set d = {(r, c). \<exists>b. constraint_at B b = Some c \<and> root (equals_of B) b r}"
    unfolding hm_mem_get [OF ok(2)] by auto
  let ?B = "with_equals B m"
  have same: "same m = same (equals_of B)" by (simp add: same_def d(3) fun_eq_iff)
  have "builder_ok ?B" using assms d(2,4) by (simp add: builder_ok_def rule_ok_def)
  moreover have "small c" if "(r, c) \<in> set d" for r c using that assms unfolding d(5) builder_ok_def by blast
  ultimately have "ends (normalize_loop ?B d) (normalized ?B d)"
    by (intro normalize_loop_ends) (auto simp: loop_ok_def)
  moreover have matches: "matches (current_rule ?B) env \<longleftrightarrow> matches (current_rule B) env" for env
    by (simp add: matches_def agrees_def same)
  moreover have "due d env" if "matches (current_rule B) env" for env
  proof -
    have "accepts c (env r)" if c: "constraint_at B b = Some c" "root (equals_of B) b r" for b c r
    proof -
      have "same (equals_of B) b r" using c(2) root_root [OF c(2)] by (auto simp: same_def)
      then have "env b = env r"
        using \<open>matches (current_rule B) env\<close> by (simp add: matches_def agrees_def)
      moreover have "accepts c (env b)"
        using \<open>matches (current_rule B) env\<close> c(1) by (simp add: matches_def satisfies_def)
      ultimately show ?thesis by simp
    qed
    then show ?thesis by (auto simp: due_def d(5))
  qed
  moreover have "covered ?B d"
  proof -
    have "\<exists>y cy. (y, cy) \<in> set d \<and> same m y z" if z: "z \<in> items m" "constraint_at B z = Some cz" for z cz
    proof -
      obtain r where r: "root (equals_of B) z r"
        using z(1) ok_root [of m] built_invariant [OF d(2)] d(3) by auto
      then have "(r, cz) \<in> set d" "same m r z" using z(2) r root_root [OF r] unfolding d(5) same_def d(3) by auto
      then show ?thesis by blast
    qed
    then show ?thesis by (simp add: covered_def)
  qed
  ultimately have "ends (normalize_loop ?B d) (normalizes B)"
    using normalized_normalizes [where B = B and m = m and d = d] by (blast intro: ends_weaken)
  then show ?thesis using d(1) by (simp add: normalize_equivalence_classes_def)
qed

section \<open>Properties\<close>

text \<open>Two pairs of arguments that must be equal; one argument of the first pair is constrained.\<close>

definition sample_rule :: "(binding_id, trie_constraint) hashmap \<Rightarrow> binding_id forest \<Rightarrow> trie_rule" where
  "sample_rule cs m = \<lparr>rule_id = 0, rule_pos = pos_new 0 0, constraints = cs, equals = m, iterators = {},
     prio = 0, rule_name = None, impure = [], result = 0\<rparr>"

definition sample_builder :: "(binding_id, trie_constraint) hashmap \<Rightarrow> binding_id forest \<Rightarrow> binding list \<Rightarrow> rs_builder" where
  "sample_builder cs m bs = \<lparr>current_rule = sample_rule cs m, impure_instance = 0, unreachable = [],
     rules = \<lparr>rs_rules = [], rs_bindings = bs, rs_map = zip bs [0..<length bs]\<rparr>\<rparr>"

abbreviation equal_arguments :: rs_builder where
  "equal_arguments \<equiv> sample_builder [(2, CConstInt 7 3)] [(0, (0, Suc 0)), (2, (0, 0)), (3, (3, Suc 0)), (4, (3, 0))]
     (map BArgument [0, 5, 2, 3, 4])"

lemmas normalize_evaluate = sample_builder_def sample_rule_def normalize_equivalence_classes_def
  normalize_loop_Nil normalize_loop_Cons normalize_step_def remove_set_of_def find_mut.simps merge_def root_node_def
  link_def set_constraint_def note_constraint_def rule_set_constraint_def dedup_binding_def defer_site_def
  get_constraint_def saturating_add_u8_def

lemma sample_table:
  assumes "distinct bs" "length bs \<le> 65536" "\<forall>i<length bs. \<forall>s\<in>set (binding_sources (bs ! i)). s < i"
  shows "table_ok \<lparr>rs_rules = rs, rs_bindings = bs, rs_map = zip bs [0..<length bs]\<rparr>"
proof -
  have "hm_get (zip bs [0..<length bs]) b = Some i \<longleftrightarrow> i < length bs \<and> bs ! i = b" for b i
    using assms(1) by (subst map_of_eq_Some_iff) (auto simp: in_set_zip)
  then show ?thesis using assms(2,3) by (simp add: table_ok_def)
qed

lemma equal_pair: "built [(0::nat, (0, Suc 0)), (2, (0, 0))]"
proof -
  have "merge ([] :: nat forest) 0 2 = Some (Ok [(0, (0, Suc 0)), (2, (0, 0))])"
    by (simp add: normalize_evaluate)
  from built.merged [OF built.default this] show ?thesis .
qed

lemma equal_arguments_ok: "builder_ok equal_arguments"
proof -
  have "merge [(0::nat, (0, Suc 0)), (2, (0, 0))] 3 4 =
      Some (Ok [(0, (0, Suc 0)), (2, (0, 0)), (3, (3, Suc 0)), (4, (3, 0))])"
    by (simp add: normalize_evaluate)
  note built.merged [OF equal_pair this]
  moreover have "table_ok (rules equal_arguments)"
    unfolding sample_builder_def rs_builder.simps by (rule sample_table) (auto simp: less_Suc_eq)
  ultimately show ?thesis
    by (auto simp: builder_ok_def rule_ok_def sample_builder_def sample_rule_def items_def small_def hm_ok_def
        split: if_splits)
qed

lemma equal_arguments_normalized:
  "normalize_equivalence_classes equal_arguments =
     Some (Ok (sample_builder [(2, CConstInt 7 3), (0, CConstInt 7 3)] [(3, (3, Suc 0)), (4, (3, 0))]
       (map BArgument [0, 5, 2, 3, 4])))"
  by (simp add: normalize_evaluate)

text \<open>
  C22. Normalisation of a rule comes to an end: on every well-formed builder the work list of
  normalize_equivalence_classes is used up, even for equalities that make a binding equal to a
  part of itself, and the pass returns (or reports that ids of bindings no longer fit 16 bits).
\<close>

theorem normalize_terminates:
  assumes "builder_ok B"
  shows "\<exists>B'. normalize_equivalence_classes B = Some (Ok B') \<or> normalize_equivalence_classes B = Some Panic"
  using normalize_ends [OF assms] by (auto simp: ends_def)

theorem normalize_terminates_witness:
  "normalize_equivalence_classes equal_arguments \<noteq> None"
  using normalize_terminates [OF equal_arguments_ok] by auto

text \<open>
  C23. Normalisation does not change what a rule means: a consistent valuation of the bindings is
  matched by the rule as it was exactly when no contradiction was recorded and the normalised rule
  matches it. In particular a rule with a recorded contradiction matches nothing.
\<close>

theorem normalize_preserves_matches:
  assumes "builder_ok B" "normalize_equivalence_classes B = Some (Ok B')" "consistent env (bindings_of B')"
  shows "matches (current_rule B) env \<longleftrightarrow> unreachable B' = unreachable B \<and> matches (current_rule B') env"
  using ends_OkD [OF normalize_ends [OF assms(1)] assms(2)] assms(3) by (simp add: normalizes_def)

theorem normalize_preserves_matches_witness:
  "matches (current_rule equal_arguments) (\<lambda>_. VInt 7 3)"
proof -
  have "matches (sample_rule [(2, CConstInt 7 3), (0, CConstInt 7 3)] [(3, (3, Suc 0)), (4, (3, 0))]) (\<lambda>_. VInt 7 3)"
    by (auto simp: matches_def satisfies_def agrees_def sample_rule_def split: if_splits)
  moreover have "consistent (\<lambda>_. VInt 7 3) (map BArgument [0, 5, 2, 3, 4])"
    by (auto simp: consistent_def less_Suc_eq)
  ultimately show ?thesis
    by (subst normalize_preserves_matches [OF equal_arguments_ok equal_arguments_normalized]) (simp_all add: sample_builder_def)
qed

text \<open>
  C24. Normalisation separates constraints from equalities on every rule that can match: when some
  consistent valuation matches the rule, no binding that is left in a set of equal bindings has a
  constraint of its own.
\<close>

theorem normalize_separates:
  assumes "builder_ok B" "normalize_equivalence_classes B = Some (Ok B')"
    and "consistent env (bindings_of B')" "matches (current_rule B) env" "x \<in> items (equals_of B')"
  shows "get_constraint (current_rule B') x = None"
  using ends_OkD [OF normalize_ends [OF assms(1)] assms(2)] assms(3-5)
  by (cases "constraint_at B' x") (auto simp: normalizes_def covered_def get_constraint_def)

theorem normalize_separates_witness:
  "get_constraint (sample_rule [(2, CConstInt 7 3), (0, CConstInt 7 3)] [(3, (3, Suc 0)), (4, (3, 0))]) 4 = None"
proof -
  have "consistent (\<lambda>_. VInt 7 3) (map BArgument [0, 5, 2, 3, 4])"
    by (auto simp: consistent_def less_Suc_eq)
  moreover have "matches (current_rule equal_arguments) (\<lambda>_. VInt 7 3)"
    by (auto simp: matches_def satisfies_def agrees_def sample_builder_def sample_rule_def split: if_splits)
  ultimately show ?thesis
    using normalize_separates [OF equal_arguments_ok equal_arguments_normalized, of "\<lambda>_. VInt 7 3" 4]
    by (simp add: sample_builder_def sample_rule_def items_def dom_def)
qed

end
