(* ===== verification/Isle_Ast.thy ===== *)
theory Isle_Ast
  imports Isle_Pos
begin

text \<open>
  Patterns and expressions of the syntax tree (\<^verbatim>\<open>isle/src/ast.rs\<close>), and the two operations behind
  extractor macros: turning the right-hand side of an extractor into a template, and substituting
  the arguments of a use into it.
\<close>

section \<open>Patterns and expressions\<close>

datatype ast_pattern =
    AVar ident pos
  | ABindPattern ident ast_pattern pos
  | AConstInt int pos
  | AConstPrim ident pos
  | ATerm ident "ast_pattern list" pos
  | AWildcard pos
  | AAnd "ast_pattern list" pos
  | AMacroArg nat pos

fun root_term :: "ast_pattern \<Rightarrow> ident option" where
  "root_term (ATerm s _ _) = Some s"
| "root_term _ = None"

text \<open>The callback of \<^verbatim>\<open>terms\<close> sees the terms in this order.\<close>

fun pattern_terms :: "ast_pattern \<Rightarrow> (pos \<times> ident) list" where
  "pattern_terms (ATerm s args p) = (p, s) # concat (map pattern_terms args)"
| "pattern_terms (AAnd subpats _) = concat (map pattern_terms subpats)"
| "pattern_terms (ABindPattern _ subpat _) = pattern_terms subpat"
| "pattern_terms _ = []"

fun pattern_pos :: "ast_pattern \<Rightarrow> pos" where
  "pattern_pos (AVar _ p) = p"
| "pattern_pos (ABindPattern _ _ p) = p"
| "pattern_pos (AConstInt _ p) = p"
| "pattern_pos (AConstPrim _ p) = p"
| "pattern_pos (ATerm _ _ p) = p"
| "pattern_pos (AWildcard p) = p"
| "pattern_pos (AAnd _ p) = p"
| "pattern_pos (AMacroArg _ p) = p"

datatype ast_expr =
    ETerm ident "ast_expr list" pos
  | EVar ident pos
  | EConstInt int pos
  | EConstPrim ident pos
  | ELet "ast_let_def list" ast_expr pos
and ast_let_def = LetDef (let_var: ident) (let_ty: ident) (let_val: ast_expr) (let_pos: pos)

fun expr_pos :: "ast_expr \<Rightarrow> pos" where
  "expr_pos (ETerm _ _ p) = p"
| "expr_pos (EVar _ p) = p"
| "expr_pos (EConstInt _ p) = p"
| "expr_pos (EConstPrim _ p) = p"
| "expr_pos (ELet _ _ p) = p"

fun expr_terms :: "ast_expr \<Rightarrow> (pos \<times> ident) list" and
  let_terms :: "ast_let_def \<Rightarrow> (pos \<times> ident) list" where
  "expr_terms (ETerm s args p) = (p, s) # concat (map expr_terms args)"
| "expr_terms (ELet defs body _) = concat (map let_terms defs) @ expr_terms body"
| "expr_terms (EVar _ _) = []"
| "expr_terms (EConstInt _ _) = []"
| "expr_terms (EConstPrim _ _) = []"
| "let_terms (LetDef _ _ val _) = expr_terms val"

section \<open>Extractor macros\<close>

text \<open>\<^verbatim>\<open>Iterator::position\<close> on the names of the macro's parameters.\<close>

fun position_of :: "string \<Rightarrow> ident list \<Rightarrow> nat option" where
  "position_of x [] = None"
| "position_of x (a # as) = (if fst a = x then Some 0 else map_option Suc (position_of x as))"

fun is_wildcard :: "ast_pattern \<Rightarrow> bool" where
  "is_wildcard (AWildcard _) = True"
| "is_wildcard _ = False"

fun make_macro_template :: "ident list \<Rightarrow> ast_pattern \<Rightarrow> (unit, ast_pattern) outcome" and
  make_macro_templates :: "ident list \<Rightarrow> ast_pattern list \<Rightarrow> (unit, ast_pattern list) outcome" where
  "make_macro_template macro_args (ABindPattern var subpat p) =
     (if is_wildcard subpat
      then (case position_of (fst var) macro_args of
              Some i \<Rightarrow> Ok (AMacroArg i p)
            | None \<Rightarrow> Ok (ABindPattern var subpat p))
      else oc_bind (make_macro_template macro_args subpat) (\<lambda>subpat. Ok (ABindPattern var subpat p)))"
| "make_macro_template macro_args (AVar var p) =
     (case position_of (fst var) macro_args of Some i \<Rightarrow> Ok (AMacroArg i p) | None \<Rightarrow> Ok (AVar var p))"
| "make_macro_template macro_args (AAnd subpats p) =
     oc_bind (make_macro_templates macro_args subpats) (\<lambda>subpats. Ok (AAnd subpats p))"
| "make_macro_template macro_args (ATerm s args p) =
     oc_bind (make_macro_templates macro_args args) (\<lambda>args. Ok (ATerm s args p))"
| "make_macro_template macro_args (AWildcard p) = Ok (AWildcard p)"
| "make_macro_template macro_args (AConstInt val p) = Ok (AConstInt val p)"
| "make_macro_template macro_args (AConstPrim val p) = Ok (AConstPrim val p)"
| "make_macro_template macro_args (AMacroArg _ _) = Panic"
| "make_macro_templates macro_args [] = Ok []"
| "make_macro_templates macro_args (q # qs) =
     oc_bind (make_macro_template macro_args q) (\<lambda>q.
     oc_bind (make_macro_templates macro_args qs) (\<lambda>qs. Ok (q # qs)))"

fun subst_macro_args :: "ast_pattern list \<Rightarrow> ast_pattern \<Rightarrow> ast_pattern option" and
  subst_all :: "ast_pattern list \<Rightarrow> ast_pattern list \<Rightarrow> ast_pattern list option" where
  "subst_macro_args macro_args (ABindPattern var subpat p) =
     map_option (\<lambda>subpat. ABindPattern var subpat p) (subst_macro_args macro_args subpat)"
| "subst_macro_args macro_args (AAnd subpats p) = map_option (\<lambda>subpats. AAnd subpats p) (subst_all macro_args subpats)"
| "subst_macro_args macro_args (ATerm s args p) = map_option (\<lambda>args. ATerm s args p) (subst_all macro_args args)"
| "subst_macro_args macro_args (AVar var p) = Some (AVar var p)"
| "subst_macro_args macro_args (AWildcard p) = Some (AWildcard p)"
| "subst_macro_args macro_args (AConstInt val p) = Some (AConstInt val p)"
| "subst_macro_args macro_args (AConstPrim val p) = Some (AConstPrim val p)"
| "subst_macro_args macro_args (AMacroArg index _) = (if index < length macro_args then Some (macro_args ! index) else None)"
| "subst_all macro_args [] = Some []"
| "subst_all macro_args (q # qs) =
     (case subst_macro_args macro_args q of
        None \<Rightarrow> None
      | Some q \<Rightarrow> map_option (\<lambda>qs. q # qs) (subst_all macro_args qs))"

section \<open>Templates\<close>

text \<open>Source patterns have no macro arguments; the parser never makes one.\<close>

fun no_macro_arg :: "ast_pattern \<Rightarrow> bool" where
  "no_macro_arg (AMacroArg _ _) \<longleftrightarrow> False"
| "no_macro_arg (ABindPattern _ q _) \<longleftrightarrow> no_macro_arg q"
| "no_macro_arg (ATerm _ qs _) \<longleftrightarrow> list_all no_macro_arg qs"
| "no_macro_arg (AAnd qs _) \<longleftrightarrow> list_all no_macro_arg qs"
| "no_macro_arg _ \<longleftrightarrow> True"

text \<open>
  Substitution as the templates do it: a parameter \<open>x\<close> that is bound as \<open>x @ q\<close>, with \<open>q\<close> not the
  wildcard, stays as it is.
\<close>

fun instantiate :: "(string \<Rightarrow> ast_pattern option) \<Rightarrow> ast_pattern \<Rightarrow> ast_pattern" where
  "instantiate \<sigma> (ABindPattern var q p) =
     (case \<sigma> (fst var) of
        Some r \<Rightarrow> if is_wildcard q then r else ABindPattern var (instantiate \<sigma> q) p
      | None \<Rightarrow> ABindPattern var (instantiate \<sigma> q) p)"
| "instantiate \<sigma> (AVar var p) = (case \<sigma> (fst var) of Some r \<Rightarrow> r | None \<Rightarrow> AVar var p)"
| "instantiate \<sigma> (AAnd qs p) = AAnd (map (instantiate \<sigma>) qs) p"
| "instantiate \<sigma> (ATerm s qs p) = ATerm s (map (instantiate \<sigma>) qs) p"
| "instantiate \<sigma> q = q"

text \<open>
  The reference: every mention of a parameter is replaced. At \<open>x @ q\<close> both the argument and \<open>q\<close> must
  match, and \<open>x @ _\<close> is just the argument.
\<close>

fun substitute :: "(string \<Rightarrow> ast_pattern option) \<Rightarrow> ast_pattern \<Rightarrow> ast_pattern" where
  "substitute \<sigma> (ABindPattern var q p) =
     (case \<sigma> (fst var) of
        Some r \<Rightarrow> if is_wildcard q then r else AAnd [r, substitute \<sigma> q] p
      | None \<Rightarrow> ABindPattern var (substitute \<sigma> q) p)"
| "substitute \<sigma> (AVar var p) = (case \<sigma> (fst var) of Some r \<Rightarrow> r | None \<Rightarrow> AVar var p)"
| "substitute \<sigma> (AAnd qs p) = AAnd (map (substitute \<sigma>) qs) p"
| "substitute \<sigma> (ATerm s qs p) = ATerm s (map (substitute \<sigma>) qs) p"
| "substitute \<sigma> q = q"

text \<open>The variables a pattern mentions, and that it binds no parameter as \<open>x @ q\<close> with \<open>q\<close> not the wildcard.\<close>

fun mentions :: "ast_pattern \<Rightarrow> string set" where
  "mentions (ABindPattern var q _) = insert (fst var) (mentions q)"
| "mentions (AVar var _) = {fst var}"
| "mentions (AAnd qs _) = (\<Union>q\<in>set qs. mentions q)"
| "mentions (ATerm _ qs _) = (\<Union>q\<in>set qs. mentions q)"
| "mentions _ = {}"

fun no_bound_parameter :: "ident list \<Rightarrow> ast_pattern \<Rightarrow> bool" where
  "no_bound_parameter params (ABindPattern var q _) \<longleftrightarrow>
     (is_wildcard q \<or> fst var \<notin> fst ` set params) \<and> no_bound_parameter params q"
| "no_bound_parameter params (AAnd qs _) \<longleftrightarrow> list_all (no_bound_parameter params) qs"
| "no_bound_parameter params (ATerm _ qs _) \<longleftrightarrow> list_all (no_bound_parameter params) qs"
| "no_bound_parameter params _ \<longleftrightarrow> True"

definition actual :: "ident list \<Rightarrow> ast_pattern list \<Rightarrow> string \<Rightarrow> ast_pattern option" where
  "actual params args x = map_option (\<lambda>i. args ! i) (position_of x params)"

lemma position_of_less: "position_of x as = Some i \<Longrightarrow> i < length as"
  by (induction as arbitrary: i) (auto split: if_splits)

lemma position_of_None: "position_of x as = None \<longleftrightarrow> x \<notin> fst ` set as"
  by (induction as) auto

lemma is_wildcardD: "is_wildcard q \<Longrightarrow> \<exists>p. q = AWildcard p"
  by (cases q) auto

lemma template_instantiates:
  "no_macro_arg q \<Longrightarrow> length params \<le> length args \<Longrightarrow>
     \<exists>t. make_macro_template params q = Ok t \<and> subst_macro_args args t = Some (instantiate (actual params args) q)"
  "list_all no_macro_arg qs \<Longrightarrow> length params \<le> length args \<Longrightarrow>
     \<exists>ts. make_macro_templates params qs = Ok ts \<and> subst_all args ts = Some (map (instantiate (actual params args)) qs)"
  apply (induction params q and params qs rule: make_macro_template_make_macro_templates.induct)
  apply (auto simp: actual_def split: option.splits dest!: is_wildcardD dest: position_of_less)
  done

lemma instantiate_substitute:
  "no_bound_parameter params q \<Longrightarrow> instantiate (actual params args) q = substitute (actual params args) q"
proof (induction params q rule: no_bound_parameter.induct)
  case (1 params var q p)
  then show ?case
    using position_of_None [of "fst var" params]
    by (cases "position_of (fst var) params") (auto simp: actual_def)
qed (auto simp: list_all_iff)

lemma mentions_substitute:
  "mentions (substitute \<sigma> q) \<subseteq> (mentions q - dom \<sigma>) \<union> (\<Union>r\<in>ran \<sigma>. mentions r)"
proof (induction \<sigma> q rule: substitute.induct)
  case (1 \<sigma> var q p)
  then show ?case by (cases "\<sigma> (fst var)") (auto simp: ran_def)
next
  case (2 \<sigma> var p)
  then show ?case by (cases "\<sigma> (fst var)") (auto simp: ran_def)
next
  case (3 \<sigma> qs p)
  then show ?case unfolding substitute.simps mentions.simps set_map by blast
next
  case (4 \<sigma> s qs p)
  then show ?case unfolding substitute.simps mentions.simps set_map by blast
qed simp_all

lemma actual_ranges:
  assumes "length args = length params"
  shows "dom (actual params args) = fst ` set params" "ran (actual params args) \<subseteq> set args"
proof -
  show "dom (actual params args) = fst ` set params"
    using position_of_None [of _ params] unfolding dom_def actual_def by auto
  show "ran (actual params args) \<subseteq> set args"
    using position_of_less assms by (fastforce simp: actual_def ran_def)
qed

section \<open>Properties\<close>

text \<open>Patterns up to positions and up to writing a first mention of a variable as \<open>x\<close> or as \<open>x @ _\<close>.\<close>

fun plain :: "ast_pattern \<Rightarrow> ast_pattern" where
  "plain (ABindPattern x q p) =
     (if is_wildcard q then AVar (fst x, pos_new 0 0) (pos_new 0 0) else ABindPattern (fst x, pos_new 0 0) (plain q) (pos_new 0 0))"
| "plain (AVar x p) = AVar (fst x, pos_new 0 0) (pos_new 0 0)"
| "plain (AConstInt v p) = AConstInt v (pos_new 0 0)"
| "plain (AConstPrim v p) = AConstPrim (fst v, pos_new 0 0) (pos_new 0 0)"
| "plain (ATerm s qs p) = ATerm (fst s, pos_new 0 0) (map plain qs) (pos_new 0 0)"
| "plain (AWildcard p) = AWildcard (pos_new 0 0)"
| "plain (AAnd qs p) = AAnd (map plain qs) (pos_new 0 0)"
| "plain (AMacroArg i p) = AMacroArg i (pos_new 0 0)"

lemma plain_var: "plain r = AVar x p \<Longrightarrow> \<not> is_wildcard r"
  by (cases r) auto

lemma plain_instantiate:
  assumes "\<And>x r. \<sigma> x = Some r \<Longrightarrow> plain r = AVar (x, pos_new 0 0) (pos_new 0 0)"
  shows "plain (instantiate \<sigma> q) = plain q \<and> (is_wildcard (instantiate \<sigma> q) \<longleftrightarrow> is_wildcard q)"
  by (induction q) (auto split: option.splits dest: assms plain_var)

text \<open>
  C35. Expanding a use of an extractor macro. For a source pattern that binds no parameter as
  \<open>x @ q\<close> with \<open>q\<close> not the wildcard (there the code keeps the parameter and drops its argument), the
  template is made, and substituting as many arguments as the macro has parameters succeeds and
  puts each argument at every mention of its parameter. So the expansion mentions no parameter,
  unless an argument does, and no other variable than those of the pattern and of the arguments.
\<close>

theorem macro_expansion:
  assumes "no_macro_arg q" "no_bound_parameter params q" "length args = length params"
  shows "\<exists>t q'. make_macro_template params q = Ok t \<and> subst_macro_args args t = Some q' \<and>
    q' = substitute (actual params args) q \<and>
    mentions q' \<subseteq> (mentions q - fst ` set params) \<union> (\<Union>r\<in>set args. mentions r)"
proof -
  have "mentions (substitute (actual params args) q) \<subseteq> (mentions q - fst ` set params) \<union> (\<Union>r\<in>set args. mentions r)"
    using mentions_substitute [of "actual params args" q] actual_ranges(2) [OF assms(3)]
    unfolding actual_ranges(1) [OF assms(3)] by blast
  then show ?thesis
    using template_instantiates(1) [OF assms(1), of params args] assms(3) instantiate_substitute [OF assms(2)] by auto
qed

theorem macro_expansion_witness:
  "\<exists>t. make_macro_template [(''x'', pos_new 2 3)] (ATerm (''f'', pos_new 2 7) [AVar (''x'', pos_new 2 8) (pos_new 2 8), AWildcard (pos_new 2 9)] (pos_new 2 6)) = Ok t \<and>
     subst_macro_args [AConstInt 5 (pos_new 4 4)] t = Some (ATerm (''f'', pos_new 2 7) [AConstInt 5 (pos_new 4 4), AWildcard (pos_new 2 9)] (pos_new 2 6))"
  using macro_expansion [of "ATerm (''f'', pos_new 2 7) [AVar (''x'', pos_new 2 8) (pos_new 2 8), AWildcard (pos_new 2 9)] (pos_new 2 6)"
      "[(''x'', pos_new 2 3)]" "[AConstInt 5 (pos_new 4 4)]"]
  by (simp add: actual_def)

text \<open>
  C36. Templates lose nothing: substituting the parameters themselves into the template of a source
  pattern gives the pattern back, up to positions and the spelling of first mentions.
\<close>

theorem macro_roundtrip:
  assumes "no_macro_arg q"
  shows "\<exists>t q'. make_macro_template params q = Ok t \<and>
    subst_macro_args (map (\<lambda>a. AVar a (snd a)) params) t = Some q' \<and> plain q' = plain q"
proof -
  have "plain r = AVar (x, pos_new 0 0) (pos_new 0 0)" if "actual params (map (\<lambda>a. AVar a (snd a)) params) x = Some r" for x r
  proof -
    have "position_of x params = Some i \<Longrightarrow> fst (params ! i) = x" for i
      by (induction params arbitrary: i) (auto split: if_splits)
    then show ?thesis using that position_of_less by (fastforce simp: actual_def)
  qed
  then show ?thesis
    using template_instantiates(1) [OF assms, of params "map (\<lambda>a. AVar a (snd a)) params"] plain_instantiate by auto
qed

theorem macro_roundtrip_witness:
  "\<exists>t q'. make_macro_template [(''x'', pos_new 2 3)] (AVar (''x'', pos_new 2 8) (pos_new 2 8)) = Ok t \<and>
    subst_macro_args [AVar (''x'', pos_new 2 3) (pos_new 2 3)] t = Some q' \<and> plain q' = AVar (''x'', pos_new 0 0) (pos_new 0 0)"
  using macro_roundtrip [of "AVar (''x'', pos_new 2 8) (pos_new 2 8)" "[(''x'', pos_new 2 3)]"] by simp

end
