(* ===== verification/Sema_Terms.thy ===== *)
theory Sema_Terms
  imports Isle_Ast
begin

text \<open>
  Terms and rules after semantic analysis (\<^verbatim>\<open>isle/src/sema.rs\<close>): types, terms and their kinds, typed
  patterns and expressions, and the visitors that walk over them. A trait with its implementation
  is a record of functions that pass the visitor's state.
\<close>

section \<open>Types\<close>

type_synonym var_id = nat
type_synonym field_id = nat

record sema_field =
  field_name :: sym
  field_id :: field_id
  field_ty :: type_id

record sema_variant =
  variant_name :: sym
  variant_fullname :: sym
  variant_id :: variant_id
  variant_fields :: "sema_field list"
  variant_pos :: pos

datatype sema_type =
    TyPrimitive type_id sym pos
  | TyEnum (ty_name: sym) (ty_id: type_id) (ty_extern: bool) (ty_nodebug: bool) (ty_variants: "sema_variant list") (ty_pos: pos)

fun type_id_of :: "sema_type \<Rightarrow> type_id" where
  "type_id_of (TyPrimitive i _ _) = i"
| "type_id_of (TyEnum _ i _ _ _ _) = i"

fun type_pos :: "sema_type \<Rightarrow> pos" where
  "type_pos (TyPrimitive _ _ p) = p"
| "type_pos (TyEnum _ _ _ _ _ p) = p"

fun is_prim :: "sema_type \<Rightarrow> bool" where
  "is_prim (TyPrimitive _ _ _) \<longleftrightarrow> True"
| "is_prim (TyEnum _ _ _ _ _ _) \<longleftrightarrow> False"

section \<open>Terms\<close>

record term_flags =
  is_pure :: bool
  is_multi :: bool
  partial_flag :: bool

datatype constructor_kind = InternalConstructor | ExternalConstructor sym

datatype extractor_kind =
    InternalExtractor ast_pattern
  | ExternalExtractor sym bool pos

datatype term_kind =
    EnumVariant variant_id
  | Decl term_flags "constructor_kind option" "extractor_kind option"

record sema_term =
  term_id :: term_id
  decl_pos :: pos
  term_name :: sym
  arg_tys :: "type_id list"
  ret_ty :: type_id
  term_kind :: term_kind

definition is_enum_variant :: "sema_term \<Rightarrow> bool" where
  "is_enum_variant t \<longleftrightarrow> (case term_kind t of EnumVariant _ \<Rightarrow> True | _ \<Rightarrow> False)"

definition is_partial :: "sema_term \<Rightarrow> bool" where
  "is_partial t \<longleftrightarrow> (case term_kind t of Decl flags _ _ \<Rightarrow> partial_flag flags | _ \<Rightarrow> False)"

definition has_constructor :: "sema_term \<Rightarrow> bool" where
  "has_constructor t \<longleftrightarrow> (case term_kind t of EnumVariant _ \<Rightarrow> True | Decl _ c _ \<Rightarrow> c \<noteq> None)"

definition has_extractor :: "sema_term \<Rightarrow> bool" where
  "has_extractor t \<longleftrightarrow> (case term_kind t of EnumVariant _ \<Rightarrow> True | Decl _ _ e \<Rightarrow> e \<noteq> None)"

definition has_external_extractor :: "sema_term \<Rightarrow> bool" where
  "has_external_extractor t \<longleftrightarrow> (case term_kind t of Decl _ _ (Some (ExternalExtractor _ _ _)) \<Rightarrow> True | _ \<Rightarrow> False)"

definition has_external_constructor :: "sema_term \<Rightarrow> bool" where
  "has_external_constructor t \<longleftrightarrow> (case term_kind t of Decl _ (Some (ExternalConstructor _)) _ \<Rightarrow> True | _ \<Rightarrow> False)"

definition has_internal_constructor :: "sema_term \<Rightarrow> bool" where
  "has_internal_constructor t \<longleftrightarrow> (case term_kind t of Decl _ (Some InternalConstructor) _ \<Rightarrow> True | _ \<Rightarrow> False)"

section \<open>External signatures\<close>

datatype return_kind = Plain | Optional | Iterated

record external_sig =
  func_name :: string
  full_name :: string
  param_tys :: "type_id list"
  ret_tys :: "type_id list"
  ret_kind :: return_kind

text \<open>The names are those of the symbol table; a symbol out of range panics.\<close>

definition sym_name :: "string list \<Rightarrow> sym \<Rightarrow> (unit, string) outcome" where
  "sym_name syms s = (if s < length syms then Ok (syms ! s) else Panic)"

definition extractor_names ::
  "sema_term \<Rightarrow> string list \<Rightarrow> extractor_kind \<Rightarrow> (unit, string \<times> string \<times> bool) outcome" where
  "extractor_names t syms kind =
     (case kind of
        InternalExtractor _ \<Rightarrow> oc_bind (sym_name syms (term_name t)) (\<lambda>n.
          let name = ''extractor_'' @ n in Ok (name, name, False))
      | ExternalExtractor name infallible _ \<Rightarrow> oc_bind (sym_name syms name) (\<lambda>n. Ok (n, ''C::'' @ n, infallible)))"

definition extractor_sig :: "sema_term \<Rightarrow> string list \<Rightarrow> (unit, external_sig option) outcome" where
  "extractor_sig t syms =
     (case term_kind t of
        Decl flags _ (Some kind) \<Rightarrow>
          oc_bind (extractor_names t syms kind) (\<lambda>(func, full, infallible).
          Ok (Some \<lparr>func_name = func, full_name = full, param_tys = [ret_ty t], ret_tys = arg_tys t,
            ret_kind = if is_multi flags then Iterated else if infallible then Plain else Optional\<rparr>))
      | _ \<Rightarrow> Ok None)"

definition constructor_names :: "sema_term \<Rightarrow> string list \<Rightarrow> constructor_kind \<Rightarrow> (unit, string \<times> string) outcome" where
  "constructor_names t syms kind =
     (case kind of
        InternalConstructor \<Rightarrow> oc_bind (sym_name syms (term_name t)) (\<lambda>n.
          let name = ''constructor_'' @ n in Ok (name, name))
      | ExternalConstructor name \<Rightarrow> oc_bind (sym_name syms name) (\<lambda>n. Ok (n, ''C::'' @ n)))"

definition constructor_sig :: "sema_term \<Rightarrow> string list \<Rightarrow> (unit, external_sig option) outcome" where
  "constructor_sig t syms =
     (case term_kind t of
        Decl flags (Some kind) _ \<Rightarrow>
          oc_bind (constructor_names t syms kind) (\<lambda>(func, full).
          Ok (Some \<lparr>func_name = func, full_name = full, param_tys = arg_tys t, ret_tys = [ret_ty t],
            ret_kind = if is_multi flags then Iterated else if partial_flag flags then Optional else Plain\<rparr>))
      | _ \<Rightarrow> Ok None)"

section \<open>Patterns, expressions and rules\<close>

datatype sema_pattern =
    PBindPattern type_id var_id sema_pattern
  | PVar type_id var_id
  | PConstInt type_id int
  | PConstPrim type_id sym
  | PTerm type_id term_id "sema_pattern list"
  | PWildcard type_id
  | PAnd type_id "sema_pattern list"

fun pattern_ty :: "sema_pattern \<Rightarrow> type_id" where
  "pattern_ty (PBindPattern t _ _) = t"
| "pattern_ty (PVar t _) = t"
| "pattern_ty (PConstInt t _) = t"
| "pattern_ty (PConstPrim t _) = t"
| "pattern_ty (PTerm t _ _) = t"
| "pattern_ty (PWildcard t) = t"
| "pattern_ty (PAnd t _) = t"

datatype sema_expr =
    XTerm type_id term_id "sema_expr list"
  | XVar type_id var_id
  | XConstInt type_id int
  | XConstPrim type_id sym
  | XLet type_id "(var_id \<times> type_id \<times> sema_expr) list" sema_expr

fun expr_ty :: "sema_expr \<Rightarrow> type_id" where
  "expr_ty (XTerm t _ _) = t"
| "expr_ty (XVar t _) = t"
| "expr_ty (XConstInt t _) = t"
| "expr_ty (XConstPrim t _) = t"
| "expr_ty (XLet t _ _) = t"

record bound_var =
  bv_id :: var_id
  bv_name :: sym
  bv_ty :: type_id
  bv_scope :: nat

record iflet =
  iflet_lhs :: sema_pattern
  iflet_rhs :: sema_expr

record sema_rule =
  sr_id :: rule_id
  root_term_id :: term_id
  sr_args :: "sema_pattern list"
  sr_iflets :: "iflet list"
  sr_rhs :: sema_expr
  sr_vars :: "bound_var list"
  sr_prio :: int
  sr_name :: "sym option"
  sr_pos :: pos

record term_env =
  env_terms :: "sema_term list"
  term_map :: "(sym, term_id) hashmap"
  env_rules :: "sema_rule list"
  rule_map :: "(sym, rule_id) hashmap"
  converters :: "(type_id \<times> type_id, term_id) hashmap"
  expand_internal_extractors :: bool

definition get_term :: "term_env \<Rightarrow> term_id \<Rightarrow> sema_term run" where
  "get_term te t = (if t < length (env_terms te) then Some (Ok (env_terms te ! t)) else Some Panic)"

section \<open>Visitors\<close>

record ('s, 'p) pattern_visitor =
  v_match_equal :: "'p \<Rightarrow> 'p \<Rightarrow> type_id \<Rightarrow> 's \<Rightarrow> 's run"
  v_match_int :: "'p \<Rightarrow> type_id \<Rightarrow> int \<Rightarrow> 's \<Rightarrow> 's run"
  v_match_prim :: "'p \<Rightarrow> type_id \<Rightarrow> sym \<Rightarrow> 's \<Rightarrow> 's run"
  v_match_variant :: "'p \<Rightarrow> type_id \<Rightarrow> type_id list \<Rightarrow> variant_id \<Rightarrow> 's \<Rightarrow> ('p list \<times> 's) run"
  v_extract :: "'p \<Rightarrow> type_id \<Rightarrow> type_id list \<Rightarrow> term_id \<Rightarrow> bool \<Rightarrow> bool \<Rightarrow> 's \<Rightarrow> ('p list \<times> 's) run"

type_synonym 'p scope = "(var_id, 'p) hashmap"

text \<open>How a term is matched: the visitor's call for a pattern \<open>PTerm ty t args\<close>.\<close>

definition match_term ::
  "('s, 'p) pattern_visitor \<Rightarrow> term_env \<Rightarrow> 'p \<Rightarrow> type_id \<Rightarrow> term_id \<Rightarrow> type_id list \<Rightarrow> 's \<Rightarrow> ('p list \<times> 's) run" where
  "match_term V te input ty t output_tys s =
     after (get_term te t) (\<lambda>termdata.
       case term_kind termdata of
         EnumVariant variant \<Rightarrow> v_match_variant V input ty (arg_tys termdata) variant s
       | Decl _ _ None \<Rightarrow> Some Panic
       | Decl flags _ (Some kind) \<Rightarrow>
           let infallible = (case kind of ExternalExtractor _ infallible _ \<Rightarrow> infallible | _ \<Rightarrow> False)
           in v_extract V input (ret_ty termdata) output_tys t (infallible \<and> \<not> is_multi flags) (is_multi flags) s)"

fun pattern_visit ::
  "('s, 'p) pattern_visitor \<Rightarrow> term_env \<Rightarrow> sema_pattern \<Rightarrow> 'p \<Rightarrow> 'p scope \<Rightarrow> 's \<Rightarrow> ('p scope \<times> 's) run" and
  patterns_visit ::
  "('s, 'p) pattern_visitor \<Rightarrow> term_env \<Rightarrow> sema_pattern list \<Rightarrow> 'p list \<Rightarrow> 'p scope \<Rightarrow> 's \<Rightarrow> ('p scope \<times> 's) run" where
  "pattern_visit V te (PBindPattern ty var subpat) input vars s =
     (if hm_get vars var \<noteq> None then Some Panic else pattern_visit V te subpat input (hm_insert var input vars) s)"
| "pattern_visit V te (PVar ty var) input vars s =
     (case hm_get vars var of
        None \<Rightarrow> Some Panic
      | Some var_val \<Rightarrow> after (v_match_equal V input var_val ty s) (\<lambda>s. Some (Ok (vars, s))))"
| "pattern_visit V te (PConstInt ty value) input vars s = after (v_match_int V input ty value s) (\<lambda>s. Some (Ok (vars, s)))"
| "pattern_visit V te (PConstPrim ty value) input vars s = after (v_match_prim V input ty value s) (\<lambda>s. Some (Ok (vars, s)))"
| "pattern_visit V te (PTerm ty t ps) input vars s =
     after (match_term V te input ty t (map pattern_ty ps) s) (\<lambda>(arg_values, s). patterns_visit V te ps arg_values vars s)"
| "pattern_visit V te (PAnd ty children) input vars s =
     patterns_visit V te children (replicate (length children) input) vars s"
| "pattern_visit V te (PWildcard ty) input vars s = Some (Ok (vars, s))"
| "patterns_visit V te (p # ps) (val # vals) vars s =
     after (pattern_visit V te p val vars s) (\<lambda>(vars, s). patterns_visit V te ps vals vars s)"
| "patterns_visit V te _ _ vars s = Some (Ok (vars, s))"

record ('s, 'e) expr_visitor =
  v_const_int :: "type_id \<Rightarrow> int \<Rightarrow> 's \<Rightarrow> ('e \<times> 's) run"
  v_const_prim :: "type_id \<Rightarrow> sym \<Rightarrow> 's \<Rightarrow> ('e \<times> 's) run"
  v_create_variant :: "('e \<times> type_id) list \<Rightarrow> type_id \<Rightarrow> variant_id \<Rightarrow> 's \<Rightarrow> ('e \<times> 's) run"
  v_construct :: "('e \<times> type_id) list \<Rightarrow> type_id \<Rightarrow> term_id \<Rightarrow> bool \<Rightarrow> bool \<Rightarrow> bool \<Rightarrow> 's \<Rightarrow> ('e \<times> 's) run"

definition build_term ::
  "('s, 'e) expr_visitor \<Rightarrow> sema_term \<Rightarrow> type_id \<Rightarrow> term_id \<Rightarrow> ('e \<times> type_id) list \<Rightarrow> 's \<Rightarrow> ('e \<times> 's) run" where
  "build_term V termdata ty t arg_values_tys s =
     (case term_kind termdata of
        EnumVariant variant \<Rightarrow> v_create_variant V arg_values_tys ty variant s
      | Decl flags (Some _) _ \<Rightarrow> v_construct V arg_values_tys ty t (is_pure flags) (\<not> partial_flag flags) (is_multi flags) s
      | Decl _ None _ \<Rightarrow> Some Panic)"

text \<open>The arguments of a term are zipped with its argument types: visiting stops one past the shorter list.\<close>

fun expr_visit ::
  "('s, 'e) expr_visitor \<Rightarrow> term_env \<Rightarrow> sema_expr \<Rightarrow> 'e scope \<Rightarrow> 's \<Rightarrow> ('e \<times> 's) run" and
  exprs_visit ::
  "('s, 'e) expr_visitor \<Rightarrow> term_env \<Rightarrow> sema_expr list \<Rightarrow> type_id list \<Rightarrow> 'e scope \<Rightarrow> 's \<Rightarrow> (('e \<times> type_id) list \<times> 's) run" and
  lets_visit ::
  "('s, 'e) expr_visitor \<Rightarrow> term_env \<Rightarrow> (var_id \<times> type_id \<times> sema_expr) list \<Rightarrow> 'e scope \<Rightarrow> 's \<Rightarrow> ('e scope \<times> 's) run" where
  "expr_visit V te (XConstInt ty val) vars s = v_const_int V ty val s"
| "expr_visit V te (XConstPrim ty val) vars s = v_const_prim V ty val s"
| "expr_visit V te (XLet ty bindings body) vars s =
     after (lets_visit V te bindings vars s) (\<lambda>(vars, s). expr_visit V te body vars s)"
| "expr_visit V te (XVar ty var_id) vars s =
     (case hm_get vars var_id of None \<Rightarrow> Some Panic | Some e \<Rightarrow> Some (Ok (e, s)))"
| "expr_visit V te (XTerm ty t arg_exprs) vars s =
     after (get_term te t) (\<lambda>termdata.
     after (exprs_visit V te arg_exprs (arg_tys termdata) vars s) (\<lambda>(arg_values_tys, s).
     build_term V termdata ty t arg_values_tys s))"
| "exprs_visit V te [] tys vars s = Some (Ok ([], s))"
| "exprs_visit V te (e # es) tys vars s =
     after (expr_visit V te e vars s) (\<lambda>(v, s).
       case tys of
         [] \<Rightarrow> Some (Ok ([], s))
       | ty # tys \<Rightarrow> after (exprs_visit V te es tys vars s) (\<lambda>(vs, s). Some (Ok ((v, ty) # vs, s))))"
| "lets_visit V te [] vars s = Some (Ok (vars, s))"
| "lets_visit V te ((var, ty, e) # bs) vars s =
     after (expr_visit V te e vars s) (\<lambda>(v, s). lets_visit V te bs (hm_insert var v vars) s)"

text \<open>
  A rule visitor lends itself as a pattern visitor or an expression visitor to a closure, which
  returns the updated scope or the type and value of the visited expression.
\<close>

record ('s, 'ps, 'es, 'p, 'e, 'x) rule_visitor =
  v_patterns :: "('ps, 'p) pattern_visitor"
  v_exprs :: "('es, 'e) expr_visitor"
  v_arg :: "nat \<Rightarrow> type_id \<Rightarrow> 's \<Rightarrow> ('p \<times> 's) run"
  v_pattern :: "('ps \<Rightarrow> ('p scope \<times> 'ps) run) \<Rightarrow> 's \<Rightarrow> ('p scope \<times> 's) run"
  v_expr :: "('es \<Rightarrow> ((type_id \<times> 'e) \<times> 'es) run) \<Rightarrow> 's \<Rightarrow> ('x \<times> 's) run"
  v_expr_as_pattern :: "'x \<Rightarrow> 's \<Rightarrow> ('p \<times> 's) run"
  v_pattern_as_expr :: "'p \<Rightarrow> 's \<Rightarrow> ('e \<times> 's) run"

fun scope_as_exprs ::
  "('s, 'ps, 'es, 'p, 'e, 'x) rule_visitor \<Rightarrow> 'p scope \<Rightarrow> 's \<Rightarrow> ('e scope \<times> 's) run" where
  "scope_as_exprs V [] s = Some (Ok ([], s))"
| "scope_as_exprs V ((var, val) # vs) s =
     after (v_pattern_as_expr V val s) (\<lambda>(e, s).
     after (scope_as_exprs V vs s) (\<lambda>(es, s). Some (Ok ((var, e) # es, s))))"

definition visit_in_rule ::
  "('s, 'ps, 'es, 'p, 'e, 'x) rule_visitor \<Rightarrow> term_env \<Rightarrow> sema_expr \<Rightarrow> 'p scope \<Rightarrow> 's \<Rightarrow> ('x \<times> 's) run" where
  "visit_in_rule V te e vars s =
     after (scope_as_exprs V vars s) (\<lambda>(var_exprs, s).
     v_expr V (\<lambda>es. after (expr_visit (v_exprs V) te e var_exprs es) (\<lambda>(v, es). Some (Ok ((expr_ty e, v), es)))) s)"

fun visit_args ::
  "('s, 'ps, 'es, 'p, 'e, 'x) rule_visitor \<Rightarrow> term_env \<Rightarrow> nat \<Rightarrow> (sema_pattern \<times> type_id) list \<Rightarrow> 'p scope \<Rightarrow> 's \<Rightarrow>
     ('p scope \<times> 's) run" where
  "visit_args V te i [] vars s = Some (Ok (vars, s))"
| "visit_args V te i ((subpat, arg_ty) # ps) vars s =
     after (v_arg V i arg_ty s) (\<lambda>(value, s).
     after (v_pattern V (pattern_visit (v_patterns V) te subpat value vars) s) (\<lambda>(vars, s).
     visit_args V te (i + 1) ps vars s))"

fun visit_iflets ::
  "('s, 'ps, 'es, 'p, 'e, 'x) rule_visitor \<Rightarrow> term_env \<Rightarrow> iflet list \<Rightarrow> 'p scope \<Rightarrow> 's \<Rightarrow> ('p scope \<times> 's) run" where
  "visit_iflets V te [] vars s = Some (Ok (vars, s))"
| "visit_iflets V te (f # fs) vars s =
     after (visit_in_rule V te (iflet_rhs f) vars s) (\<lambda>(subexpr, s).
     after (v_expr_as_pattern V subexpr s) (\<lambda>(value, s).
     after (v_pattern V (pattern_visit (v_patterns V) te (iflet_lhs f) value vars) s) (\<lambda>(vars, s).
     visit_iflets V te fs vars s)))"

definition rule_visit ::
  "('s, 'ps, 'es, 'p, 'e, 'x) rule_visitor \<Rightarrow> term_env \<Rightarrow> sema_rule \<Rightarrow> 's \<Rightarrow> ('x \<times> 's) run" where
  "rule_visit V te rule s =
     after (get_term te (root_term_id rule)) (\<lambda>termdata.
     after (visit_args V te 0 (zip (sr_args rule) (arg_tys termdata)) [] s) (\<lambda>(vars, s).
     after (visit_iflets V te (sr_iflets rule) vars s) (\<lambda>(vars, s).
     visit_in_rule V te (sr_rhs rule) vars s)))"

end
