(* ===== verification/Sema_Semantics.thy ===== *)
theory Sema_Semantics
  imports Sema_Terms Trie_Rules
begin

text \<open>
  What rules mean: a rule matches the arguments of its root term, given the values its extractors
  and constructors return, or it does not; if it does, it has a value. The contract of a visitor
  that keeps track of this meaning is a locale, and visiting a rule with it is proved once.
\<close>

section \<open>Values\<close>

text \<open>
  The arguments of the root term, the results of extractors and constructors (of the latter, one
  for each instance of an impure call), and the element an iteration has reached.
\<close>

record interp =
  i_arg :: "nat \<Rightarrow> rvalue"
  i_extract :: "term_id \<Rightarrow> rvalue \<Rightarrow> rvalue"
  i_construct :: "term_id \<Rightarrow> rvalue list \<Rightarrow> nat \<Rightarrow> rvalue"
  i_pick :: "rvalue \<Rightarrow> rvalue"

text \<open>Parts of values. A value of another shape has no parts; asking for one gives a value that is never looked at.\<close>

fun some_part :: "rvalue \<Rightarrow> rvalue" where
  "some_part (VSome x) = x"
| "some_part _ = VNone"

fun variant_part :: "rvalue \<Rightarrow> nat \<Rightarrow> rvalue" where
  "variant_part (VVariant _ _ vs) k = (if k < length vs then vs ! k else VNone)"
| "variant_part _ k = VNone"

fun tuple_part :: "rvalue \<Rightarrow> nat \<Rightarrow> rvalue" where
  "tuple_part (VTuple vs) k = (if k < length vs then vs ! k else VNone)"
| "tuple_part _ k = VNone"

definition tuple_parts :: "nat \<Rightarrow> rvalue \<Rightarrow> rvalue list" where
  "tuple_parts n x = (if n = 0 then [] else if n = 1 then [x] else map (tuple_part x) [0..<n])"

definition extract_value :: "interp \<Rightarrow> term_id \<Rightarrow> bool \<Rightarrow> bool \<Rightarrow> rvalue \<Rightarrow> rvalue option" where
  "extract_value I t infallible multi v =
     (let raw = i_extract I t v in
      if multi then Some (i_pick I raw)
      else if infallible then Some raw
      else if accepts CSome raw then Some (some_part raw) else None)"

text \<open>The value of a call, and whether the call has succeeded.\<close>

definition construct_value :: "interp \<Rightarrow> term_id \<Rightarrow> bool \<Rightarrow> bool \<Rightarrow> nat \<Rightarrow> rvalue list \<Rightarrow> rvalue \<times> bool" where
  "construct_value I t infallible multi k vs =
     (let raw = i_construct I t vs k in
      if multi then (i_pick I raw, True)
      else if infallible then (raw, True)
      else (some_part raw, accepts CSome raw))"

section \<open>Patterns\<close>

definition variant_values :: "type_id \<Rightarrow> variant_id \<Rightarrow> nat \<Rightarrow> rvalue \<Rightarrow> rvalue list option" where
  "variant_values ty variant n v =
     (if accepts (CVariant ty variant n) v then Some (map (variant_part v) [0..<n]) else None)"

definition term_values :: "interp \<Rightarrow> term_env \<Rightarrow> type_id \<Rightarrow> term_id \<Rightarrow> nat \<Rightarrow> rvalue \<Rightarrow> rvalue list option" where
  "term_values I te ty t n v =
     (if t < length (env_terms te)
      then (case term_kind (env_terms te ! t) of
              EnumVariant variant \<Rightarrow> variant_values ty variant (length (arg_tys (env_terms te ! t))) v
            | Decl _ _ None \<Rightarrow> None
            | Decl flags _ (Some kind) \<Rightarrow>
                let infallible = (case kind of ExternalExtractor _ infallible _ \<Rightarrow> infallible | _ \<Rightarrow> False)
                in map_option (tuple_parts n) (extract_value I t (infallible \<and> \<not> is_multi flags) (is_multi flags) v))
      else None)"

type_synonym store = "var_id \<rightharpoonup> rvalue"

fun pmatch :: "interp \<Rightarrow> term_env \<Rightarrow> sema_pattern \<Rightarrow> rvalue \<Rightarrow> store \<Rightarrow> store option" and
  pmatches :: "interp \<Rightarrow> term_env \<Rightarrow> sema_pattern list \<Rightarrow> rvalue list \<Rightarrow> store \<Rightarrow> store option" where
  "pmatch I te (PBindPattern ty x p) v \<sigma> = pmatch I te p v (\<sigma>(x \<mapsto> v))"
| "pmatch I te (PVar ty x) v \<sigma> = (if \<sigma> x = Some v then Some \<sigma> else None)"
| "pmatch I te (PConstInt ty i) v \<sigma> = (if accepts (CConstInt i ty) v then Some \<sigma> else None)"
| "pmatch I te (PConstPrim ty c) v \<sigma> = (if accepts (CConstPrim c) v then Some \<sigma> else None)"
| "pmatch I te (PTerm ty t ps) v \<sigma> = Option.bind (term_values I te ty t (length ps) v) (\<lambda>vs. pmatches I te ps vs \<sigma>)"
| "pmatch I te (PAnd ty ps) v \<sigma> = pmatches I te ps (replicate (length ps) v) \<sigma>"
| "pmatch I te (PWildcard ty) v \<sigma> = Some \<sigma>"
| "pmatches I te (p # ps) (v # vs) \<sigma> = Option.bind (pmatch I te p v \<sigma>) (pmatches I te ps vs)"
| "pmatches I te _ _ \<sigma> = Some \<sigma>"

section \<open>Expressions\<close>

text \<open>
  An expression has a value and a flag: whether all partial calls its value depends on have
  succeeded. The number counts the impure calls so far.
\<close>

type_synonym flagged = "var_id \<rightharpoonup> rvalue \<times> bool"

text \<open>The number of an impure call is one more than the calls before; pure calls have number 0.\<close>

definition call_number :: "bool \<Rightarrow> nat \<Rightarrow> nat" where
  "call_number pure n = (if pure then 0 else n + 1)"

definition calls_after :: "bool \<Rightarrow> nat \<Rightarrow> nat" where
  "calls_after pure n = (if pure then n else n + 1)"

definition term_value ::
  "interp \<Rightarrow> sema_term \<Rightarrow> type_id \<Rightarrow> term_id \<Rightarrow> (rvalue \<times> bool) list \<Rightarrow> nat \<Rightarrow> ((rvalue \<times> bool) \<times> nat) option" where
  "term_value I td ty t vs n =
     (case term_kind td of
        EnumVariant variant \<Rightarrow> Some ((VVariant ty variant (map fst vs), list_all snd vs), n)
      | Decl _ None _ \<Rightarrow> None
      | Decl flags (Some _) _ \<Rightarrow>
          let (v, success) =
            construct_value I t (\<not> partial_flag flags) (is_multi flags) (call_number (is_pure flags) n) (map fst vs)
          in Some ((v, success \<and> list_all snd vs), calls_after (is_pure flags) n))"

fun eval :: "interp \<Rightarrow> term_env \<Rightarrow> sema_expr \<Rightarrow> flagged \<Rightarrow> nat \<Rightarrow> ((rvalue \<times> bool) \<times> nat) option" and
  evals :: "interp \<Rightarrow> term_env \<Rightarrow> sema_expr list \<Rightarrow> nat \<Rightarrow> flagged \<Rightarrow> nat \<Rightarrow> ((rvalue \<times> bool) list \<times> nat) option" and
  eval_lets :: "interp \<Rightarrow> term_env \<Rightarrow> (var_id \<times> type_id \<times> sema_expr) list \<Rightarrow> flagged \<Rightarrow> nat \<Rightarrow> (flagged \<times> nat) option" where
  "eval I te (XConstInt ty i) \<sigma> n = Some ((VInt i ty, True), n)"
| "eval I te (XConstPrim ty c) \<sigma> n = Some ((VPrim c, True), n)"
| "eval I te (XLet ty bs e) \<sigma> n = Option.bind (eval_lets I te bs \<sigma> n) (\<lambda>(\<sigma>, n). eval I te e \<sigma> n)"
| "eval I te (XVar ty x) \<sigma> n = map_option (\<lambda>v. (v, n)) (\<sigma> x)"
| "eval I te (XTerm ty t es) \<sigma> n =
     (if t < length (env_terms te)
      then Option.bind (evals I te es (length (arg_tys (env_terms te ! t))) \<sigma> n) (\<lambda>(vs, n).
           term_value I (env_terms te ! t) ty t vs n)
      else None)"
| "evals I te [] k \<sigma> n = Some ([], n)"
| "evals I te (e # es) k \<sigma> n =
     Option.bind (eval I te e \<sigma> n) (\<lambda>(v, n).
       case k of 0 \<Rightarrow> Some ([], n) | Suc k \<Rightarrow> Option.bind (evals I te es k \<sigma> n) (\<lambda>(vs, n). Some (v # vs, n)))"
| "eval_lets I te [] \<sigma> n = Some (\<sigma>, n)"
| "eval_lets I te ((x, ty, e) # bs) \<sigma> n =
     Option.bind (eval I te e \<sigma> n) (\<lambda>(v, n). eval_lets I te bs (\<sigma>(x \<mapsto> v)) n)"

section \<open>Rules\<close>

definition trusted :: "store \<Rightarrow> flagged" where
  "trusted \<sigma> = (\<lambda>x. map_option (\<lambda>v. (v, True)) (\<sigma> x))"

fun match_args :: "interp \<Rightarrow> term_env \<Rightarrow> nat \<Rightarrow> sema_pattern list \<Rightarrow> store \<Rightarrow> store option" where
  "match_args I te i [] \<sigma> = Some \<sigma>"
| "match_args I te i (p # ps) \<sigma> = Option.bind (pmatch I te p (i_arg I i) \<sigma>) (match_args I te (i + 1) ps)"

fun match_iflets :: "interp \<Rightarrow> term_env \<Rightarrow> iflet list \<Rightarrow> store \<Rightarrow> nat \<Rightarrow> (store \<times> nat) option" where
  "match_iflets I te [] \<sigma> n = Some (\<sigma>, n)"
| "match_iflets I te (f # fs) \<sigma> n =
     Option.bind (eval I te (iflet_rhs f) (trusted \<sigma>) n) (\<lambda>((v, success), n).
       if success then Option.bind (pmatch I te (iflet_lhs f) v \<sigma>) (\<lambda>\<sigma>. match_iflets I te fs \<sigma> n) else None)"

text \<open>\<open>None\<close>: the rule does not match. Otherwise the value of its right-hand side.\<close>

definition rule_value :: "interp \<Rightarrow> term_env \<Rightarrow> sema_rule \<Rightarrow> nat \<Rightarrow> rvalue option" where
  "rule_value I te rule n =
     (if root_term_id rule < length (env_terms te)
      then Option.bind (match_args I te 0 (map fst (zip (sr_args rule) (arg_tys (env_terms te ! root_term_id rule)))) (\<lambda>_. None))
             (\<lambda>\<sigma>. Option.bind (match_iflets I te (sr_iflets rule) \<sigma> n)
             (\<lambda>(\<sigma>, n). map_option (\<lambda>((v, _), _). v) (eval I te (sr_rhs rule) (trusted \<sigma>) n)))
      else None)"

section \<open>Following a meaning\<close>

text \<open>
  \<open>tracks h h' spec y\<close>: going on from condition \<open>h\<close>, the condition \<open>h'\<close> holds exactly when
  \<open>spec\<close> has a value, which then is \<open>y\<close>.
\<close>

definition tracks :: "bool \<Rightarrow> bool \<Rightarrow> 'a option \<Rightarrow> 'a \<Rightarrow> bool" where
  "tracks h h' spec y \<longleftrightarrow> (if h then (case spec of None \<Rightarrow> \<not> h' | Some x \<Rightarrow> h' \<and> x = y) else \<not> h')"

lemma tracks_Some [simp]: "tracks h h (Some y) y"
  by (simp add: tracks_def)

lemma tracks_if: "(h' \<longleftrightarrow> h \<and> c) \<Longrightarrow> tracks h h' (if c then Some y else None) y"
  by (auto simp: tracks_def)

lemma tracks_bind: "tracks h h1 a x \<Longrightarrow> (h1 \<Longrightarrow> tracks h1 h2 (f x) y) \<Longrightarrow> (\<not> h1 \<Longrightarrow> \<not> h2) \<Longrightarrow> tracks h h2 (Option.bind a f) y"
  by (auto simp: tracks_def split: if_splits option.splits)

lemma tracks_stop: "tracks h h' a x \<Longrightarrow> \<not> h \<Longrightarrow> \<not> h'"
  by (simp add: tracks_def)

lemma tracksD: "tracks h h' a x \<Longrightarrow> h' \<Longrightarrow> h \<and> a = Some x"
  by (auto simp: tracks_def split: if_splits option.splits)

lemma tracks_map: "tracks h h' a x \<Longrightarrow> tracks h h' (map_option f a) (f x)"
  by (auto simp: tracks_def split: option.splits)

end
