(* ===== verification/Sema_Visitors.thy ===== *)
theory Sema_Visitors
  imports Sema_Semantics
begin

text \<open>
  Visitors that keep the meaning of what they visit: the contract of the three visitor traits of
  \<^verbatim>\<open>isle/src/sema.rs\<close> as locales, and the effect of visiting a pattern, an expression and a rule,
  proved from the contract alone.
\<close>

section \<open>State\<close>

text \<open>
  The state of a visitor: which ids are in use, the valuations of the ids that respect what they
  stand for, and the condition the visited patterns have put on a valuation. An id is sure under a
  valuation when every partial call it depends on has succeeded.
\<close>

locale visitor_state =
  fixes inv :: "'s \<Rightarrow> bool"
    and live :: "'s \<Rightarrow> 'p \<Rightarrow> bool"
    and grows :: "'s \<Rightarrow> 's \<Rightarrow> bool"
    and counter :: "'s \<Rightarrow> nat"
    and models :: "interp \<Rightarrow> ('p \<Rightarrow> rvalue) \<Rightarrow> 's \<Rightarrow> bool"
    and holds :: "('p \<Rightarrow> rvalue) \<Rightarrow> 's \<Rightarrow> bool"
    and sure :: "('p \<Rightarrow> rvalue) \<Rightarrow> 's \<Rightarrow> 'p \<Rightarrow> bool"
  assumes grows_refl: "grows s s"
    and grows_trans: "grows s s' \<Longrightarrow> grows s' s'' \<Longrightarrow> grows s s''"
    and live_grows: "grows s s' \<Longrightarrow> live s x \<Longrightarrow> live s' x"
    and models_grows: "grows s s' \<Longrightarrow> models I env s' \<Longrightarrow> models I env s"
    and sure_grows: "inv s \<Longrightarrow> grows s s' \<Longrightarrow> live s x \<Longrightarrow> sure env s' x \<longleftrightarrow> sure env s x"
begin

definition leads :: "'s \<Rightarrow> 's \<Rightarrow> bool" where
  "leads s s' \<longleftrightarrow> inv s' \<and> grows s s'"

text \<open>A step that matches the values of \<open>xs\<close> and finds the values of \<open>ys\<close>.\<close>

definition checks ::
  "'s \<Rightarrow> 'p list \<Rightarrow> (interp \<Rightarrow> ('p \<Rightarrow> rvalue) \<Rightarrow> rvalue list option) \<Rightarrow> 'p list \<Rightarrow> 's \<Rightarrow> bool" where
  "checks s xs spec ys s' \<longleftrightarrow> leads s s' \<and> counter s' = counter s \<and> list_all (live s') ys \<and>
     (\<forall>I env. models I env s' \<longrightarrow> tracks (holds env s) (holds env s') (spec I env) (map env ys) \<and>
        (holds env s' \<longrightarrow> list_all (sure env s) xs \<longrightarrow> list_all (sure env s') ys))"

text \<open>A step that computes something and changes no condition.\<close>

definition yields ::
  "'s \<Rightarrow> (interp \<Rightarrow> ('p \<Rightarrow> rvalue) \<Rightarrow> ('a \<times> nat) option) \<Rightarrow> (('p \<Rightarrow> rvalue) \<Rightarrow> 's \<Rightarrow> 'a) \<Rightarrow> 's \<Rightarrow> bool" where
  "yields s spec v s' \<longleftrightarrow> leads s s' \<and>
     (\<forall>I env. models I env s' \<longrightarrow> holds env s' = holds env s \<and> spec I env = Some (v env s', counter s'))"

definition flag :: "('p \<Rightarrow> rvalue) \<Rightarrow> 's \<Rightarrow> 'p \<Rightarrow> rvalue \<times> bool" where
  "flag env s y = (env y, sure env s y)"

definition computes :: "'s \<Rightarrow> (interp \<Rightarrow> ('p \<Rightarrow> rvalue) \<Rightarrow> ((rvalue \<times> bool) \<times> nat) option) \<Rightarrow> 'p \<Rightarrow> 's \<Rightarrow> bool" where
  "computes s spec y s' \<longleftrightarrow> live s' y \<and> yields s spec (\<lambda>env s'. flag env s' y) s'"

definition scope_live :: "'s \<Rightarrow> 'p scope \<Rightarrow> bool" where
  "scope_live s vars \<longleftrightarrow> (\<forall>x y. hm_get vars x = Some y \<longrightarrow> live s y)"

definition scope_sure :: "('p \<Rightarrow> rvalue) \<Rightarrow> 's \<Rightarrow> 'p scope \<Rightarrow> bool" where
  "scope_sure env s vars \<longleftrightarrow> (\<forall>x y. hm_get vars x = Some y \<longrightarrow> sure env s y)"

definition store_of :: "('p \<Rightarrow> rvalue) \<Rightarrow> 'p scope \<Rightarrow> store" where
  "store_of env vars = (\<lambda>x. map_option env (hm_get vars x))"

definition flagged_of :: "('p \<Rightarrow> rvalue) \<Rightarrow> 's \<Rightarrow> 'p scope \<Rightarrow> flagged" where
  "flagged_of env s vars = (\<lambda>x. map_option (flag env s) (hm_get vars x))"

definition binds ::
  "'s \<Rightarrow> 'p list \<Rightarrow> 'p scope \<Rightarrow> (interp \<Rightarrow> ('p \<Rightarrow> rvalue) \<Rightarrow> store option) \<Rightarrow> 'p scope \<Rightarrow> 's \<Rightarrow> bool" where
  "binds s xs vars spec vars' s' \<longleftrightarrow> leads s s' \<and> counter s' = counter s \<and> scope_live s' vars' \<and>
     (\<forall>I env. models I env s' \<longrightarrow> tracks (holds env s) (holds env s') (spec I env) (store_of env vars') \<and>
        (holds env s' \<longrightarrow> list_all (sure env s) xs \<longrightarrow> scope_sure env s vars \<longrightarrow> scope_sure env s' vars'))"

lemma leads_refl: "inv s \<Longrightarrow> leads s s"
  by (simp add: leads_def grows_refl)

lemma leads_trans: "leads s s' \<Longrightarrow> leads s' s'' \<Longrightarrow> leads s s''"
  by (auto simp: leads_def intro: grows_trans)

lemma leads_inv: "leads s s' \<Longrightarrow> inv s'"
  by (simp add: leads_def)

lemma leads_models: "leads s s' \<Longrightarrow> models I env s' \<Longrightarrow> models I env s"
  by (auto simp: leads_def intro: models_grows)

lemma leads_live: "leads s s' \<Longrightarrow> live s x \<Longrightarrow> live s' x"
  by (auto simp: leads_def intro: live_grows)

lemma leads_live_all: "leads s s' \<Longrightarrow> list_all (live s) xs \<Longrightarrow> list_all (live s') xs"
  by (auto simp: list_all_iff intro: leads_live)

lemma leads_sure: "inv s \<Longrightarrow> leads s s' \<Longrightarrow> live s x \<Longrightarrow> sure env s' x \<longleftrightarrow> sure env s x"
  using sure_grows by (simp add: leads_def)

lemma leads_sure_all: "inv s \<Longrightarrow> leads s s' \<Longrightarrow> list_all (live s) xs \<Longrightarrow> list_all (sure env s') xs \<longleftrightarrow> list_all (sure env s) xs"
  by (auto simp: list_all_iff leads_sure)

lemma leads_scope_live: "leads s s' \<Longrightarrow> scope_live s vars \<Longrightarrow> scope_live s' vars"
  by (auto simp: scope_live_def intro: leads_live)

lemma leads_scope_sure: "inv s \<Longrightarrow> leads s s' \<Longrightarrow> scope_live s vars \<Longrightarrow> scope_sure env s' vars \<longleftrightarrow> scope_sure env s vars"
  by (auto simp: scope_sure_def scope_live_def leads_sure)

lemma leads_flagged: "inv s \<Longrightarrow> leads s s' \<Longrightarrow> scope_live s vars \<Longrightarrow> flagged_of env s' vars = flagged_of env s vars"
  by (auto simp: flagged_of_def flag_def scope_live_def leads_sure fun_eq_iff map_option_case split: option.splits)

lemma store_of_insert: "store_of env (hm_insert x y vars) = (store_of env vars)(x \<mapsto> env y)"
  by (auto simp: store_of_def fun_eq_iff)

lemma flagged_of_insert: "flagged_of env s (hm_insert x y vars) = (flagged_of env s vars)(x \<mapsto> flag env s y)"
  by (auto simp: flagged_of_def fun_eq_iff)

lemma trusted_store: "scope_sure env s vars \<Longrightarrow> trusted (store_of env vars) = flagged_of env s vars"
  by (auto simp: trusted_def store_of_def flagged_of_def flag_def scope_sure_def fun_eq_iff map_option_case split: option.splits)

lemma leads_flag: "inv s \<Longrightarrow> leads s s' \<Longrightarrow> live s x \<Longrightarrow> flag env s' x = flag env s x"
  by (simp add: flag_def leads_sure)

lemma yields_bind:
  assumes "yields s spec v s1" "yields s1 spec1 v2 s2"
    and "\<And>I env. spec I env = Some (v env s1, counter s1) \<Longrightarrow> spec2 I env = spec1 I env"
  shows "yields s spec2 v2 s2"
  using assms leads_trans leads_models unfolding yields_def by metis

lemma checks_refl: "inv s \<Longrightarrow> list_all (live s) xs \<Longrightarrow> checks s xs (\<lambda>I env. Some (map env xs)) xs s"
  by (simp add: checks_def leads_refl)

lemma checks_trans:
  assumes "checks s xs spec ys s1" "checks s1 ys spec1 zs s2"
    and "\<And>I env. spec I env = Some (map env ys) \<Longrightarrow> spec2 I env = spec1 I env"
    and "\<And>I env. spec I env = None \<Longrightarrow> spec2 I env = None"
  shows "checks s xs spec2 zs s2"
proof -
  have leads: "leads s s1" "leads s1 s2" using assms(1,2) by (auto simp: checks_def)
  have "tracks (holds env s) (holds env s2) (spec2 I env) (map env zs) \<and>
      (holds env s2 \<longrightarrow> list_all (sure env s) xs \<longrightarrow> list_all (sure env s2) zs)" if m: "models I env s2" for I env
  proof -
    have one: "tracks (holds env s) (holds env s1) (spec I env) (map env ys)"
      "holds env s1 \<Longrightarrow> list_all (sure env s) xs \<Longrightarrow> list_all (sure env s1) ys"
      using assms(1) leads_models [OF leads(2) m] by (auto simp: checks_def)
    have two: "tracks (holds env s1) (holds env s2) (spec1 I env) (map env zs)"
      "holds env s2 \<Longrightarrow> list_all (sure env s1) ys \<Longrightarrow> list_all (sure env s2) zs"
      using assms(2) m by (auto simp: checks_def)
    have "tracks (holds env s) (holds env s2) (spec2 I env) (map env zs)"
      using one(1) two(1) assms(3,4) [of I env] by (cases "spec I env") (auto simp: tracks_def split: if_splits)
    moreover have "holds env s2 \<Longrightarrow> holds env s1" using two(1) by (auto dest: tracksD)
    ultimately show ?thesis using one(2) two(2) by auto
  qed
  then show ?thesis using assms(1,2) leads_trans [OF leads] by (simp add: checks_def)
qed

lemma computes_checks:
  assumes "computes s (\<lambda>I env. Some ((v I env, list_all (sure env s) xs), counter s)) y s'" "counter s' = counter s"
  shows "checks s xs (\<lambda>I env. Some [v I env]) [y] s'"
  using assms by (auto simp: computes_def yields_def checks_def flag_def tracks_def)

text \<open>A check without new ids binds nothing new.\<close>

lemma checks_binds:
  assumes "checks s xs (\<lambda>I env. if c I env then Some [] else None) [] s'" "scope_live s vars" "inv s"
    and "\<And>I env. spec I env = (if c I env then Some (store_of env vars) else None)"
  shows "binds s ys vars spec vars s'"
proof -
  have leads: "leads s s'" using assms(1) by (simp add: checks_def)
  have "tracks (holds env s) (holds env s') (spec I env) (store_of env vars)" if "models I env s'" for I env
    using assms(1) that unfolding assms(4) checks_def by (auto simp: tracks_def split: if_splits)
  then show ?thesis
    using assms(1) leads_scope_live [OF leads assms(2)] leads_scope_sure [OF assms(3) leads assms(2)]
    by (simp add: binds_def checks_def)
qed

lemma binds_trans:
  assumes "binds s xs vars spec vars1 s1" "binds s1 ys vars1 spec1 vars2 s2" "inv s" "list_all (live s) ys"
    and "\<And>I env. spec I env = Some (store_of env vars1) \<Longrightarrow> spec2 I env = spec1 I env"
    and "\<And>I env. spec I env = None \<Longrightarrow> spec2 I env = None"
  shows "binds s (xs @ ys) vars spec2 vars2 s2"
proof -
  have leads: "leads s s1" "leads s1 s2" using assms(1,2) by (auto simp: binds_def)
  have "tracks (holds env s) (holds env s2) (spec2 I env) (store_of env vars2) \<and>
      (holds env s2 \<longrightarrow> list_all (sure env s) (xs @ ys) \<longrightarrow> scope_sure env s vars \<longrightarrow> scope_sure env s2 vars2)"
    if m: "models I env s2" for I env
  proof -
    have one: "tracks (holds env s) (holds env s1) (spec I env) (store_of env vars1)"
      "holds env s1 \<Longrightarrow> list_all (sure env s) xs \<Longrightarrow> scope_sure env s vars \<Longrightarrow> scope_sure env s1 vars1"
      using assms(1) leads_models [OF leads(2) m] by (auto simp: binds_def)
    have two: "tracks (holds env s1) (holds env s2) (spec1 I env) (store_of env vars2)"
      "holds env s2 \<Longrightarrow> list_all (sure env s1) ys \<Longrightarrow> scope_sure env s1 vars1 \<Longrightarrow> scope_sure env s2 vars2"
      using assms(2) m by (auto simp: binds_def)
    have "tracks (holds env s) (holds env s2) (spec2 I env) (store_of env vars2)"
      using one(1) two(1) assms(5,6) [of I env] by (cases "spec I env") (auto simp: tracks_def split: if_splits)
    moreover have "holds env s2 \<Longrightarrow> holds env s1" using two(1) by (auto dest: tracksD)
    ultimately show ?thesis using one(2) two(2) leads_sure_all [OF assms(3) leads(1) assms(4)] by auto
  qed
  then show ?thesis using assms(1,2) leads_trans [OF leads] by (simp add: binds_def)
qed

end

section \<open>Patterns\<close>

locale pattern_semantics =
  visitor_state inv live grows counter models holds sure
  for inv :: "'s \<Rightarrow> bool" and live :: "'s \<Rightarrow> 'p \<Rightarrow> bool" and grows counter models holds sure +
  fixes V :: "('s, 'p) pattern_visitor"
  assumes match_equal: "inv s \<Longrightarrow> live s a \<Longrightarrow> live s b \<Longrightarrow>
      ends (v_match_equal V a b ty s) (checks s [a, b] (\<lambda>I env. if env a = env b then Some [] else None) [])"
    and match_int: "inv s \<Longrightarrow> live s x \<Longrightarrow>
      ends (v_match_int V x ty i s) (checks s [x] (\<lambda>I env. if accepts (CConstInt i ty) (env x) then Some [] else None) [])"
    and match_prim: "inv s \<Longrightarrow> live s x \<Longrightarrow>
      ends (v_match_prim V x ty c s) (checks s [x] (\<lambda>I env. if accepts (CConstPrim c) (env x) then Some [] else None) [])"
    and match_variant: "inv s \<Longrightarrow> live s x \<Longrightarrow>
      ends (v_match_variant V x ty tys w s)
        (\<lambda>(ys, s'). checks s [x] (\<lambda>I env. variant_values ty w (length tys) (env x)) ys s')"
    and extraction: "inv s \<Longrightarrow> live s x \<Longrightarrow>
      ends (v_extract V x input_ty tys t infallible multi s)
        (\<lambda>(ys, s'). checks s [x]
           (\<lambda>I env. map_option (tuple_parts (length tys)) (extract_value I t infallible multi (env x))) ys s')"
begin

lemma match_term_checks:
  assumes "inv s" "live s x"
  shows "ends (match_term V te x ty t tys s) (\<lambda>(ys, s'). checks s [x] (\<lambda>I env. term_values I te ty t (length tys) (env x)) ys s')"
  using match_variant [OF assms] extraction [OF assms]
  by (auto simp: match_term_def get_term_def term_values_def Let_def split: term_kind.splits option.splits)

lemma checks_then_binds:
  assumes "checks s xs spec ys s1" "binds s1 ys vars spec1 vars2 s2" "inv s" "scope_live s vars"
    and "\<And>I env. spec I env = Some (map env ys) \<Longrightarrow> spec2 I env = spec1 I env"
    and "\<And>I env. spec I env = None \<Longrightarrow> spec2 I env = None"
  shows "binds s xs vars spec2 vars2 s2"
proof -
  have leads: "leads s s1" "leads s1 s2" using assms(1,2) by (auto simp: binds_def checks_def)
  have "tracks (holds env s) (holds env s2) (spec2 I env) (store_of env vars2) \<and>
      (holds env s2 \<longrightarrow> list_all (sure env s) xs \<longrightarrow> scope_sure env s vars \<longrightarrow> scope_sure env s2 vars2)"
    if m: "models I env s2" for I env
  proof -
    have one: "tracks (holds env s) (holds env s1) (spec I env) (map env ys)"
      "holds env s1 \<Longrightarrow> list_all (sure env s) xs \<Longrightarrow> list_all (sure env s1) ys"
      using assms(1) leads_models [OF leads(2) m] by (auto simp: checks_def)
    have two: "tracks (holds env s1) (holds env s2) (spec1 I env) (store_of env vars2)"
      "holds env s2 \<Longrightarrow> list_all (sure env s1) ys \<Longrightarrow> scope_sure env s1 vars \<Longrightarrow> scope_sure env s2 vars2"
      using assms(2) m by (auto simp: binds_def)
    have "tracks (holds env s) (holds env s2) (spec2 I env) (store_of env vars2)"
      using one(1) two(1) assms(5,6) [of I env] by (cases "spec I env") (auto simp: tracks_def split: if_splits)
    moreover have "holds env s2 \<Longrightarrow> holds env s1" using two(1) by (auto dest: tracksD)
    ultimately show ?thesis using one(2) two(2) leads_scope_sure [OF assms(3) leads(1) assms(4)] by auto
  qed
  then show ?thesis using assms(1,2) leads_trans [OF leads] by (simp add: binds_def checks_def)
qed

lemma check_only:
  assumes "ends r (checks s xs (\<lambda>I env. if c I env then Some [] else None) [])" "inv s" "scope_live s vars"
    and "\<And>I env. spec I env = (if c I env then Some (store_of env vars) else None)"
  shows "ends (after r (\<lambda>s'. Some (Ok (vars, s')))) (\<lambda>(vars', s'). binds s ys vars spec vars' s')"
  using assms(1) by (rule ends_after) (simp add: checks_binds [OF _ assms(3,2,4)])

lemma binds_insert: "binds s [x] (hm_insert var x vars) spec vars' s' \<Longrightarrow> binds s [x] vars spec vars' s'"
  by (auto simp: binds_def scope_sure_def)

lemma pattern_visit_binds:
  "V' = V \<Longrightarrow> inv s \<Longrightarrow> live s x \<Longrightarrow> scope_live s vars \<Longrightarrow>
     ends (pattern_visit V' te p x vars s)
       (\<lambda>(vars', s'). binds s [x] vars (\<lambda>I env. pmatch I te p (env x) (store_of env vars)) vars' s')"
  "V' = V \<Longrightarrow> inv s \<Longrightarrow> list_all (live s) xs \<Longrightarrow> scope_live s vars \<Longrightarrow>
     ends (patterns_visit V' te ps xs vars s)
       (\<lambda>(vars', s'). binds s xs vars (\<lambda>I env. pmatches I te ps (map env xs) (store_of env vars)) vars' s')"
proof (induction V' te p x vars s and V' te ps xs vars s rule: pattern_visit_patterns_visit.induct)
  case (1 V' te ty var subpat input vars s)
  show ?case
  proof (cases "hm_get vars var")
    case None
    have "scope_live s (hm_insert var input vars)" using 1(4,5) by (simp add: scope_live_def)
    from 1(1) [OF _ 1(2-4) this] None
    have "ends (pattern_visit V' te subpat input (hm_insert var input vars) s)
      (\<lambda>(vars', s'). binds s [input] (hm_insert var input vars)
         (\<lambda>I env. pmatch I te (PBindPattern ty var subpat) (env input) (store_of env vars)) vars' s')"
      unfolding store_of_insert pmatch.simps by blast
    then show ?thesis using None unfolding pattern_visit.simps by (auto elim!: ends_weaken binds_insert)
  qed simp
next
  case (2 V' te ty var input vars s)
  show ?case
  proof (cases "hm_get vars var")
    case (Some y)
    then have y: "live s y" "store_of env vars var = Some (env y)" for env
      using 2(4) by (auto simp: scope_live_def store_of_def)
    show ?thesis
      using check_only [OF match_equal [OF 2(2,3) y(1), of ty] 2(2,4)] Some y(2) 2(1) by auto
  qed simp
next
  case (3 V' te ty c input vars s)
  then show ?case
    using check_only [OF match_int [OF 3(2,3), of ty c] 3(2,4)] by auto
next
  case (4 V' te ty c input vars s)
  then show ?case
    using check_only [OF match_prim [OF 4(2,3), of ty c] 4(2,4)] by auto
next
  case (5 V' te ty t ps input vars s)
  show ?case
    unfolding pattern_visit.simps \<open>V' = V\<close>
  proof (rule ends_after [OF match_term_checks [OF 5(3,4)]], clarsimp)
    fix ys s1
    assume c: "checks s [input] (\<lambda>I env. term_values I te ty t (length ps) (env input)) ys s1"
    then have "inv s1" "list_all (live s1) ys" "scope_live s1 vars"
      using leads_scope_live 5(5) by (auto simp: checks_def leads_def)
    from 5(1) [OF 5(2) this] 5(2)
    have "ends (patterns_visit V te ps ys vars s1)
      (\<lambda>(vars', s'). binds s1 ys vars (\<lambda>I env. pmatches I te ps (map env ys) (store_of env vars)) vars' s')" by simp
    then show "ends (patterns_visit V te ps ys vars s1)
      (\<lambda>(vars', s'). binds s [input] vars (\<lambda>I env. Option.bind (term_values I te ty t (length ps) (env input))
         (\<lambda>vs. pmatches I te ps vs (store_of env vars))) vars' s')"
      by (rule ends_weaken) (auto intro: checks_then_binds [OF c _ 5(3,5)])
  qed
next
  case (6 V' te ty children input vars s)
  then have "list_all (live s) (replicate (length children) input)" by (simp add: list_all_iff)
  from 6(1) [OF 6(2,3) this 6(5)] show ?case
    by (auto simp: binds_def list_all_iff elim!: ends_weaken)
next
  case (7 V' te ty input vars s)
  then show ?case by (simp add: binds_def leads_refl)
next
  case (8 V' te p ps val vals vars s)
  show ?case
    unfolding patterns_visit.simps
  proof (rule ends_after [OF 8(1)], goal_cases)
    case (5 vs)
    then obtain vars1 s1 where vs: "vs = (vars1, s1)" by force
    with 5 have b: "binds s [val] vars (\<lambda>I env. pmatch I te p (env val) (store_of env vars)) vars1 s1" by simp
    then have "inv s1" "list_all (live s1) vals" "scope_live s1 vars1"
      using leads_live_all 8(5) by (auto simp: binds_def leads_def)
    from 8(2) [OF 8(3) this]
    have "ends (patterns_visit V' te ps vals vars1 s1)
      (\<lambda>(vars', s'). binds s1 vals vars1 (\<lambda>I env. pmatches I te ps (map env vals) (store_of env vars1)) vars' s')" by simp
    then show ?case
      unfolding vs prod.case using 8(5)
      by (elim ends_weaken) (auto intro: binds_trans [OF b _ 8(4), of vals, simplified])
  qed (use 8 in auto)
qed (auto simp: binds_def leads_refl)

end

section \<open>Expressions\<close>

locale expr_semantics =
  visitor_state inv live grows counter models holds sure
  for inv :: "'s \<Rightarrow> bool" and live :: "'s \<Rightarrow> 'p \<Rightarrow> bool" and grows counter models holds sure +
  fixes E :: "('s, 'p) expr_visitor"
  assumes const_int: "inv s \<Longrightarrow>
      ends (v_const_int E ty i s) (\<lambda>(y, s'). computes s (\<lambda>I env. Some ((VInt i ty, True), counter s)) y s')"
    and const_prim: "inv s \<Longrightarrow>
      ends (v_const_prim E ty c s) (\<lambda>(y, s'). computes s (\<lambda>I env. Some ((VPrim c, True), counter s)) y s')"
    and create_variant: "inv s \<Longrightarrow> list_all (live s) (map fst xs) \<Longrightarrow>
      ends (v_create_variant E xs ty w s) (\<lambda>(y, s'). computes s
        (\<lambda>I env. Some ((VVariant ty w (map env (map fst xs)), list_all (sure env s) (map fst xs)), counter s)) y s')"
    and construct: "inv s \<Longrightarrow> list_all (live s) (map fst xs) \<Longrightarrow>
      ends (v_construct E xs ty t pure infallible multi s) (\<lambda>(y, s'). computes s
        (\<lambda>I env. let (v, success) = construct_value I t infallible multi (call_number pure (counter s)) (map env (map fst xs))
           in Some ((v, success \<and> list_all (sure env s) (map fst xs)), calls_after pure (counter s))) y s')"
begin

lemma build_term_computes:
  assumes "inv s" "list_all (live s) (map fst xs)"
  shows "ends (build_term E td ty t xs s)
    (\<lambda>(y, s'). computes s (\<lambda>I env. term_value I td ty t (map (flag env s) (map fst xs)) (counter s)) y s')"
proof -
  have "map fst (map (flag env s) ys) = map env ys" "list_all snd (map (flag env s) ys) \<longleftrightarrow> list_all (sure env s) ys" for env ys
    by (auto simp: flag_def list_all_iff)
  then show ?thesis
    using create_variant [OF assms] construct [OF assms]
    unfolding build_term_def term_value_def
    by (auto simp del: map_map split: term_kind.splits option.splits)
qed

abbreviation expr_result :: "'s \<Rightarrow> term_env \<Rightarrow> sema_expr \<Rightarrow> 'p scope \<Rightarrow> 'p \<times> 's \<Rightarrow> bool" where
  "expr_result s te e vars \<equiv> \<lambda>(y, s'). computes s (\<lambda>I env. eval I te e (flagged_of env s vars) (counter s)) y s'"

abbreviation exprs_result ::
  "'s \<Rightarrow> term_env \<Rightarrow> sema_expr list \<Rightarrow> type_id list \<Rightarrow> 'p scope \<Rightarrow> ('p \<times> type_id) list \<times> 's \<Rightarrow> bool" where
  "exprs_result s te es tys vars \<equiv> \<lambda>(ys, s'). list_all (live s') (map fst ys) \<and>
     yields s (\<lambda>I env. evals I te es (length tys) (flagged_of env s vars) (counter s)) (\<lambda>env s'. map (flag env s') (map fst ys)) s'"

abbreviation lets_result ::
  "'s \<Rightarrow> term_env \<Rightarrow> (var_id \<times> type_id \<times> sema_expr) list \<Rightarrow> 'p scope \<Rightarrow> 'p scope \<times> 's \<Rightarrow> bool" where
  "lets_result s te bs vars \<equiv> \<lambda>(vars', s'). scope_live s' vars' \<and>
     yields s (\<lambda>I env. eval_lets I te bs (flagged_of env s vars) (counter s)) (\<lambda>env s'. flagged_of env s' vars') s'"

lemma computes_leads: "computes s spec y s' \<Longrightarrow> leads s s' \<and> inv s' \<and> live s' y"
  by (auto simp: computes_def yields_def leads_def)

lemma visit_let:
  assumes "ends (lets_visit E te bs vars s) (lets_result s te bs vars)"
    and "\<And>vars' s'. inv s' \<Longrightarrow> scope_live s' vars' \<Longrightarrow> ends (expr_visit E te e vars' s') (expr_result s' te e vars')"
  shows "ends (expr_visit E te (XLet ty bs e) vars s) (expr_result s te (XLet ty bs e) vars)"
  unfolding expr_visit.simps
proof (rule ends_after2 [OF assms(1)], elim conjE)
  fix vars1 s1
  assume one: "scope_live s1 vars1"
    "yields s (\<lambda>I env. eval_lets I te bs (flagged_of env s vars) (counter s)) (\<lambda>env s'. flagged_of env s' vars1) s1"
  then have "inv s1" by (simp add: yields_def leads_def)
  from assms(2) [OF this one(1)]
  show "ends (expr_visit E te e vars1 s1) (expr_result s te (XLet ty bs e) vars)"
    unfolding computes_def by (auto elim!: ends_weaken intro: yields_bind [OF one(2)])
qed

lemma visit_term:
  assumes "t < length (env_terms te)" "td = env_terms te ! t"
    and "ends (exprs_visit E te es (arg_tys td) vars s) (exprs_result s te es (arg_tys td) vars)"
  shows "ends (expr_visit E te (XTerm ty t es) vars s) (expr_result s te (XTerm ty t es) vars)"
proof -
  have td: "get_term te t = Some (Ok td)" using assms(1,2) by (simp add: get_term_def)
  show ?thesis
    unfolding expr_visit.simps td after_Ok
  proof (rule ends_after2 [OF assms(3)], elim conjE)
    fix xs :: "('p \<times> type_id) list" and s1
    assume one: "list_all (live s1) (map fst xs)"
      "yields s (\<lambda>I env. evals I te es (length (arg_tys td)) (flagged_of env s vars) (counter s))
         (\<lambda>env s'. map (flag env s') (map fst xs)) s1"
    then have "inv s1" by (simp add: yields_def leads_def)
    from build_term_computes [OF this one(1), of td ty t]
    show "ends (build_term E td ty t xs s1) (expr_result s te (XTerm ty t es) vars)"
      unfolding computes_def using assms(1,2)
      by (auto simp del: map_map elim!: ends_weaken intro: yields_bind [OF one(2)])
  qed
qed

lemma visit_cons:
  assumes "inv s" "scope_live s vars" "ends (expr_visit E te e vars s) (expr_result s te e vars)"
    and "\<And>ty tys' s'. tys = ty # tys' \<Longrightarrow> inv s' \<Longrightarrow> scope_live s' vars \<Longrightarrow>
      ends (exprs_visit E te es tys' vars s') (exprs_result s' te es tys' vars)"
  shows "ends (exprs_visit E te (e # es) tys vars s) (exprs_result s te (e # es) tys vars)"
  unfolding exprs_visit.simps
proof (rule ends_after2 [OF assms(3)])
  fix y s1
  assume one: "computes s (\<lambda>I env. eval I te e (flagged_of env s vars) (counter s)) y s1"
  note s1 = computes_leads [OF one]
  then have two: "flagged_of env s1 vars = flagged_of env s vars" "scope_live s1 vars" for env
    using leads_flagged [OF assms(1) _ assms(2)] leads_scope_live [OF _ assms(2)] by auto
  show "ends (case tys of [] \<Rightarrow> Some (Ok ([], s1))
       | ty # tys \<Rightarrow> after (exprs_visit E te es tys vars s1) (\<lambda>(vs, s). Some (Ok ((y, ty) # vs, s))))
     (exprs_result s te (e # es) tys vars)"
  proof (cases tys)
    case (Cons ty tys')
    show ?thesis
      unfolding Cons list.case
    proof (rule ends_after2 [OF assms(4) [OF Cons _ two(2)]], use s1 in simp, elim conjE)
      fix ys :: "('p \<times> type_id) list" and s2
      assume three: "list_all (live s2) (map fst ys)"
        "yields s1 (\<lambda>I env. evals I te es (length tys') (flagged_of env s1 vars) (counter s1))
           (\<lambda>env s'. map (flag env s') (map fst ys)) s2"
      then have s2: "leads s1 s2" by (simp add: yields_def)
      have "live s2 y" "flag env s2 y = flag env s1 y" "leads s s2" "models I env s2 \<Longrightarrow> models I env s1" for env I
        using s1 leads_flag [OF _ s2] leads_live [OF s2] leads_trans [OF _ s2] leads_models [OF s2] by auto
      then show "ends (Some (Ok ((y, ty) # ys, s2))) (exprs_result s te (e # es) (ty # tys') vars)"
        using three one by (auto simp: yields_def computes_def two(1) simp del: map_map) blast+
    qed
  qed (use one in \<open>simp add: computes_def yields_def\<close>)
qed

lemma visit_lets:
  assumes "inv s" "scope_live s vars" "ends (expr_visit E te e vars s) (expr_result s te e vars)"
    and "\<And>y s'. inv s' \<Longrightarrow> scope_live s' (hm_insert var y vars) \<Longrightarrow>
      ends (lets_visit E te bs (hm_insert var y vars) s') (lets_result s' te bs (hm_insert var y vars))"
  shows "ends (lets_visit E te ((var, ty, e) # bs) vars s) (lets_result s te ((var, ty, e) # bs) vars)"
  unfolding lets_visit.simps
proof (rule ends_after2 [OF assms(3)])
  fix y s1
  assume one: "computes s (\<lambda>I env. eval I te e (flagged_of env s vars) (counter s)) y s1"
  note s1 = computes_leads [OF one]
  then have two: "flagged_of env s1 vars = flagged_of env s vars" "scope_live s1 (hm_insert var y vars)" for env
    using leads_flagged [OF assms(1) _ assms(2)] leads_scope_live [OF _ assms(2)] by (auto simp: scope_live_def)
  have y: "yields s (\<lambda>I env. eval I te e (flagged_of env s vars) (counter s)) (\<lambda>env s'. flag env s' y) s1"
    using one by (simp add: computes_def)
  have "inv s1" using s1 by simp
  from assms(4) [OF this two(2)]
  show "ends (lets_visit E te bs (hm_insert var y vars) s1) (lets_result s te ((var, ty, e) # bs) vars)"
    unfolding flagged_of_insert two(1)
    by (rule ends_weaken2, intro conjI) (blast, erule conjE, erule yields_bind [OF y], simp add: fun_upd_def)
qed

lemma expr_visit_computes:
  "E' = E \<Longrightarrow> inv s \<Longrightarrow> scope_live s vars \<Longrightarrow> ends (expr_visit E' te e vars s) (expr_result s te e vars)"
  "E' = E \<Longrightarrow> inv s \<Longrightarrow> scope_live s vars \<Longrightarrow> ends (exprs_visit E' te es tys vars s) (exprs_result s te es tys vars)"
  "E' = E \<Longrightarrow> inv s \<Longrightarrow> scope_live s vars \<Longrightarrow> ends (lets_visit E' te bs vars s) (lets_result s te bs vars)"
proof (induction E' te e vars s and E' te es tys vars s and E' te bs vars s rule: expr_visit_exprs_visit_lets_visit.induct)
  case (1 E' te ty val vars s)
  then show ?case using const_int [of s ty val] by simp
next
  case (2 E' te ty val vars s)
  then show ?case using const_prim [of s ty val] by simp
next
  case (3 E' te ty bindings body vars s)
  then show ?case using visit_let [of te bindings vars s body ty] by simp
next
  case (4 E' te ty var_id vars s)
  then show ?case
    by (auto simp: computes_def yields_def leads_refl flagged_of_def flag_def scope_live_def split: option.splits)
next
  case (5 E' te ty t arg_exprs vars s)
  then show ?case using visit_term [of t te] by (cases "t < length (env_terms te)") (auto simp: get_term_def)
next
  case (7 E' te e es tys vars s)
  show ?case unfolding 7(3) using 7 by (intro visit_cons) auto
next
  case (9 E' te var ty e bs vars s)
  show ?case unfolding 9(3) using 9 by (intro visit_lets) auto
qed (simp_all add: yields_def leads_refl)

end

section \<open>Rules\<close>

text \<open>A rule visitor that is its own pattern and expression visitor.\<close>

locale rule_semantics =
  pattern_semantics inv live grows counter models holds sure "v_patterns R" +
  expr_semantics inv live grows counter models holds sure "v_exprs R"
  for inv :: "'s \<Rightarrow> bool" and live :: "'s \<Rightarrow> 'p \<Rightarrow> bool" and grows counter models holds sure
    and R :: "('s, 's, 's, 'p, 'p, 'p) rule_visitor" +
  assumes argument: "inv s \<Longrightarrow>
      ends (v_arg R i ty s) (\<lambda>(y, s'). computes s (\<lambda>I env. Some ((i_arg I i, True), counter s)) y s' \<and> counter s' = counter s)"
    and own_patterns: "v_pattern R f s = f s"
    and own_exprs: "v_expr R g s = after (g s) (\<lambda>((ty, y), s'). Some (Ok (y, s')))"
    and as_pattern: "inv s \<Longrightarrow> live s x \<Longrightarrow>
      ends (v_expr_as_pattern R x s) (\<lambda>(y, s'). y = x \<and> leads s s' \<and> counter s' = counter s \<and>
        (\<forall>I env. models I env s' \<longrightarrow> holds env s' = (holds env s \<and> sure env s x)))"
    and as_expr: "v_pattern_as_expr R x s = Some (Ok (x, s))"
begin

lemma scope_as_exprs_id: "scope_as_exprs R vars s = Some (Ok (vars, s))"
  by (induction vars arbitrary: s) (auto simp: as_expr)

lemma visit_in_rule_computes:
  assumes "inv s" "scope_live s vars"
  shows "ends (visit_in_rule R te e vars s) (expr_result s te e vars)"
proof -
  have "visit_in_rule R te e vars s = expr_visit (v_exprs R) te e vars s"
    unfolding visit_in_rule_def scope_as_exprs_id own_exprs
    by (auto simp: after_def split: option.splits outcome.splits)
  then show ?thesis using expr_visit_computes(1) [OF refl assms] by simp
qed

lemma argument_binds:
  assumes "inv s" "scope_live s vars"
  shows "ends (after (v_arg R i ty s) (\<lambda>(x, s). v_pattern R (pattern_visit (v_patterns R) te p x vars) s))
    (\<lambda>(vars', s'). binds s [] vars (\<lambda>I env. pmatch I te p (i_arg I i) (store_of env vars)) vars' s')"
  unfolding own_patterns
proof (rule ends_after2 [OF argument [OF assms(1)]], elim conjE)
  fix x s1
  assume one: "computes s (\<lambda>I env. Some ((i_arg I i, True), counter s)) x s1" "counter s1 = counter s"
  note s1 = computes_leads [OF one(1)]
  have vars: "scope_live s1 vars" "scope_sure env s1 vars \<longleftrightarrow> scope_sure env s vars" for env
    using s1 leads_scope_live [OF _ assms(2)] leads_scope_sure [OF assms(1) _ assms(2)] by auto
  have v: "models I env s1 \<Longrightarrow> holds env s1 = holds env s \<and> env x = i_arg I i \<and> sure env s1 x" for I env
    using one(1) by (auto simp: computes_def yields_def flag_def)
  have "inv s1" "live s1 x" using s1 by auto
  from pattern_visit_binds(1) [OF refl this vars(1), of te p]
  show "ends (pattern_visit (v_patterns R) te p x vars s1)
    (\<lambda>(vars', s'). binds s [] vars (\<lambda>I env. pmatch I te p (i_arg I i) (store_of env vars)) vars' s')"
  proof (rule ends_weaken2)
    fix vars' s'
    assume two: "binds s1 [x] vars (\<lambda>I env. pmatch I te p (env x) (store_of env vars)) vars' s'"
    then have "leads s s'" "leads s1 s'" using s1 leads_trans by (auto simp: binds_def)
    moreover have "tracks (holds env s) (holds env s') (pmatch I te p (i_arg I i) (store_of env vars)) (store_of env vars') \<and>
        (holds env s' \<longrightarrow> scope_sure env s vars \<longrightarrow> scope_sure env s' vars')" if m: "models I env s'" for I env
    proof -
      have "tracks (holds env s1) (holds env s') (pmatch I te p (env x) (store_of env vars)) (store_of env vars')"
        "holds env s' \<longrightarrow> sure env s1 x \<longrightarrow> scope_sure env s1 vars \<longrightarrow> scope_sure env s' vars'"
        using two m by (auto simp: binds_def)
      then show ?thesis using v [OF leads_models [OF \<open>leads s1 s'\<close> m]] vars(2) by simp
    qed
    ultimately show "binds s [] vars (\<lambda>I env. pmatch I te p (i_arg I i) (store_of env vars)) vars' s'"
      using two one(2) by (simp add: binds_def)
  qed
qed

lemma visit_args_binds:
  "inv s \<Longrightarrow> scope_live s vars \<Longrightarrow> ends (visit_args R te i ps vars s)
     (\<lambda>(vars', s'). binds s [] vars (\<lambda>I env. match_args I te i (map fst ps) (store_of env vars)) vars' s')"
proof (induction ps arbitrary: i vars s)
  case Nil
  then show ?case by (simp add: binds_def leads_refl)
next
  case (Cons pt ps)
  obtain p ty where pt: "pt = (p, ty)" by force
  have run: "visit_args R te i (pt # ps) vars s =
      after (after (v_arg R i ty s) (\<lambda>(x, s). v_pattern R (pattern_visit (v_patterns R) te p x vars) s))
        (\<lambda>(vars, s). visit_args R te (i + 1) ps vars s)"
    unfolding pt visit_args.simps after_assoc by (simp add: case_prod_unfold)
  show ?case
    unfolding run
  proof (rule ends_after2 [OF argument_binds [OF Cons.prems]])
    fix vars1 s1
    assume one: "binds s [] vars (\<lambda>I env. pmatch I te p (i_arg I i) (store_of env vars)) vars1 s1"
    then have "inv s1" "scope_live s1 vars1" by (auto simp: binds_def leads_def)
    from Cons.IH [OF this, of "i + 1"]
    show "ends (visit_args R te (i + 1) ps vars1 s1)
      (\<lambda>(vars', s'). binds s [] vars (\<lambda>I env. match_args I te i (map fst (pt # ps)) (store_of env vars)) vars' s')"
      unfolding pt by (rule ends_weaken2) (use binds_trans [OF one _ Cons.prems(1), of "[]"] in force)
  qed
qed

text \<open>What if-let clauses achieve, from a scope that is sure whenever the condition so far holds.\<close>

definition passes :: "'s \<Rightarrow> 'p scope \<Rightarrow> (interp \<Rightarrow> store \<Rightarrow> (store \<times> nat) option) \<Rightarrow> 'p scope \<Rightarrow> 's \<Rightarrow> bool" where
  "passes s vars spec vars' s' \<longleftrightarrow> leads s s' \<and> scope_live s' vars' \<and>
     (\<forall>I env. models I env s' \<longrightarrow> (holds env s \<longrightarrow> scope_sure env s vars) \<longrightarrow>
        tracks (holds env s) (holds env s') (spec I (store_of env vars)) (store_of env vars', counter s') \<and>
        (holds env s' \<longrightarrow> scope_sure env s' vars'))"

lemma match_iflets_Cons:
  "match_iflets I te (f # fs) \<sigma> n = Option.bind (match_iflets I te [f] \<sigma> n) (\<lambda>(\<sigma>, n). match_iflets I te fs \<sigma> n)"
  by (cases "eval I te (iflet_rhs f) (trusted \<sigma>) n") (auto split: prod.splits)

lemma iflet_step:
  assumes one: "computes s (\<lambda>I env. eval I te (iflet_rhs f) (flagged_of env s vars) (counter s)) x s1"
    and two: "leads s1 s2" "counter s2 = counter s1"
      "\<forall>I env. models I env s2 \<longrightarrow> holds env s2 = (holds env s1 \<and> sure env s1 x)"
    and b: "binds s2 [x] vars (\<lambda>I env. pmatch I te (iflet_lhs f) (env x) (store_of env vars)) vars' s'"
    and s: "inv s" "scope_live s vars"
  shows "passes s vars (\<lambda>I \<sigma>. match_iflets I te [f] \<sigma> (counter s)) vars' s'"
proof -
  have s1: "leads s s1" "inv s1" "live s1 x" using computes_leads [OF one] by auto
  have s2: "leads s s2" by (rule leads_trans [OF s1(1) two(1)])
  have s': "leads s2 s'" "leads s s'" using b leads_trans [OF s2] by (auto simp: binds_def)
  have "tracks (holds env s) (holds env s') (match_iflets I te [f] (store_of env vars) (counter s))
      (store_of env vars', counter s') \<and> (holds env s' \<longrightarrow> scope_sure env s' vars')"
    if m: "models I env s'" and sure: "holds env s \<longrightarrow> scope_sure env s vars" for I env
  proof -
    have m2: "models I env s2" by (rule leads_models [OF s'(1) m])
    have m1: "models I env s1" by (rule leads_models [OF two(1) m2])
    have one: "holds env s1 = holds env s" "eval I te (iflet_rhs f) (flagged_of env s vars) (counter s) = Some ((env x, sure env s1 x), counter s1)"
      using one m1 by (auto simp: computes_def yields_def flag_def)
    have two: "holds env s2 = (holds env s1 \<and> sure env s1 x)" "counter s2 = counter s1" using two m2 by auto
    have three: "tracks (holds env s2) (holds env s') (pmatch I te (iflet_lhs f) (env x) (store_of env vars)) (store_of env vars')"
      "holds env s' \<Longrightarrow> sure env s1 x \<Longrightarrow> scope_sure env s vars \<Longrightarrow> scope_sure env s' vars'" "counter s' = counter s2"
      using b m leads_sure [OF s1(2) assms(2) s1(3)] leads_scope_sure [OF s(1) s2 s(2)] by (auto simp: binds_def)
    show ?thesis
    proof (cases "holds env s")
      case True
      then have "trusted (store_of env vars) = flagged_of env s vars" using sure trusted_store by blast
      then show ?thesis
        using three True sure one two by (auto simp: tracks_def split: if_splits option.splits)
    next
      case False
      then show ?thesis using one(1) two(1) three(1) by (simp add: tracks_def)
    qed
  qed
  then show ?thesis using b s'(2) by (simp add: binds_def passes_def)
qed

lemma iflet_passes:
  assumes "inv s" "scope_live s vars"
  shows "ends (after (visit_in_rule R te (iflet_rhs f) vars s) (\<lambda>(x, s).
      after (v_expr_as_pattern R x s) (\<lambda>(x, s). v_pattern R (pattern_visit (v_patterns R) te (iflet_lhs f) x vars) s)))
    (\<lambda>(vars', s'). passes s vars (\<lambda>I \<sigma>. match_iflets I te [f] \<sigma> (counter s)) vars' s')"
  unfolding own_patterns
proof (rule ends_after2 [OF visit_in_rule_computes [OF assms]], rule ends_after2 [OF as_pattern], goal_cases)
  case (3 x s1 y s2)
  then have x: "y = x" "leads s1 s2" and two: "counter s2 = counter s1"
    "\<forall>I env. models I env s2 \<longrightarrow> holds env s2 = (holds env s1 \<and> sure env s1 x)" by auto
  have s1: "leads s s1" "live s1 x" using computes_leads [OF 3(1)] by auto
  have s2: "leads s s2" "inv s2" using leads_trans [OF s1(1) x(2)] by (auto simp: leads_def)
  have "ends (pattern_visit (v_patterns R) te (iflet_lhs f) x vars s2)
      (\<lambda>(vars', s'). binds s2 [x] vars (\<lambda>I env. pmatch I te (iflet_lhs f) (env x) (store_of env vars)) vars' s')"
    by (rule pattern_visit_binds(1) [OF refl s2(2) leads_live [OF x(2) s1(2)] leads_scope_live [OF s2(1) assms(2)]])
  then show ?case
    unfolding x(1) by (rule ends_weaken2) (rule iflet_step [OF 3(1) x(2) two _ assms])
qed (auto dest: computes_leads)

lemma passes_trans:
  assumes "passes s vars spec vars1 s1" "passes s1 vars1 spec1 vars2 s2"
    and "\<And>I \<sigma> \<sigma>'. spec I \<sigma> = Some (\<sigma>', counter s1) \<Longrightarrow> spec2 I \<sigma> = spec1 I \<sigma>'"
    and "\<And>I \<sigma>. spec I \<sigma> = None \<Longrightarrow> spec2 I \<sigma> = None"
  shows "passes s vars spec2 vars2 s2"
proof -
  have leads: "leads s s1" "leads s1 s2" using assms(1,2) by (auto simp: passes_def)
  have "tracks (holds env s) (holds env s2) (spec2 I (store_of env vars)) (store_of env vars2, counter s2) \<and>
      (holds env s2 \<longrightarrow> scope_sure env s2 vars2)"
    if m: "models I env s2" and sure: "holds env s \<longrightarrow> scope_sure env s vars" for I env
  proof -
    have one: "tracks (holds env s) (holds env s1) (spec I (store_of env vars)) (store_of env vars1, counter s1)"
      "holds env s1 \<longrightarrow> scope_sure env s1 vars1"
      using assms(1) sure leads_models [OF leads(2) m] by (auto simp: passes_def)
    then have "tracks (holds env s1) (holds env s2) (spec1 I (store_of env vars1)) (store_of env vars2, counter s2)"
      "holds env s2 \<longrightarrow> scope_sure env s2 vars2" using assms(2) m by (auto simp: passes_def)
    then show ?thesis
      using one(1) assms(3,4) [of I "store_of env vars"]
      by (cases "spec I (store_of env vars)") (auto simp: tracks_def split: if_splits)
  qed
  then show ?thesis using assms(2) leads_trans [OF leads] by (simp add: passes_def)
qed

lemma visit_iflets_passes:
  "inv s \<Longrightarrow> scope_live s vars \<Longrightarrow> ends (visit_iflets R te fs vars s)
     (\<lambda>(vars', s'). passes s vars (\<lambda>I \<sigma>. match_iflets I te fs \<sigma> (counter s)) vars' s')"
proof (induction fs arbitrary: vars s)
  case Nil
  then show ?case by (simp add: passes_def leads_refl)
next
  case (Cons f fs)
  have run: "visit_iflets R te (f # fs) vars s =
      after (after (visit_in_rule R te (iflet_rhs f) vars s) (\<lambda>(x, s).
        after (v_expr_as_pattern R x s) (\<lambda>(x, s). v_pattern R (pattern_visit (v_patterns R) te (iflet_lhs f) x vars) s)))
        (\<lambda>(vars, s). visit_iflets R te fs vars s)"
    unfolding visit_iflets.simps after_assoc by (simp add: case_prod_unfold after_assoc)
  show ?case
    unfolding run
  proof (rule ends_after2 [OF iflet_passes [OF Cons.prems]])
    fix vars1 s1
    assume one: "passes s vars (\<lambda>I \<sigma>. match_iflets I te [f] \<sigma> (counter s)) vars1 s1"
    then have "inv s1" "scope_live s1 vars1" by (auto simp: passes_def leads_def)
    from Cons.IH [OF this]
    show "ends (visit_iflets R te fs vars1 s1)
      (\<lambda>(vars', s'). passes s vars (\<lambda>I \<sigma>. match_iflets I te (f # fs) \<sigma> (counter s)) vars' s')"
      unfolding match_iflets_Cons [of _ _ f fs]
      by (rule ends_weaken2, elim passes_trans [OF one]) (simp_all del: match_iflets.simps)
  qed
qed

lemma rule_step:
  assumes "root_term_id rule < length (env_terms te)"
    and one: "binds s [] [] (\<lambda>I env. match_args I te 0
      (map fst (zip (sr_args rule) (arg_tys (env_terms te ! root_term_id rule)))) (store_of env [])) vars1 s1"
    and two: "passes s1 vars1 (\<lambda>I \<sigma>. match_iflets I te (sr_iflets rule) \<sigma> (counter s1)) vars2 s2"
    and three: "computes s2 (\<lambda>I env. eval I te (sr_rhs rule) (flagged_of env s2 vars2) (counter s2)) y s'"
  shows "leads s s' \<and> live s' y \<and>
    (\<forall>I env. models I env s' \<longrightarrow> tracks (holds env s) (holds env s') (rule_value I te rule (counter s)) (env y))"
proof -
  have leads: "leads s s1" "leads s1 s2" "leads s2 s'" "live s' y" "counter s1 = counter s"
    using one two computes_leads [OF three] by (auto simp: binds_def passes_def)
  have "tracks (holds env s) (holds env s') (rule_value I te rule (counter s)) (env y)" if m: "models I env s'" for I env
  proof -
    have m2: "models I env s2" by (rule leads_models [OF leads(3) m])
    have "models I env s1" by (rule leads_models [OF leads(2) m2])
    then have a: "tracks (holds env s) (holds env s1) (match_args I te 0
        (map fst (zip (sr_args rule) (arg_tys (env_terms te ! root_term_id rule)))) (\<lambda>_. None)) (store_of env vars1)"
      "holds env s1 \<longrightarrow> scope_sure env s1 vars1"
      using one by (auto simp: binds_def scope_sure_def store_of_def)
    have b: "tracks (holds env s1) (holds env s2) (match_iflets I te (sr_iflets rule) (store_of env vars1) (counter s))
        (store_of env vars2, counter s2)"
      "holds env s2 \<longrightarrow> scope_sure env s2 vars2"
      using two a(2) m2 leads(5) by (auto simp: passes_def)
    have c: "holds env s' = holds env s2"
      "eval I te (sr_rhs rule) (flagged_of env s2 vars2) (counter s2) = Some ((env y, sure env s' y), counter s')"
      using three m by (auto simp: computes_def yields_def flag_def)
    have "eval I te (sr_rhs rule) (trusted (store_of env vars2)) (counter s2) = Some ((env y, sure env s' y), counter s')"
      if "holds env s2" using that c(2) b(2) trusted_store [of env s2 vars2] by simp
    then have "tracks (holds env s1) (holds env s2) (Option.bind (match_iflets I te (sr_iflets rule) (store_of env vars1) (counter s))
        (\<lambda>(\<sigma>, n). map_option (\<lambda>((v, _), _). v) (eval I te (sr_rhs rule) (trusted \<sigma>) n))) (env y)"
      by (intro tracks_bind [OF b(1)]) (auto simp: tracks_def)
    then show ?thesis
      unfolding rule_value_def c(1) if_P [OF assms(1)] by (rule tracks_bind [OF a(1)]) (rule tracks_stop [OF b(1)])
  qed
  then show ?thesis using leads leads_trans by blast
qed

text \<open>
  Visiting a rule: the condition the visitor has collected holds exactly when the rule matches, and
  the id it returns then has the value of the rule.
\<close>

lemma rule_visit_tracks:
  assumes "inv s"
  shows "ends (rule_visit R te rule s) (\<lambda>(y, s'). leads s s' \<and> live s' y \<and>
    (\<forall>I env. models I env s' \<longrightarrow> tracks (holds env s) (holds env s') (rule_value I te rule (counter s)) (env y)))"
proof (cases "root_term_id rule < length (env_terms te)")
  case True
  let ?ps = "zip (sr_args rule) (arg_tys (env_terms te ! root_term_id rule))"
  have td: "get_term te (root_term_id rule) = Some (Ok (env_terms te ! root_term_id rule))" using True by (simp add: get_term_def)
  have "scope_live s []" by (simp add: scope_live_def)
  show ?thesis
    unfolding rule_visit_def td after_Ok
  proof (rule ends_after2 [OF visit_args_binds [OF assms \<open>scope_live s []\<close>]])
    fix vars1 s1
    assume one: "binds s [] [] (\<lambda>I env. match_args I te 0 (map fst ?ps) (store_of env [])) vars1 s1"
    then have s1: "inv s1" "scope_live s1 vars1" "leads s s1" "counter s1 = counter s" by (auto simp: binds_def leads_def)
    show "ends (after (visit_iflets R te (sr_iflets rule) vars1 s1) (\<lambda>(vars, s). visit_in_rule R te (sr_rhs rule) vars s))
      (\<lambda>(y, s'). leads s s' \<and> live s' y \<and>
        (\<forall>I env. models I env s' \<longrightarrow> tracks (holds env s) (holds env s') (rule_value I te rule (counter s)) (env y)))"
    proof (rule ends_after2 [OF visit_iflets_passes [OF s1(1,2)]])
      fix vars2 s2
      assume two: "passes s1 vars1 (\<lambda>I \<sigma>. match_iflets I te (sr_iflets rule) \<sigma> (counter s1)) vars2 s2"
      then have s2: "inv s2" "scope_live s2 vars2" "leads s1 s2" by (auto simp: passes_def leads_def)
      from visit_in_rule_computes [OF s2(1,2)]
      show "ends (visit_in_rule R te (sr_rhs rule) vars2 s2) (\<lambda>(y, s'). leads s s' \<and> live s' y \<and>
        (\<forall>I env. models I env s' \<longrightarrow> tracks (holds env s) (holds env s') (rule_value I te rule (counter s)) (env y)))"
        by (rule ends_weaken2) (rule rule_step [OF True one two])
    qed
  qed
qed (simp add: rule_visit_def get_term_def)

end

end
