(* ===== verification/Trie_Visitor.thy ===== *)
theory Trie_Visitor
  imports Trie_Normalize Sema_Visitors "HOL-Library.Multiset"
begin

text \<open>
  The rule-set builder as a visitor of rules (\<^verbatim>\<open>isle/src/trie_again.rs\<close>): the visitor's methods,
  \<^verbatim>\<open>add_rule\<close> and \<^verbatim>\<open>build\<close>. The builder keeps the meaning of the rules it visits, so a rule of a
  rule set matches exactly when the rule it was made from does.
\<close>

section \<open>Patterns\<close>

definition add_match_equal :: "rs_builder \<Rightarrow> binding_id \<Rightarrow> binding_id \<Rightarrow> type_id \<Rightarrow> rs_builder run" where
  "add_match_equal B a b ty =
     (if a \<noteq> b then after (merge (equals (current_rule B)) a b) (\<lambda>m. Some (Ok (with_equals B m))) else Some (Ok B))"

definition add_match_int :: "rs_builder \<Rightarrow> binding_id \<Rightarrow> type_id \<Rightarrow> int \<Rightarrow> rs_builder run" where
  "add_match_int B input ty val =
     after (set_constraint B input (CConstInt val ty)) (\<lambda>(bindings, B). if bindings = [] then Some (Ok B) else Some Panic)"

definition add_match_prim :: "rs_builder \<Rightarrow> binding_id \<Rightarrow> type_id \<Rightarrow> sym \<Rightarrow> rs_builder run" where
  "add_match_prim B input ty val =
     after (set_constraint B input (CConstPrim val)) (\<lambda>(bindings, B). if bindings = [] then Some (Ok B) else Some Panic)"

definition add_match_variant ::
  "rs_builder \<Rightarrow> binding_id \<Rightarrow> type_id \<Rightarrow> type_id list \<Rightarrow> variant_id \<Rightarrow> (binding_id list \<times> rs_builder) run" where
  "add_match_variant B input input_ty tys variant =
     (if length tys \<le> 255 then set_constraint B input (CVariant input_ty variant (length tys)) else Some Panic)"

abbreviation note_iterator :: "rs_builder \<Rightarrow> binding_id \<Rightarrow> rs_builder" where
  "note_iterator B source \<equiv> B\<lparr>current_rule := (current_rule B)\<lparr>iterators := insert source (iterators (current_rule B))\<rparr>\<rparr>"

text \<open>The binding with an extractor's outputs.\<close>

definition extract_source :: "rs_builder \<Rightarrow> binding_id \<Rightarrow> bool \<Rightarrow> bool \<Rightarrow> (binding_id \<times> rs_builder) run" where
  "extract_source B source infallible multi =
     (if multi then dedup_binding (note_iterator B source) (BIterator source)
      else if infallible then Some (Ok (source, B))
      else after (set_constraint B source CSome) (\<lambda>(bindings, B).
        case bindings of [b] \<Rightarrow> Some (Ok (b, B)) | _ \<Rightarrow> Some Panic))"

definition split_outputs :: "rs_builder \<Rightarrow> binding_id \<Rightarrow> nat \<Rightarrow> (binding_id list \<times> rs_builder) run" where
  "split_outputs B source n =
     (if 255 < n then Some Panic
      else if n = 0 then Some (Ok ([], B))
      else if n = 1 then Some (Ok ([source], B))
      else dedup_all B (map (\<lambda>field. BMatchTuple source field) [0..<n]))"

definition add_extract ::
  "rs_builder \<Rightarrow> binding_id \<Rightarrow> type_id \<Rightarrow> type_id list \<Rightarrow> term_id \<Rightarrow> bool \<Rightarrow> bool \<Rightarrow> (binding_id list \<times> rs_builder) run" where
  "add_extract B input input_ty output_tys t infallible multi =
     after (dedup_binding B (BExtractor t input)) (\<lambda>(source, B).
     after (extract_source B source infallible multi) (\<lambda>(source, B).
     split_outputs B source (length output_tys)))"

section \<open>Expressions\<close>

definition add_const_int :: "rs_builder \<Rightarrow> type_id \<Rightarrow> int \<Rightarrow> (binding_id \<times> rs_builder) run" where
  "add_const_int B ty val = dedup_binding B (BConstInt val ty)"

definition add_const_prim :: "rs_builder \<Rightarrow> type_id \<Rightarrow> sym \<Rightarrow> (binding_id \<times> rs_builder) run" where
  "add_const_prim B ty val = dedup_binding B (BConstPrim val)"

definition add_create_variant ::
  "rs_builder \<Rightarrow> (binding_id \<times> type_id) list \<Rightarrow> type_id \<Rightarrow> variant_id \<Rightarrow> (binding_id \<times> rs_builder) run" where
  "add_create_variant B inputs ty variant = dedup_binding B (BMakeVariant ty variant (map fst inputs))"

text \<open>The instance of an impure call is a \<^verbatim>\<open>u32\<close>.\<close>

definition next_instance :: "rs_builder \<Rightarrow> bool \<Rightarrow> (nat \<times> rs_builder) run" where
  "next_instance B pure =
     (if pure then Some (Ok (0, B))
      else if impure_instance B + 1 < 2 ^ 32
      then Some (Ok (impure_instance B + 1, B\<lparr>impure_instance := impure_instance B + 1\<rparr>))
      else Some Panic)"

definition construct_source :: "rs_builder \<Rightarrow> binding_id \<Rightarrow> bool \<Rightarrow> bool \<Rightarrow> (binding_id \<times> rs_builder) run" where
  "construct_source B source infallible multi =
     (if multi then dedup_binding (note_iterator B source) (BIterator source)
      else if infallible then Some (Ok (source, B))
      else dedup_binding B (BMatchSome source))"

definition add_construct ::
  "rs_builder \<Rightarrow> (binding_id \<times> type_id) list \<Rightarrow> type_id \<Rightarrow> term_id \<Rightarrow> bool \<Rightarrow> bool \<Rightarrow> bool \<Rightarrow> (binding_id \<times> rs_builder) run" where
  "add_construct B inputs ty t pure infallible multi =
     after (next_instance B pure) (\<lambda>(inst, B).
     after (dedup_binding B (BConstructor t (map fst inputs) inst)) (\<lambda>(source, B).
     after (construct_source B source infallible multi) (\<lambda>(source, B).
     Some (Ok (source,
       if pure then B else B\<lparr>current_rule := (current_rule B)\<lparr>impure := impure (current_rule B) @ [source]\<rparr>\<rparr>)))))"

section \<open>Rules\<close>

definition add_arg :: "rs_builder \<Rightarrow> nat \<Rightarrow> type_id \<Rightarrow> (binding_id \<times> rs_builder) run" where
  "add_arg B index ty = (if index \<le> 255 then dedup_binding B (BArgument index) else Some Panic)"

text \<open>The work list of \<^verbatim>\<open>expr_as_pattern\<close>; its head is the next to be taken.\<close>

partial_function (option) require_some :: "rs_builder \<Rightarrow> binding_id list \<Rightarrow> rs_builder run" where
  "require_some B todo =
     (case todo of
        [] \<Rightarrow> Some (Ok B)
      | x # todo \<Rightarrow>
          if x < length (bindings_of B)
          then (case bindings_of B ! x of
                  BMatchSome source \<Rightarrow>
                    (case set_constraint B source CSome of
                       None \<Rightarrow> None
                     | Some (Ok (_, B)) \<Rightarrow> require_some B (source # todo)
                     | Some (Err e) \<Rightarrow> Some (Err e)
                     | Some Panic \<Rightarrow> Some Panic)
                | b \<Rightarrow> require_some B (rev (binding_sources b) @ todo))
          else Some Panic)"

definition expr_as_pattern :: "rs_builder \<Rightarrow> binding_id \<Rightarrow> (binding_id \<times> rs_builder) run" where
  "expr_as_pattern B e = after (require_some B [e]) (\<lambda>B. Some (Ok (e, B)))"

definition builder_patterns :: "(rs_builder, binding_id) pattern_visitor" where
  "builder_patterns = \<lparr>
     v_match_equal = (\<lambda>a b ty B. add_match_equal B a b ty),
     v_match_int = (\<lambda>x ty i B. add_match_int B x ty i),
     v_match_prim = (\<lambda>x ty c B. add_match_prim B x ty c),
     v_match_variant = (\<lambda>x ty tys w B. add_match_variant B x ty tys w),
     v_extract = (\<lambda>x ty tys t infallible multi B. add_extract B x ty tys t infallible multi)\<rparr>"

definition builder_exprs :: "(rs_builder, binding_id) expr_visitor" where
  "builder_exprs = \<lparr>
     v_const_int = (\<lambda>ty i B. add_const_int B ty i),
     v_const_prim = (\<lambda>ty c B. add_const_prim B ty c),
     v_create_variant = (\<lambda>xs ty w B. add_create_variant B xs ty w),
     v_construct = (\<lambda>xs ty t pure infallible multi B. add_construct B xs ty t pure infallible multi)\<rparr>"

definition builder_visitor ::
  "(rs_builder, rs_builder, rs_builder, binding_id, binding_id, binding_id) rule_visitor" where
  "builder_visitor = \<lparr>
     v_patterns = builder_patterns,
     v_exprs = builder_exprs,
     v_arg = (\<lambda>i ty B. add_arg B i ty),
     v_pattern = (\<lambda>f B. f B),
     v_expr = (\<lambda>f B. after (f B) (\<lambda>((ty, y), B). Some (Ok (y, B)))),
     v_expr_as_pattern = (\<lambda>e B. expr_as_pattern B e),
     v_pattern_as_expr = (\<lambda>p B. Some (Ok (p, B)))\<rparr>"

text \<open>The errors of \<^verbatim>\<open>isle/src/error.rs\<close> that rule sets and overlaps give rise to; the messages are functions of their parts.\<close>

datatype isle_error =
    UnreachableError trie_constraint trie_constraint span
  | OverlapError "span list"
  | ShadowedError "span list" span

definition default_rule :: trie_rule where
  "default_rule = \<lparr>rule_id = 0, rule_pos = pos_new 0 0, constraints = [], equals = [], iterators = {},
     prio = 0, rule_name = None, impure = [], result = 0\<rparr>"

definition default_builder :: rs_builder where
  "default_builder = \<lparr>current_rule = default_rule, impure_instance = 0, unreachable = [],
     rules = \<lparr>rs_rules = [], rs_bindings = [], rs_map = []\<rparr>\<rparr>"

definition begin_rule :: "rs_builder \<Rightarrow> sema_rule \<Rightarrow> rs_builder" where
  "begin_rule B rule = B\<lparr>impure_instance := 0,
     current_rule := (current_rule B)\<lparr>rule_id := sr_id rule, rule_pos := sr_pos rule, prio := sr_prio rule, rule_name := sr_name rule\<rparr>\<rparr>"

definition wrap_result :: "rs_builder \<Rightarrow> bool \<Rightarrow> rs_builder run" where
  "wrap_result B partial =
     (if partial
      then after (dedup_binding B (BMakeSome (result (current_rule B)))) (\<lambda>(r, B).
           Some (Ok (B\<lparr>current_rule := (current_rule B)\<lparr>result := r\<rparr>\<rparr>)))
      else Some (Ok B))"

definition finish_rule :: "rs_builder \<Rightarrow> isle_error list \<Rightarrow> rs_builder \<times> isle_error list" where
  "finish_rule B errors =
     (let rule = current_rule B; B = B\<lparr>current_rule := default_rule\<rparr> in
      if unreachable B = []
      then (B\<lparr>rules := (rules B)\<lparr>rs_rules := rs_rules (rules B) @ [rule]\<rparr>\<rparr>, errors)
      else (B\<lparr>unreachable := []\<rparr>,
            errors @ map (\<lambda>e. UnreachableError (constraint_a e) (constraint_b e) (span_single (err_pos e))) (unreachable B)))"

definition add_rule :: "term_env \<Rightarrow> rs_builder \<Rightarrow> sema_rule \<Rightarrow> isle_error list \<Rightarrow> (rs_builder \<times> isle_error list) run" where
  "add_rule te B rule errors =
     after (rule_visit builder_visitor te rule (begin_rule B rule)) (\<lambda>(r, B).
     let B = B\<lparr>current_rule := (current_rule B)\<lparr>result := r\<rparr>\<rparr> in
     after (get_term te (root_term_id rule)) (\<lambda>termdata.
     after (wrap_result B (is_partial termdata)) (\<lambda>B.
     after (normalize_equivalence_classes B) (\<lambda>B. Some (Ok (finish_rule B errors))))))"

fun add_rules ::
  "term_env \<Rightarrow> sema_rule list \<Rightarrow> (term_id, rs_builder) hashmap \<Rightarrow> isle_error list \<Rightarrow>
     ((term_id, rs_builder) hashmap \<times> isle_error list) run" where
  "add_rules te [] m errors = Some (Ok (m, errors))"
| "add_rules te (rule # rs) m errors =
     (let B = (case hm_get m (root_term_id rule) of None \<Rightarrow> default_builder | Some B \<Rightarrow> B) in
      after (add_rule te B rule errors) (\<lambda>(B, errors). add_rules te rs (hm_insert (root_term_id rule) B m) errors))"

definition build :: "term_env \<Rightarrow> ((term_id \<times> rule_set) list \<times> isle_error list) run" where
  "build te =
     after (add_rules te (env_rules te) [] []) (\<lambda>(m, errors).
     Some (Ok (sort_key fst (map (\<lambda>(t, B). (t, rules B)) m), errors)))"

section \<open>Valuations of the table\<close>

fun value_of :: "interp \<Rightarrow> renv \<Rightarrow> binding \<Rightarrow> rvalue" where
  "value_of I env (BConstInt val ty) = VInt val ty"
| "value_of I env (BConstPrim val) = VPrim val"
| "value_of I env (BArgument index) = i_arg I index"
| "value_of I env (BExtractor t parameter) = i_extract I t (env parameter)"
| "value_of I env (BConstructor t parameters inst) = i_construct I t (map env parameters) inst"
| "value_of I env (BIterator source) = i_pick I (env source)"
| "value_of I env (BMakeVariant ty variant xs) = VVariant ty variant (map env xs)"
| "value_of I env (BMatchVariant source variant field) = variant_part (env source) field"
| "value_of I env (BMakeSome inner) = VSome (env inner)"
| "value_of I env (BMatchSome source) = some_part (env source)"
| "value_of I env (BMatchTuple source field) = tuple_part (env source) field"

definition denotes :: "interp \<Rightarrow> renv \<Rightarrow> binding list \<Rightarrow> bool" where
  "denotes I env bs \<longleftrightarrow> (\<forall>i<length bs. env i = value_of I env (bs ! i))"

lemma denotes_prefix: "prefix bs bs' \<Longrightarrow> denotes I env bs' \<Longrightarrow> denotes I env bs"
  by (auto simp: denotes_def prefix_def nth_append split: if_splits)

lemma denotes_consistent: "denotes I env bs \<Longrightarrow> consistent env bs"
proof -
  have "env i = value_of I env b \<Longrightarrow> part_of env i b" for i b
    by (cases b) (auto split: rvalue.splits)
  then show "denotes I env bs \<Longrightarrow> consistent env bs" by (simp add: denotes_def consistent_def)
qed

text \<open>Since the sources of a binding come before it, every interpretation has a valuation.\<close>

fun valuation_from :: "interp \<Rightarrow> binding list \<Rightarrow> nat \<Rightarrow> renv \<Rightarrow> renv" where
  "valuation_from I [] k env = env"
| "valuation_from I (b # bs) k env = valuation_from I bs (k + 1) (env(k := value_of I env b))"

lemma value_of_cong: "(\<And>s. s \<in> set (binding_sources b) \<Longrightarrow> env s = env' s) \<Longrightarrow> value_of I env b = value_of I env' b"
  by (cases b) (auto cong: map_cong)

lemma valuation_from_below: "i < k \<Longrightarrow> valuation_from I bs k env i = env i"
  by (induction bs arbitrary: k env) auto

lemma valuation_from_denotes:
  assumes "\<forall>i<length bs. \<forall>s\<in>set (binding_sources (bs ! i)). s < k + i"
  shows "i < length bs \<Longrightarrow> valuation_from I bs k env (k + i) = value_of I (valuation_from I bs k env) (bs ! i)"
  using assms
proof (induction bs arbitrary: k env i)
  case (Cons b bs)
  let ?env = "env(k := value_of I env b)"
  show ?case
  proof (cases i)
    case 0
    have "\<forall>s\<in>set (binding_sources b). s < k" using Cons.prems(2) by force
    then have "value_of I (valuation_from I bs (k + 1) ?env) b = value_of I env b"
      by (intro value_of_cong) (auto simp: valuation_from_below)
    then show ?thesis using 0 by (simp add: valuation_from_below)
  next
    case (Suc j)
    have "\<forall>i<length bs. \<forall>s\<in>set (binding_sources (bs ! i)). s < k + 1 + i" using Cons.prems(2) by force
    from Cons.IH [OF _ this, of j ?env] show ?thesis using Suc Cons.prems(1) by (simp add: fun_upd_def)
  qed
qed simp

lemma valuation_exists: "table_ok R \<Longrightarrow> \<exists>env. denotes I env (rs_bindings R)"
  using valuation_from_denotes [of "rs_bindings R" 0 _ I]
  by (intro exI [of _ "valuation_from I (rs_bindings R) 0 (\<lambda>_. VNone)"]) (simp add: table_ok_def denotes_def)

section \<open>Partial calls\<close>

inductive reaches :: "binding list \<Rightarrow> binding_id \<Rightarrow> binding_id \<Rightarrow> bool" for bs where
  here: "reaches bs x x"
| source: "x < length bs \<Longrightarrow> s \<in> set (binding_sources (bs ! x)) \<Longrightarrow> reaches bs s y \<Longrightarrow> reaches bs x y"

fun call_ok :: "renv \<Rightarrow> binding \<Rightarrow> bool" where
  "call_ok env (BMatchSome s) \<longleftrightarrow> accepts CSome (env s)"
| "call_ok env _ \<longleftrightarrow> True"

definition bsure :: "renv \<Rightarrow> rs_builder \<Rightarrow> binding_id \<Rightarrow> bool" where
  "bsure env B x \<longleftrightarrow> (\<forall>y. reaches (bindings_of B) x y \<longrightarrow> y < length (bindings_of B) \<longrightarrow> call_ok env (bindings_of B ! y))"

lemma bsure_at: "at B x b \<Longrightarrow> bsure env B x \<longleftrightarrow> call_ok env b \<and> list_all (bsure env B) (binding_sources b)"
  unfolding bsure_def at_def list_all_iff
  by (metis reaches.here reaches.source reaches.cases)

lemma bsure_grows:
  assumes "table_ok (rules B)" "prefix (bindings_of B) (bindings_of B')" "x < length (bindings_of B)"
  shows "bsure env B' x \<longleftrightarrow> bsure env B x"
  using assms(3)
proof (induction x rule: less_induct)
  case (less x)
  let ?b = "bindings_of B ! x"
  have B: "at B x ?b" using less.prems by (simp add: at_def)
  then have B': "at B' x ?b" by (rule at_prefix [OF assms(2)])
  have "s < x" if "s \<in> set (binding_sources ?b)" for s using at_sources [OF assms(1) B that] .
  then show ?case
    unfolding bsure_at [OF B] bsure_at [OF B'] using less by (auto simp: list_all_iff)
qed

section \<open>The builder's condition\<close>

definition blive :: "rs_builder \<Rightarrow> binding_id \<Rightarrow> bool" where
  "blive B x \<longleftrightarrow> x < length (bindings_of B)"

definition header :: "trie_rule \<Rightarrow> rule_id \<times> pos \<times> int \<times> sym option" where
  "header r = (rule_id r, rule_pos r, prio r, rule_name r)"

definition bgrows :: "rs_builder \<Rightarrow> rs_builder \<Rightarrow> bool" where
  "bgrows B B' \<longleftrightarrow> prefix (bindings_of B) (bindings_of B') \<and> rs_rules (rules B') = rs_rules (rules B) \<and>
     header (current_rule B') = header (current_rule B)"

definition bmodels :: "interp \<Rightarrow> renv \<Rightarrow> rs_builder \<Rightarrow> bool" where
  "bmodels I env B \<longleftrightarrow> denotes I env (bindings_of B)"

definition bholds :: "renv \<Rightarrow> rs_builder \<Rightarrow> bool" where
  "bholds env B \<longleftrightarrow> unreachable B = [] \<and> matches (current_rule B) env"

interpretation builder_state: visitor_state builder_ok blive bgrows impure_instance bmodels bholds bsure
proof
  fix s s' s'' :: rs_builder and x I env
  show "bgrows s s" by (simp add: bgrows_def)
  show "bgrows s s' \<Longrightarrow> bgrows s' s'' \<Longrightarrow> bgrows s s''" unfolding bgrows_def by (auto intro: prefix_order.trans)
  show "bgrows s s' \<Longrightarrow> blive s x \<Longrightarrow> blive s' x" by (auto simp: bgrows_def blive_def dest: prefix_length_le)
  show "bgrows s s' \<Longrightarrow> bmodels I env s' \<Longrightarrow> bmodels I env s" unfolding bgrows_def bmodels_def by (auto intro: denotes_prefix)
  show "builder_ok s \<Longrightarrow> bgrows s s' \<Longrightarrow> blive s x \<Longrightarrow> bsure env s' x \<longleftrightarrow> bsure env s x"
    unfolding bgrows_def blive_def builder_ok_def by (intro bsure_grows) auto
qed

section \<open>The builder keeps the contract\<close>

lemma frame_grows: "frame B B' \<Longrightarrow> bgrows B B'"
  by (cases "current_rule B"; cases "current_rule B'") (simp add: frame_def bgrows_def header_def)

lemma at_value: "at B i b \<Longrightarrow> bmodels I env B \<Longrightarrow> env i = value_of I env b"
  by (auto simp: at_def bmodels_def denotes_def)

lemma grown_ok: "builder_ok B \<Longrightarrow> grown B B' \<Longrightarrow> table_ok (rules B') \<Longrightarrow> builder_ok B'"
  unfolding builder_ok_def grown_def by (fastforce dest: prefix_length_le)

lemma grown_leads: "builder_ok B \<Longrightarrow> grown B B' \<Longrightarrow> table_ok (rules B') \<Longrightarrow> builder_state.leads B B'"
  using grown_ok by (simp add: builder_state.leads_def bgrows_def grown_def)

lemma grown_holds: "grown B B' \<Longrightarrow> bholds env B' \<longleftrightarrow> bholds env B"
  by (simp add: grown_def bholds_def)

lemma dedup_computes:
  assumes "builder_ok B" "list_all (blive B) (binding_sources b)"
  shows "ends (dedup_binding B b) (\<lambda>(y, B').
    builder_state.computes B
      (\<lambda>I env. Some ((value_of I env b, call_ok env b \<and> list_all (bsure env B) (binding_sources b)), impure_instance B)) y B' \<and>
    impure_instance B' = impure_instance B)"
proof -
  have "table_ok (rules B)" "\<forall>s\<in>set (binding_sources b). s < length (bindings_of B)"
    using assms by (auto simp: builder_ok_def list_all_iff blive_def)
  from dedup_binding_ends [OF this] show ?thesis
  proof (rule ends_weaken2, elim conjE)
    fix y B' assume B': "table_ok (rules B')" "grown B B'" "at B' y b"
    note leads = grown_leads [OF assms(1) B'(2,1)]
    have "bsure env B' y \<longleftrightarrow> call_ok env b \<and> list_all (bsure env B) (binding_sources b)" for env
      unfolding bsure_at [OF B'(3)] builder_state.leads_sure_all [OF assms(1) leads assms(2)] ..
    then show "builder_state.computes B
      (\<lambda>I env. Some ((value_of I env b, call_ok env b \<and> list_all (bsure env B) (binding_sources b)), impure_instance B)) y B' \<and>
      impure_instance B' = impure_instance B"
      using leads B'(2,3) at_value [OF B'(3)] grown_holds [OF B'(2)]
      by (auto simp: builder_state.computes_def builder_state.yields_def builder_state.flag_def blive_def at_def grown_def)
  qed
qed

lemma dedup_checks:
  assumes "builder_ok B" "list_all (blive B) (binding_sources b)" "\<And>env. call_ok env b"
  shows "ends (dedup_binding B b) (\<lambda>(y, B'). builder_state.checks B (binding_sources b) (\<lambda>I env. Some [value_of I env b]) [y] B')"
  using dedup_computes [OF assms(1,2)] assms(3)
  by (auto elim!: ends_weaken intro!: builder_state.computes_checks)

lemma constrained_holds:
  assumes "equals_of B' = equals_of B" "prefix (unreachable B) (unreachable B')"
    and "\<And>y. constraint_at B' y = (if y = x \<and> constraint_at B x = None then Some c else constraint_at B y)"
    and "unreachable B' = unreachable B \<longleftrightarrow> constraint_at B x \<in> {None, Some c}"
  shows "bholds env B' \<longleftrightarrow> bholds env B \<and> accepts c (env x)"
proof (cases "constraint_at B x \<in> {None, Some c}")
  case True
  then have "satisfies (constraints (current_rule B')) env \<longleftrightarrow> satisfies (constraints (current_rule B)) env \<and> accepts c (env x)"
    unfolding satisfies_def assms(3) by (auto split: if_splits)
  then show ?thesis using True assms(1,4) by (auto simp: bholds_def matches_def)
next
  case False
  then obtain c' where c': "constraint_at B x = Some c'" "c' \<noteq> c" by auto
  have "unreachable B' \<noteq> []" using False assms(2,4) by auto
  moreover have "bholds env B \<Longrightarrow> \<not> accepts c (env x)"
    using c' accepts_unique [of c' "env x" c] by (auto simp: bholds_def matches_def satisfies_def)
  ultimately show ?thesis by (auto simp: bholds_def)
qed

lemma set_constraint_checks:
  assumes "builder_ok B" "blive B x" "small c"
  shows "ends (set_constraint B x c) (\<lambda>(ys, B'). builder_state.checks B [x]
    (\<lambda>I env. if accepts c (env x) then Some (map (value_of I env) (bindings_for c x)) else None) ys B')"
proof (rule ends_weaken2 [OF set_constraint_ends [OF assms(1) assms(2) [unfolded blive_def] assms(3)]], elim conjE)
  fix ys B'
  assume B': "builder_ok B'" "frame B B'" "fields_at B' x c ys" "equals_of B' = equals_of B"
    "\<forall>y. constraint_at B' y = (if y = x \<and> constraint_at B x = None then Some c else constraint_at B y)"
    "unreachable B' = unreachable B \<longleftrightarrow> constraint_at B x \<in> {None, Some c}"
  have leads: "builder_state.leads B B'" using B'(1,2) frame_grows by (simp add: builder_state.leads_def)
  have holds: "bholds env B' \<longleftrightarrow> bholds env B \<and> accepts c (env x)" for env
    using B'(2,4,5,6) by (intro constrained_holds) (auto simp: frame_def)
  have "map env ys = map (value_of I env) (bindings_for c x)" if "bmodels I env B'" for I env
    using B'(3) at_value [OF _ that] by (auto simp: list_all2_conv_all_nth intro!: nth_equalityI)
  moreover have "bsure env B' y" if y: "y \<in> set ys" "bholds env B'" "bsure env B x" for env y
  proof -
    obtain b where b: "at B' y b" "b \<in> set (bindings_for c x)"
      using B'(3) y(1) unfolding list_all2_conv_all_nth by (metis in_set_conv_nth nth_mem)
    have "call_ok env b" using b(2) holds y(2) by (cases c) auto
    then show ?thesis
      using bsure_at [OF b(1)] bindings_for_sources [OF b(2)] builder_state.leads_sure [OF assms(1) leads assms(2)] y(3) by simp
  qed
  moreover have "list_all (blive B') ys"
    using B'(3) by (auto simp: list_all2_conv_all_nth list_all_length blive_def at_def)
  ultimately show "builder_state.checks B [x]
    (\<lambda>I env. if accepts c (env x) then Some (map (value_of I env) (bindings_for c x)) else None) ys B'"
    using leads B'(2) holds by (auto simp: builder_state.checks_def list_all_iff frame_def tracks_def)
qed

text \<open>Changes to the rest of the current rule are invisible to the contract.\<close>

definition same_view :: "rs_builder \<Rightarrow> rs_builder \<Rightarrow> bool" where
  "same_view B B' \<longleftrightarrow> rules B' = rules B \<and> unreachable B' = unreachable B \<and>
     constraints (current_rule B') = constraints (current_rule B) \<and> equals_of B' = equals_of B \<and>
     header (current_rule B') = header (current_rule B)"

lemma same_view_ok: "same_view B B' \<Longrightarrow> builder_ok B' \<longleftrightarrow> builder_ok B"
  by (simp add: same_view_def builder_ok_def rule_ok_def)

lemma same_view_eq:
  assumes "same_view B B'"
  shows "blive B' = blive B" "bsure env B' = bsure env B" "bholds env B' = bholds env B" "bmodels I env B' = bmodels I env B"
    "bgrows B' = bgrows B" "bgrows A B' = bgrows A B" "builder_ok B' = builder_ok B"
  using assms [unfolded same_view_def] same_view_ok [OF assms]
  by (simp_all add: blive_def bsure_def bholds_def bmodels_def bgrows_def matches_def fun_eq_iff)

lemma same_view_checks:
  "same_view B B1 \<Longrightarrow> impure_instance B1 = impure_instance B \<Longrightarrow>
     builder_state.checks B1 xs spec ys B' \<longleftrightarrow> builder_state.checks B xs spec ys B'"
  by (simp add: builder_state.checks_def builder_state.leads_def same_view_eq)

lemma same_view_computes:
  "same_view B1 B2 \<Longrightarrow> impure_instance B2 = impure_instance B1 \<Longrightarrow>
     builder_state.computes B spec y B2 \<longleftrightarrow> builder_state.computes B spec y B1"
  by (simp add: builder_state.computes_def builder_state.yields_def builder_state.leads_def builder_state.flag_def same_view_eq)

lemma same_view_from:
  "same_view B B1 \<Longrightarrow> builder_state.computes B1 spec y B' \<longleftrightarrow> builder_state.computes B spec y B'"
  by (simp add: builder_state.computes_def builder_state.yields_def builder_state.leads_def same_view_eq)

lemma add_match_equal_checks:
  assumes "builder_ok B" "blive B a" "blive B b"
  shows "ends (add_match_equal B a b ty) (builder_state.checks B [a, b] (\<lambda>I env. if env a = env b then Some [] else None) [])"
proof (cases "a = b")
  case True
  then show ?thesis
    using assms(1) by (simp add: add_match_equal_def builder_state.checks_def builder_state.leads_refl)
next
  case False
  have "built (equals_of B)" using assms(1) by (simp add: builder_ok_def rule_ok_def)
  from merge_agrees [OF this False] obtain m where m: "merge (equals_of B) a b = Some (Ok m)" "built m"
    "items m = insert a (insert b (items (equals_of B)))" "\<forall>env. agrees m env \<longleftrightarrow> agrees (equals_of B) env \<and> env a = env b" by blast
  then have "builder_ok (with_equals B m)" using assms by (simp add: builder_ok_def rule_ok_def blive_def)
  then show ?thesis
    using False m
    by (auto simp: add_match_equal_def builder_state.checks_def builder_state.leads_def bgrows_def bholds_def matches_def tracks_def header_def)
qed

lemma add_match_const_checks:
  assumes "builder_ok B" "blive B x" "\<And>y. bindings_for c y = []"
  shows "ends (after (set_constraint B x c) (\<lambda>(bindings, B). if bindings = [] then Some (Ok B) else Some Panic))
    (builder_state.checks B [x] (\<lambda>I env. if accepts c (env x) then Some [] else None) [])"
proof (rule ends_after2 [OF set_constraint_checks [OF assms(1,2)]])
  fix ys B'
  assume "builder_state.checks B [x]
    (\<lambda>I env. if accepts c (env x) then Some (map (value_of I env) (bindings_for c x)) else None) ys B'"
  then show "ends (if ys = [] then Some (Ok B') else Some Panic)
    (builder_state.checks B [x] (\<lambda>I env. if accepts c (env x) then Some [] else None) [])"
    unfolding assms(3) list.map by (cases "ys = []") auto
qed (simp add: small_def assms(3))

lemma add_match_variant_checks:
  assumes "builder_ok B" "blive B x"
  shows "ends (add_match_variant B x ty tys w)
    (\<lambda>(ys, B'). builder_state.checks B [x] (\<lambda>I env. variant_values ty w (length tys) (env x)) ys B')"
  using set_constraint_checks [OF assms, of "CVariant ty w (length tys)"]
  by (auto simp: add_match_variant_def small_def variant_values_def comp_def simp del: upt_Suc cong: if_cong)

lemma extract_source_checks:
  assumes "builder_ok B" "blive B x"
  shows "ends (extract_source B x infallible multi) (\<lambda>(y, B'). builder_state.checks B [x]
    (\<lambda>I env. if multi then Some [i_pick I (env x)] else if infallible then Some [env x]
       else if accepts CSome (env x) then Some [some_part (env x)] else None) [y] B')"
proof -
  have view: "same_view B (note_iterator B x)" by (simp add: same_view_def header_def)
  show ?thesis
  proof (cases multi)
    case True
    have "ends (dedup_binding (note_iterator B x) (BIterator x)) (\<lambda>(y, B').
        builder_state.checks (note_iterator B x) [x] (\<lambda>I env. Some [i_pick I (env x)]) [y] B')"
      using dedup_checks [of "note_iterator B x" "BIterator x"] assms same_view_eq [OF view] by simp
    then show ?thesis using True by (simp add: extract_source_def same_view_checks [OF view])
  next
    case multi: False
    show ?thesis
    proof (cases infallible)
      case True
      then show ?thesis
        using multi builder_state.checks_refl [OF assms(1), of "[x]"] assms(2) by (simp add: extract_source_def)
    next
      case False
      have "ends (after (set_constraint B x CSome) (\<lambda>(bs, B). case bs of [b] \<Rightarrow> Some (Ok (b, B)) | _ \<Rightarrow> Some Panic))
        (\<lambda>(y, B'). builder_state.checks B [x] (\<lambda>I env. if accepts CSome (env x) then Some [some_part (env x)] else None) [y] B')"
        by (rule ends_after2 [OF set_constraint_checks [OF assms]]) (auto simp: small_def split: list.splits cong: if_cong)
      then show ?thesis using multi False by (simp add: extract_source_def)
    qed
  qed
qed

lemma split_outputs_checks:
  assumes "builder_ok B" "blive B x"
  shows "ends (split_outputs B x n) (\<lambda>(ys, B'). builder_state.checks B [x] (\<lambda>I env. Some (tuple_parts n (env x))) ys B')"
proof (cases "n \<le> 1 \<or> 255 < n")
  case True
  then show ?thesis
    using assms by (auto simp: split_outputs_def tuple_parts_def builder_state.checks_def builder_state.leads_refl)
next
  case False
  let ?bs = "map (\<lambda>field. BMatchTuple x field) [0..<n]"
  have "table_ok (rules B)" "\<forall>b\<in>set ?bs. \<forall>s\<in>set (binding_sources b). s < length (bindings_of B)"
    using assms by (auto simp: builder_ok_def blive_def)
  from dedup_all_ends [OF this] have "ends (dedup_all B ?bs) (\<lambda>(ys, B').
      builder_state.checks B [x] (\<lambda>I env. Some (tuple_parts n (env x))) ys B')"
  proof (rule ends_weaken2, elim conjE)
    fix ys B' assume B': "table_ok (rules B')" "grown B B'" "list_all2 (at B') ys ?bs"
    note leads = grown_leads [OF assms(1) B'(2,1)]
    have "at B' (ys ! i) (BMatchTuple x i)" if "i < n" for i
      using list_all2_nthD2 [OF B'(3), of i] that by simp
    note at = this
    have len: "length ys = n" using list_all2_lengthD [OF B'(3)] by simp
    have "map env ys = tuple_parts n (env x)" if "bmodels I env B'" for I env
      using at_value [OF at that] len False by (auto simp: tuple_parts_def intro: nth_equalityI)
    moreover have "bsure env B' (ys ! i) \<longleftrightarrow> bsure env B x" if "i < n" for i env
      using bsure_at [OF at [OF that]] builder_state.leads_sure [OF assms(1) leads assms(2)] by simp
    moreover have "blive B' (ys ! i)" if "i < n" for i using at [OF that] by (simp add: at_def blive_def)
    ultimately show "builder_state.checks B [x] (\<lambda>I env. Some (tuple_parts n (env x))) ys B'"
      using leads len B'(2) grown_holds [OF B'(2)]
      by (auto simp: builder_state.checks_def list_all_length grown_def tracks_def)
  qed
  then show ?thesis using False by (simp add: split_outputs_def)
qed

lemma add_extract_checks:
  assumes "builder_ok B" "blive B x"
  shows "ends (add_extract B x input_ty tys t infallible multi) (\<lambda>(ys, B'). builder_state.checks B [x]
    (\<lambda>I env. map_option (tuple_parts (length tys)) (extract_value I t infallible multi (env x))) ys B')"
  unfolding add_extract_def
proof (rule ends_after2 [OF dedup_checks [OF assms(1)]], use assms(2) in simp, simp)
  fix y B1
  assume one: "builder_state.checks B (binding_sources (BExtractor t x)) (\<lambda>I env. Some [value_of I env (BExtractor t x)]) [y] B1"
  then have "builder_ok B1" "blive B1 y" by (auto simp: builder_state.checks_def builder_state.leads_def)
  show "ends (after (extract_source B1 y infallible multi) (\<lambda>(source, B). split_outputs B source (length tys)))
    (\<lambda>(ys, B'). builder_state.checks B [x]
      (\<lambda>I env. map_option (tuple_parts (length tys)) (extract_value I t infallible multi (env x))) ys B')"
  proof (rule ends_after2 [OF extract_source_checks [OF \<open>builder_ok B1\<close> \<open>blive B1 y\<close>]])
    fix z B2
    assume "builder_state.checks B1 [y] (\<lambda>I env. if multi then Some [i_pick I (env y)] else if infallible then Some [env y]
       else if accepts CSome (env y) then Some [some_part (env y)] else None) [z] B2"
    from builder_state.checks_trans [OF one this, of "\<lambda>I env. map_option (\<lambda>v. [v]) (extract_value I t infallible multi (env x))"]
    have two: "builder_state.checks B [x] (\<lambda>I env. map_option (\<lambda>v. [v]) (extract_value I t infallible multi (env x))) [z] B2"
      by (simp add: extract_value_def Let_def)
    then have "builder_ok B2" "blive B2 z" by (auto simp: builder_state.checks_def builder_state.leads_def)
    from split_outputs_checks [OF this]
    show "ends (split_outputs B2 z (length tys)) (\<lambda>(ys, B'). builder_state.checks B [x]
      (\<lambda>I env. map_option (tuple_parts (length tys)) (extract_value I t infallible multi (env x))) ys B')"
      by (rule ends_weaken2) (erule builder_state.checks_trans [OF two], auto)
  qed
qed

interpretation builder_patterns:
  pattern_semantics builder_ok blive bgrows impure_instance bmodels bholds bsure builder_patterns
proof
  fix B :: rs_builder and a b x ty tys t infallible multi i c w input_ty
  assume ok: "builder_ok B"
  show "blive B a \<Longrightarrow> blive B b \<Longrightarrow> ends (v_match_equal builder_patterns a b ty B)
      (builder_state.checks B [a, b] (\<lambda>I env. if env a = env b then Some [] else None) [])"
    using add_match_equal_checks [OF ok] by (simp add: builder_patterns_def)
  show "blive B x \<Longrightarrow> ends (v_match_int builder_patterns x ty i B)
      (builder_state.checks B [x] (\<lambda>I env. if accepts (CConstInt i ty) (env x) then Some [] else None) [])"
    using add_match_const_checks [OF ok, of x "CConstInt i ty"] by (simp add: builder_patterns_def add_match_int_def)
  show "blive B x \<Longrightarrow> ends (v_match_prim builder_patterns x ty c B)
      (builder_state.checks B [x] (\<lambda>I env. if accepts (CConstPrim c) (env x) then Some [] else None) [])"
    using add_match_const_checks [OF ok, of x "CConstPrim c"] by (simp add: builder_patterns_def add_match_prim_def)
  show "blive B x \<Longrightarrow> ends (v_match_variant builder_patterns x ty tys w B)
      (\<lambda>(ys, s'). builder_state.checks B [x] (\<lambda>I env. variant_values ty w (length tys) (env x)) ys s')"
    using add_match_variant_checks [OF ok] by (simp add: builder_patterns_def)
  show "blive B x \<Longrightarrow> ends (v_extract builder_patterns x input_ty tys t infallible multi B)
      (\<lambda>(ys, s'). builder_state.checks B [x]
        (\<lambda>I env. map_option (tuple_parts (length tys)) (extract_value I t infallible multi (env x))) ys s')"
    using add_extract_checks [OF ok] by (simp add: builder_patterns_def)
qed

lemma computes_trans:
  assumes "builder_state.computes B spec x B1" "builder_state.computes B1 spec1 y B2"
    and "\<And>I env. spec I env = Some ((env x, bsure env B1 x), impure_instance B1) \<Longrightarrow> spec2 I env = spec1 I env"
  shows "builder_state.computes B spec2 y B2"
  using assms builder_state.yields_bind unfolding builder_state.computes_def builder_state.flag_def by blast

lemma construct_source_computes:
  assumes "builder_ok B" "blive B x"
  shows "ends (construct_source B x infallible multi) (\<lambda>(y, B'). builder_state.computes B
    (\<lambda>I env. if multi then Some ((i_pick I (env x), bsure env B x), impure_instance B)
       else if infallible then Some ((env x, bsure env B x), impure_instance B)
       else Some ((some_part (env x), accepts CSome (env x) \<and> bsure env B x), impure_instance B)) y B')"
proof -
  have view: "same_view B (note_iterator B x)" by (simp add: same_view_def header_def)
  show ?thesis
  proof (cases multi)
    case True
    have "ends (dedup_binding (note_iterator B x) (BIterator x)) (\<lambda>(y, B').
        builder_state.computes (note_iterator B x) (\<lambda>I env. Some ((i_pick I (env x), bsure env B x), impure_instance B)) y B')"
      using dedup_computes [of "note_iterator B x" "BIterator x"] assms same_view_eq [OF view] by (auto elim: ends_weaken)
    then show ?thesis using True by (simp add: construct_source_def same_view_from [OF view])
  next
    case multi: False
    have "infallible \<Longrightarrow> builder_state.computes B (\<lambda>I env. Some ((env x, bsure env B x), impure_instance B)) x B"
      using assms by (simp add: builder_state.computes_def builder_state.yields_def builder_state.leads_refl builder_state.flag_def)
    moreover have "ends (dedup_binding B (BMatchSome x)) (\<lambda>(y, B').
        builder_state.computes B (\<lambda>I env. Some ((some_part (env x), accepts CSome (env x) \<and> bsure env B x), impure_instance B)) y B')"
      using dedup_computes [of B "BMatchSome x"] assms by (auto elim: ends_weaken)
    ultimately show ?thesis using multi by (simp add: construct_source_def)
  qed
qed

text \<open>One call, after its instance number has been taken.\<close>

lemma add_construct_computes:
  assumes "builder_ok B" "list_all (blive B) (map fst xs)"
  shows "ends (add_construct B xs ty t pure infallible multi) (\<lambda>(y, B'). builder_state.computes B
    (\<lambda>I env. let (v, success) = construct_value I t infallible multi (call_number pure (impure_instance B)) (map env (map fst xs))
       in Some ((v, success \<and> list_all (bsure env B) (map fst xs)), calls_after pure (impure_instance B))) y B')"
proof (cases "pure \<or> impure_instance B + 1 < 2 ^ 32")
  case True
  let ?k = "call_number pure (impure_instance B)"
  let ?B = "B\<lparr>impure_instance := calls_after pure (impure_instance B)\<rparr>"
  let ?b = "BConstructor t (map fst xs) ?k"
  have inst: "next_instance B pure = Some (Ok (?k, ?B))"
    using True by (auto simp: next_instance_def call_number_def calls_after_def)
  have view: "same_view B ?B" by (simp add: same_view_def)
  have ok: "builder_ok ?B" "list_all (blive ?B) (binding_sources ?b)" using assms same_view_eq [OF view] by simp_all
  let ?spec = "\<lambda>I env. let (v, success) = construct_value I t infallible multi ?k (map env (map fst xs))
       in Some ((v, success \<and> list_all (bsure env B) (map fst xs)), calls_after pure (impure_instance B))"
  show ?thesis
    unfolding add_construct_def inst after_Ok prod.case
  proof (rule ends_after2 [OF dedup_computes [OF ok]], elim conjE)
    fix x B1
    assume one: "builder_state.computes ?B
      (\<lambda>I env. Some ((value_of I env ?b, call_ok env ?b \<and> list_all (bsure env ?B) (binding_sources ?b)), impure_instance ?B)) x B1"
      "impure_instance B1 = impure_instance ?B"
    then have "builder_ok B1" "blive B1 x" by (auto simp: builder_state.computes_def builder_state.yields_def builder_state.leads_def)
    show "ends (after (construct_source B1 x infallible multi) (\<lambda>(source, B). Some (Ok (source,
       if pure then B else B\<lparr>current_rule := (current_rule B)\<lparr>impure := impure (current_rule B) @ [source]\<rparr>\<rparr>))))
      (\<lambda>(y, B'). builder_state.computes B ?spec y B')"
    proof (rule ends_after2 [OF construct_source_computes [OF \<open>builder_ok B1\<close> \<open>blive B1 x\<close>]])
      fix y B2
      assume two: "builder_state.computes B1
        (\<lambda>I env. if multi then Some ((i_pick I (env x), bsure env B1 x), impure_instance B1)
           else if infallible then Some ((env x, bsure env B1 x), impure_instance B1)
           else Some ((some_part (env x), accepts CSome (env x) \<and> bsure env B1 x), impure_instance B1)) y B2"
      let ?B2 = "if pure then B2 else B2\<lparr>current_rule := (current_rule B2)\<lparr>impure := impure (current_rule B2) @ [y]\<rparr>\<rparr>"
      have "same_view B2 ?B2" "impure_instance ?B2 = impure_instance B2" by (auto simp: same_view_def header_def)
      moreover have "builder_state.computes ?B ?spec y B2"
        by (rule computes_trans [OF one(1) two])
          (use one(2) in \<open>auto simp: construct_value_def Let_def same_view_eq [OF view]\<close>)
      ultimately show "ends (Some (Ok (y, ?B2))) (\<lambda>(y, B'). builder_state.computes B ?spec y B')"
        by (simp add: same_view_computes same_view_from [OF view])
    qed
  qed
qed (simp add: add_construct_def next_instance_def)

interpretation builder_exprs:
  expr_semantics builder_ok blive bgrows impure_instance bmodels bholds bsure builder_exprs
proof
  fix B :: rs_builder and ty i c w t pure infallible multi and xs :: "(binding_id \<times> type_id) list"
  assume ok: "builder_ok B"
  show "ends (v_const_int builder_exprs ty i B)
      (\<lambda>(y, s'). builder_state.computes B (\<lambda>I env. Some ((VInt i ty, True), impure_instance B)) y s')"
    using dedup_computes [OF ok, of "BConstInt i ty"] by (auto simp: builder_exprs_def add_const_int_def elim: ends_weaken)
  show "ends (v_const_prim builder_exprs ty c B)
      (\<lambda>(y, s'). builder_state.computes B (\<lambda>I env. Some ((VPrim c, True), impure_instance B)) y s')"
    using dedup_computes [OF ok, of "BConstPrim c"] by (auto simp: builder_exprs_def add_const_prim_def elim: ends_weaken)
  assume live: "list_all (blive B) (map fst xs)"
  show "ends (v_create_variant builder_exprs xs ty w B) (\<lambda>(y, s'). builder_state.computes B
      (\<lambda>I env. Some ((VVariant ty w (map env (map fst xs)), list_all (bsure env B) (map fst xs)), impure_instance B)) y s')"
    using dedup_computes [OF ok, of "BMakeVariant ty w (map fst xs)"] live
    by (auto simp: builder_exprs_def add_create_variant_def simp del: map_map elim: ends_weaken)
  show "ends (v_construct builder_exprs xs ty t pure infallible multi B) (\<lambda>(y, s'). builder_state.computes B
      (\<lambda>I env. let (v, success) = construct_value I t infallible multi (call_number pure (impure_instance B)) (map env (map fst xs))
         in Some ((v, success \<and> list_all (bsure env B) (map fst xs)), calls_after pure (impure_instance B))) y s')"
    using add_construct_computes [OF ok live] by (simp add: builder_exprs_def)
qed

section \<open>Calls in if-let clauses\<close>

definition requires :: "rs_builder \<Rightarrow> binding_id list \<Rightarrow> rs_builder \<Rightarrow> bool" where
  "requires B xs B' \<longleftrightarrow> builder_state.leads B B' \<and> impure_instance B' = impure_instance B \<and>
     (\<forall>env. bholds env B' \<longleftrightarrow> bholds env B \<and> list_all (bsure env B) xs)"

lemma require_some_Nil: "require_some B [] = Some (Ok B)"
  by (subst require_some.simps) simp

lemma require_some_Cons:
  "x < length (bindings_of B) \<Longrightarrow> require_some B (x # todo) =
     (case bindings_of B ! x of
        BMatchSome s \<Rightarrow> after (set_constraint B s CSome) (\<lambda>(_, B). require_some B (s # todo))
      | b \<Rightarrow> require_some B (rev (binding_sources b) @ todo))"
  by (subst require_some.simps) (auto simp: after_def split: binding.splits option.splits outcome.splits)

lemma sources_smaller:
  assumes "\<forall>s\<in>set ss. s < x"
  shows "(mset (ss @ todo), mset (x # todo)) \<in> mult {(a, b :: nat). a < b}"
  using assms one_step_implies_mult [of "{#x#}" "mset ss" "{(a, b). a < b}" "mset todo"] by (simp add: union_commute)

lemma small_CSome: "small CSome"
  by (simp add: small_def)

lemma some_constraint:
  assumes "builder_ok B" "blive B s"
  shows "ends (set_constraint B s CSome) (\<lambda>(_, B'). builder_state.leads B B' \<and> impure_instance B' = impure_instance B \<and>
    (\<forall>env. bholds env B' \<longleftrightarrow> bholds env B \<and> accepts CSome (env s)))"
proof (rule ends_weaken2 [OF set_constraint_ends [OF assms(1) assms(2) [unfolded blive_def] small_CSome]], elim conjE)
  fix ys B'
  assume B': "builder_ok B'" "frame B B'" "equals_of B' = equals_of B"
    "\<forall>y. constraint_at B' y = (if y = s \<and> constraint_at B s = None then Some CSome else constraint_at B y)"
    "unreachable B' = unreachable B \<longleftrightarrow> constraint_at B s \<in> {None, Some CSome}"
  then have "bholds env B' \<longleftrightarrow> bholds env B \<and> accepts CSome (env s)" for env
    by (intro constrained_holds) (auto simp: frame_def)
  then show "builder_state.leads B B' \<and> impure_instance B' = impure_instance B \<and>
    (\<forall>env. bholds env B' \<longleftrightarrow> bholds env B \<and> accepts CSome (env s))"
    using B'(1,2) frame_grows [OF B'(2)] by (simp add: builder_state.leads_def frame_def)
qed

lemma require_some_ends:
  "builder_ok B \<Longrightarrow> list_all (blive B) todo \<Longrightarrow> ends (require_some B todo) (requires B todo)"
proof (induction "mset todo" arbitrary: B todo rule: wf_induct_rule [OF wf_mult [OF wf_less], case_names less])
  case less
  show ?case
  proof (cases todo)
    case Nil
    then show ?thesis
      using less.prems by (simp add: require_some_Nil requires_def builder_state.leads_refl)
  next
    case (Cons x rest)
    let ?b = "bindings_of B ! x"
    have x: "x < length (bindings_of B)" "at B x ?b" using less.prems(2) Cons by (auto simp: blive_def at_def)
    have below: "\<forall>s\<in>set (binding_sources ?b). s < x"
      using at_sources [OF _ x(2)] less.prems(1) by (auto simp: builder_ok_def)
    then have live: "list_all (blive B) (binding_sources ?b)" using x(1) by (auto simp: list_all_iff blive_def)
    note IH = less.hyps [OF sources_smaller [of _ x rest, folded Cons]]
    show ?thesis
    proof (cases "\<exists>s. ?b = BMatchSome s")
      case True
      then obtain s where b: "?b = BMatchSome s" by blast
      have s: "blive B s" "list_all (blive B) (s # rest)" using live less.prems(2) Cons by (auto simp: b)
      have "ends (after (set_constraint B s CSome) (\<lambda>(_, B). require_some B (s # rest))) (requires B todo)"
      proof (rule ends_after2 [OF some_constraint [OF less.prems(1) s(1)]], elim conjE)
        fix ys B1
        assume B1: "builder_state.leads B B1" "impure_instance B1 = impure_instance B"
          "\<forall>env. bholds env B1 \<longleftrightarrow> bholds env B \<and> accepts CSome (env s)"
        have "builder_ok B1" by (rule builder_state.leads_inv [OF B1(1)])
        moreover have "list_all (blive B1) (s # rest)" by (rule builder_state.leads_live_all [OF B1(1) s(2)])
        ultimately have "ends (require_some B1 (s # rest)) (requires B1 (s # rest))"
          using IH [of "[s]" B1] below by (simp add: b)
        then show "ends (require_some B1 (s # rest)) (requires B todo)"
          using B1 builder_state.leads_trans [OF B1(1)] builder_state.leads_sure_all [OF less.prems(1) B1(1) s(2)] bsure_at [OF x(2)]
          by (elim ends_weaken) (auto simp: requires_def Cons b)
      qed
      then show ?thesis unfolding Cons require_some_Cons [OF x(1)] by (simp add: b)
    next
      case False
      let ?todo = "rev (binding_sources ?b) @ rest"
      have "require_some B todo = require_some B ?todo"
        unfolding Cons require_some_Cons [OF x(1)] using False by (cases ?b) auto
      moreover have "ends (require_some B ?todo) (requires B ?todo)"
        using IH [of "rev (binding_sources ?b)" B] below live less.prems Cons by simp
      moreover have "list_all (bsure env B) ?todo \<longleftrightarrow> list_all (bsure env B) todo" for env
        using False bsure_at [OF x(2)] unfolding Cons by (cases ?b) auto
      then have "requires B ?todo = requires B todo" unfolding requires_def by (simp only:)
      ultimately show ?thesis by simp
    qed
  qed
qed

interpretation builder_rules:
  rule_semantics builder_ok blive bgrows impure_instance bmodels bholds bsure builder_visitor
proof -
  have parts: "v_patterns builder_visitor = builder_patterns" "v_exprs builder_visitor = builder_exprs"
    by (simp_all add: builder_visitor_def)
  show "rule_semantics builder_ok blive bgrows impure_instance bmodels bholds bsure builder_visitor"
    unfolding rule_semantics_def rule_semantics_axioms_def parts
  proof (intro conjI allI impI builder_patterns.pattern_semantics_axioms builder_exprs.expr_semantics_axioms)
    fix B :: rs_builder and i ty x f and g :: "rs_builder \<Rightarrow> ((type_id \<times> binding_id) \<times> rs_builder) run"
    show "builder_ok B \<Longrightarrow> ends (v_arg builder_visitor i ty B) (\<lambda>(y, s').
        builder_state.computes B (\<lambda>I env. Some ((i_arg I i, True), impure_instance B)) y s' \<and> impure_instance s' = impure_instance B)"
      using dedup_computes [of B "BArgument i"] by (auto simp: builder_visitor_def add_arg_def)
    show "v_pattern builder_visitor f B = f B" "v_pattern_as_expr builder_visitor x B = Some (Ok (x, B))"
      "v_expr builder_visitor g B = after (g B) (\<lambda>((ty, y), s'). Some (Ok (y, s')))"
      by (simp_all add: builder_visitor_def)
    show "builder_ok B \<Longrightarrow> blive B x \<Longrightarrow> ends (v_expr_as_pattern builder_visitor x B) (\<lambda>(y, s'). y = x \<and>
        builder_state.leads B s' \<and> impure_instance s' = impure_instance B \<and>
        (\<forall>I env. bmodels I env s' \<longrightarrow> bholds env s' = (bholds env B \<and> bsure env B x)))"
      using require_some_ends [of B "[x]"]
      by (auto simp: builder_visitor_def expr_as_pattern_def requires_def elim!: ends_after)
  qed
qed

end
