(* ===== verification/Trie_Meaning.thy ===== *)
theory Trie_Meaning
  imports Trie_Visitor
begin

text \<open>
  What \<^verbatim>\<open>add_rule\<close> and \<^verbatim>\<open>build\<close> of \<^verbatim>\<open>isle/src/trie_again.rs\<close> achieve: every rule of a rule set has the
  meaning of the rule it was made from, and a rule dropped as unreachable never matches.
\<close>

section \<open>One rule\<close>

definition idle :: "rs_builder \<Rightarrow> bool" where
  "idle B \<longleftrightarrow> table_ok (rules B) \<and> current_rule B = default_rule \<and> unreachable B = []"

text \<open>A partial term wraps the value of its rules.\<close>

definition term_result :: "term_env \<Rightarrow> sema_rule \<Rightarrow> rvalue \<Rightarrow> rvalue" where
  "term_result te rule v = (if is_partial (env_terms te ! root_term_id rule) then VSome v else v)"

definition compiles :: "term_env \<Rightarrow> binding list \<Rightarrow> sema_rule \<Rightarrow> trie_rule \<Rightarrow> bool" where
  "compiles te bs rule r \<longleftrightarrow> rule_ok r \<and> header r = (sr_id rule, sr_pos rule, sr_prio rule, sr_name rule) \<and>
     (\<forall>I env. denotes I env bs \<longrightarrow>
        (case rule_value I te rule 0 of
           None \<Rightarrow> \<not> matches r env
         | Some v \<Rightarrow> matches r env \<and> env (result r) = term_result te rule v))"

definition never :: "term_env \<Rightarrow> sema_rule \<Rightarrow> bool" where
  "never te rule \<longleftrightarrow> (\<forall>I. rule_value I te rule 0 = None)"

lemma compiles_prefix: "compiles te bs rule r \<Longrightarrow> prefix bs bs' \<Longrightarrow> compiles te bs' rule r"
  using denotes_prefix unfolding compiles_def by blast

lemma begin_rule_ok:
  assumes "idle B"
  shows "builder_ok (begin_rule B rule)" "bholds env (begin_rule B rule)" "impure_instance (begin_rule B rule) = 0"
    "header (current_rule (begin_rule B rule)) = (sr_id rule, sr_pos rule, sr_prio rule, sr_name rule)"
    "rules (begin_rule B rule) = rules B"
  using assms
  by (auto simp: idle_def begin_rule_def builder_ok_def rule_ok_def default_rule_def bholds_def matches_def satisfies_def
      header_def items_def built.default)

lemma normalize_holds:
  assumes "normalizes B B'" "bmodels I env B'"
  shows "bholds env B' \<longleftrightarrow> bholds env B"
proof -
  have "consistent env (bindings_of B')" using assms(2) by (auto simp: bmodels_def intro: denotes_consistent)
  then have "matches (current_rule B) env \<longleftrightarrow> unreachable B' = unreachable B \<and> matches (current_rule B') env"
    "prefix (unreachable B) (unreachable B')" using assms(1) by (auto simp: normalizes_def frame_def)
  then show ?thesis by (auto simp: bholds_def)
qed

lemma wrap_result_ends:
  assumes "builder_ok B" "blive B (result (current_rule B))"
  shows "ends (wrap_result B partial) (\<lambda>B'. builder_state.leads B B' \<and>
    (\<forall>I env. bmodels I env B' \<longrightarrow> bholds env B' = bholds env B \<and>
       env (result (current_rule B')) = (if partial then VSome (env (result (current_rule B))) else env (result (current_rule B)))))"
proof (cases partial)
  case True
  let ?b = "BMakeSome (result (current_rule B))"
  have "ends (after (dedup_binding B ?b) (\<lambda>(r, B). Some (Ok (B\<lparr>current_rule := (current_rule B)\<lparr>result := r\<rparr>\<rparr>))))
    (\<lambda>B'. builder_state.leads B B' \<and> (\<forall>I env. bmodels I env B' \<longrightarrow> bholds env B' = bholds env B \<and>
       env (result (current_rule B')) = VSome (env (result (current_rule B)))))"
  proof (rule ends_after2 [OF dedup_computes [OF assms(1)]], use assms(2) in simp, elim conjE)
    fix r B1
    assume one: "builder_state.computes B
      (\<lambda>I env. Some ((value_of I env ?b, call_ok env ?b \<and> list_all (bsure env B) (binding_sources ?b)), impure_instance B)) r B1"
    have view: "same_view B1 (B1\<lparr>current_rule := (current_rule B1)\<lparr>result := r\<rparr>\<rparr>)" by (simp add: same_view_def header_def)
    show "ends (Some (Ok (B1\<lparr>current_rule := (current_rule B1)\<lparr>result := r\<rparr>\<rparr>)))
      (\<lambda>B'. builder_state.leads B B' \<and> (\<forall>I env. bmodels I env B' \<longrightarrow> bholds env B' = bholds env B \<and>
         env (result (current_rule B')) = VSome (env (result (current_rule B)))))"
      using one by (auto simp: same_view_eq [OF view] builder_state.computes_def builder_state.yields_def builder_state.leads_def
          builder_state.flag_def)
  qed
  then show ?thesis using True by (simp add: wrap_result_def)
next
  case False
  then show ?thesis using assms(1) by (simp add: wrap_result_def builder_state.leads_refl)
qed

definition rule_added :: "term_env \<Rightarrow> sema_rule \<Rightarrow> rs_builder \<Rightarrow> isle_error list \<Rightarrow> rs_builder \<Rightarrow> isle_error list \<Rightarrow> bool" where
  "rule_added te rule B errors B' errors' \<longleftrightarrow> idle B' \<and> prefix (bindings_of B) (bindings_of B') \<and>
     (if errors' = errors
      then (\<exists>r. rs_rules (rules B') = rs_rules (rules B) @ [r] \<and> compiles te (bindings_of B') rule r)
      else rs_rules (rules B') = rs_rules (rules B) \<and> prefix errors errors' \<and> never te rule)"

lemma finish_rule_added:
  assumes "builder_ok B" "prefix (bindings_of A) (bindings_of B)" "rs_rules (rules B) = rs_rules (rules A)"
    and "header (current_rule B) = (sr_id rule, sr_pos rule, sr_prio rule, sr_name rule)"
    and "\<And>I env. bmodels I env B \<Longrightarrow> tracks True (bholds env B) (map_option (term_result te rule) (rule_value I te rule 0)) (env (result (current_rule B)))"
    and "finish_rule B errors = (B', errors')"
  shows "rule_added te rule A errors B' errors'"
proof (cases "unreachable B = []")
  case True
  then have B': "B' = B\<lparr>current_rule := default_rule, rules := (rules B)\<lparr>rs_rules := rs_rules (rules B) @ [current_rule B]\<rparr>\<rparr>" "errors' = errors"
    using assms(6) by (auto simp: finish_rule_def Let_def)
  have "idle B'" using assms(1) True by (simp add: B' idle_def builder_ok_def table_ok_def)
  moreover have "compiles te (bindings_of B) rule (current_rule B)"
    unfolding compiles_def
  proof (intro conjI allI impI)
    fix I env assume "denotes I env (bindings_of B)"
    from assms(5) [of I env] this show "case rule_value I te rule 0 of None \<Rightarrow> \<not> matches (current_rule B) env
        | Some v \<Rightarrow> matches (current_rule B) env \<and> env (result (current_rule B)) = term_result te rule v"
      using True by (auto simp: bmodels_def bholds_def tracks_def split: option.splits)
  qed (use assms(1,4) in \<open>auto simp: builder_ok_def\<close>)
  ultimately show ?thesis using assms(2,3) by (simp add: rule_added_def B')
next
  case False
  then have B': "B' = B\<lparr>current_rule := default_rule, unreachable := []\<rparr>" "errors' \<noteq> errors" "prefix errors errors'"
    using assms(6) by (auto simp: finish_rule_def Let_def)
  have "idle B'" using assms(1) by (simp add: B' idle_def builder_ok_def)
  moreover have "never te rule"
    unfolding never_def
  proof
    fix I
    obtain env where "denotes I env (bindings_of B)"
      using valuation_exists [of "rules B" I] assms(1) by (auto simp: builder_ok_def)
    then have "tracks True (bholds env B) (map_option (term_result te rule) (rule_value I te rule 0)) (env (result (current_rule B)))"
      by (intro assms(5)) (simp add: bmodels_def)
    then show "rule_value I te rule 0 = None" using False by (auto simp: bholds_def tracks_def split: option.splits)
  qed
  ultimately show ?thesis using assms(2,3) B' by (simp add: rule_added_def)
qed

lemma add_rule_tail:
  assumes "idle B" "builder_ok B1" "blive B1 (result (current_rule B1))" "bgrows (begin_rule B rule) B1"
    and track: "\<And>I env. bmodels I env B1 \<Longrightarrow> tracks True (bholds env B1) (rule_value I te rule 0) (env (result (current_rule B1)))"
  shows "ends (after (wrap_result B1 (is_partial (env_terms te ! root_term_id rule)))
      (\<lambda>B. after (normalize_equivalence_classes B) (\<lambda>B. Some (Ok (finish_rule B errors)))))
    (\<lambda>(B', errors'). rule_added te rule B errors B' errors')"
proof (rule ends_after [OF wrap_result_ends [OF assms(2,3)]], elim conjE, rule ends_after [OF normalize_ends], goal_cases)
  case (1 B2)
  then show ?case by (simp add: builder_state.leads_def)
next
  case (2 B2 B3)
  have frame: "builder_ok B3" "frame B2 B3" "bgrows B1 B2" using 2(1,3) by (auto simp: normalizes_def builder_state.leads_def)
  have grows: "bgrows (begin_rule B rule) B3"
    using assms(4) frame_grows [OF frame(2)] frame(3) builder_state.grows_trans by blast
  have res: "result (current_rule B3) = result (current_rule B2)"
    using frame(2) by (cases "current_rule B2"; cases "current_rule B3") (simp add: frame_def)
  have track: "tracks True (bholds env B3) (map_option (term_result te rule) (rule_value I te rule 0)) (env (result (current_rule B3)))"
    if m: "bmodels I env B3" for I env
  proof -
    have m2: "bmodels I env B2" by (rule builder_state.models_grows [OF frame_grows [OF frame(2)] m])
    have m1: "bmodels I env B1" by (rule builder_state.models_grows [OF frame(3) m2])
    have "env (result (current_rule B3)) = term_result te rule (env (result (current_rule B1)))"
      using 2(2) m2 by (simp add: res term_result_def)
    moreover have "bholds env B3 \<longleftrightarrow> bholds env B1" using normalize_holds [OF 2(3) m] 2(2) m2 by simp
    ultimately show ?thesis using tracks_map [OF track [OF m1], of "term_result te rule"] by simp
  qed
  obtain B' errors' where "finish_rule B3 errors = (B', errors')" by force
  with finish_rule_added [OF frame(1) _ _ _ track this, of B] grows begin_rule_ok(4,5) [OF assms(1)]
  show ?case by (simp add: bgrows_def)
qed

lemma add_rule_ends:
  assumes "idle B"
  shows "ends (add_rule te B rule errors) (\<lambda>(B', errors'). rule_added te rule B errors B' errors')"
  unfolding add_rule_def
proof (rule ends_after2 [OF builder_rules.rule_visit_tracks [OF begin_rule_ok(1) [OF assms]]], elim conjE)
  fix r and B1 :: rs_builder
  let ?B1 = "B1\<lparr>current_rule := (current_rule B1)\<lparr>result := r\<rparr>\<rparr>"
  assume one: "builder_state.leads (begin_rule B rule) B1" "blive B1 r"
    "\<forall>I env. bmodels I env B1 \<longrightarrow> tracks (bholds env (begin_rule B rule)) (bholds env B1)
       (rule_value I te rule (impure_instance (begin_rule B rule))) (env r)"
  have view: "same_view B1 ?B1" by (simp add: same_view_def header_def)
  have "builder_ok ?B1" "blive ?B1 (result (current_rule ?B1))" "bgrows (begin_rule B rule) ?B1"
    using one(1,2) by (simp_all add: same_view_eq [OF view] builder_state.leads_def)
  moreover have "tracks True (bholds env ?B1) (rule_value I te rule 0) (env (result (current_rule ?B1)))"
    if "bmodels I env ?B1" for I env
    using that one(3) begin_rule_ok(2,3) [OF assms] by (simp add: same_view_eq [OF view])
  ultimately have "ends (after (wrap_result ?B1 (is_partial (env_terms te ! root_term_id rule)))
      (\<lambda>B. after (normalize_equivalence_classes B) (\<lambda>B. Some (Ok (finish_rule B errors)))))
    (\<lambda>(B', errors'). rule_added te rule B errors B' errors')" by (rule add_rule_tail [OF assms])
  then show "ends (let B = ?B1 in after (get_term te (root_term_id rule)) (\<lambda>termdata. after (wrap_result B (is_partial termdata))
       (\<lambda>B. after (normalize_equivalence_classes B) (\<lambda>B. Some (Ok (finish_rule B errors))))))
     (\<lambda>(B', errors'). rule_added te rule B errors B' errors')"
    by (simp add: get_term_def Let_def)
qed

section \<open>All rules\<close>

definition rules_of :: "sema_rule list \<Rightarrow> term_id \<Rightarrow> sema_rule list" where
  "rules_of rs t = filter (\<lambda>rule. root_term_id rule = t) rs"

text \<open>The rules of a rule set come from the rules of its term, in order; those left out never match.\<close>

definition made_from :: "term_env \<Rightarrow> sema_rule list \<Rightarrow> bool \<Rightarrow> rule_set \<Rightarrow> bool" where
  "made_from te rs all R \<longleftrightarrow> table_ok R \<and>
     (\<exists>kept. subseq kept rs \<and> list_all2 (compiles te (rs_bindings R)) kept (rs_rules R) \<and>
        (all \<longrightarrow> kept = rs) \<and> (\<forall>rule\<in>set rs. rule \<in> set kept \<or> never te rule))"

lemma made_from_added:
  assumes "made_from te rs (errors = []) (rules B)" "rule_added te rule B errors B' errors'"
  shows "made_from te (rs @ [rule]) (errors' = []) (rules B')"
proof -
  obtain kept where kept: "subseq kept rs" "list_all2 (compiles te (bindings_of B)) kept (rs_rules (rules B))"
    "errors = [] \<longrightarrow> kept = rs" "\<forall>rule\<in>set rs. rule \<in> set kept \<or> never te rule" using assms(1) by (auto simp: made_from_def)
  have B': "idle B'" "prefix (bindings_of B) (bindings_of B')" using assms(2) by (auto simp: rule_added_def)
  have old: "list_all2 (compiles te (bindings_of B')) kept (rs_rules (rules B))"
    using kept(2) by (rule list_all2_mono) (rule compiles_prefix [OF _ B'(2)])
  show ?thesis
  proof (cases "errors' = errors")
    case True
    then obtain r where "rs_rules (rules B') = rs_rules (rules B) @ [r]" "compiles te (bindings_of B') rule r"
      using assms(2) by (auto simp: rule_added_def)
    then have "list_all2 (compiles te (bindings_of B')) (kept @ [rule]) (rs_rules (rules B'))" using old by (simp add: list_all2_appendI)
    moreover have "subseq (kept @ [rule]) (rs @ [rule])" using kept(1) by simp
    ultimately show ?thesis
      using kept(3,4) True B'(1) unfolding made_from_def by (intro conjI exI [of _ "kept @ [rule]"]) (auto simp: idle_def)
  next
    case False
    then have "rs_rules (rules B') = rs_rules (rules B)" "errors' \<noteq> []" "never te rule" using assms(2) by (auto simp: rule_added_def)
    moreover have "subseq kept (rs @ [rule])" using kept(1) by (rule list_emb_prefix)
    ultimately show ?thesis
      using kept(4) old B'(1) unfolding made_from_def by (intro conjI exI [of _ kept]) (auto simp: idle_def)
  qed
qed

lemma made_from_weaken: "made_from te rs a R \<Longrightarrow> (b \<Longrightarrow> a) \<Longrightarrow> made_from te rs b R"
  unfolding made_from_def by blast

definition entry_ok :: "term_env \<Rightarrow> sema_rule list \<Rightarrow> bool \<Rightarrow> rs_builder option \<Rightarrow> bool" where
  "entry_ok te rs all e \<longleftrightarrow> (case e of None \<Rightarrow> rs = [] | Some B \<Rightarrow> idle B \<and> made_from te rs all (rules B))"

lemma entry_ok_weaken: "entry_ok te rs a e \<Longrightarrow> (b \<Longrightarrow> a) \<Longrightarrow> entry_ok te rs b e"
  using made_from_weaken by (auto simp: entry_ok_def split: option.splits)

definition built_from :: "term_env \<Rightarrow> sema_rule list \<Rightarrow> (term_id, rs_builder) hashmap \<Rightarrow> isle_error list \<Rightarrow> bool" where
  "built_from te rs m errors \<longleftrightarrow> hm_ok m \<and> (\<forall>t. entry_ok te (rules_of rs t) (errors = []) (hm_get m t))"

lemma default_builder_idle: "idle default_builder" "made_from te [] all (rules default_builder)"
  by (auto simp: idle_def default_builder_def table_ok_def made_from_def)

lemma built_from_added:
  assumes "built_from te rs m errors"
    and "B = (case hm_get m (root_term_id rule) of None \<Rightarrow> default_builder | Some B \<Rightarrow> B)"
    and "rule_added te rule B errors B' errors'"
  shows "built_from te (rs @ [rule]) (hm_insert (root_term_id rule) B' m) errors'"
proof -
  let ?t = "root_term_id rule"
  have "entry_ok te (rules_of rs ?t) (errors = []) (hm_get m ?t)" using assms(1) by (simp add: built_from_def)
  then have "made_from te (rules_of rs ?t) (errors = []) (rules B)"
    using default_builder_idle(2) unfolding assms(2) entry_ok_def by (auto split: option.splits)
  from made_from_added [OF this assms(3)]
  have new: "made_from te (rules_of (rs @ [rule]) ?t) (errors' = []) (rules B')" "idle B'"
    using assms(3) by (auto simp: rules_of_def rule_added_def)
  have fewer: "errors' = [] \<Longrightarrow> errors = []" using assms(3) by (auto simp: rule_added_def split: if_splits)
  have "entry_ok te (rules_of rs t) (errors = []) (hm_get m t)" for t using assms(1) by (simp add: built_from_def)
  then have old: "entry_ok te (rules_of rs t) (errors' = []) (hm_get m t)" for t by (rule entry_ok_weaken) (rule fewer)
  have "entry_ok te (rules_of (rs @ [rule]) t) (errors' = []) (hm_get (hm_insert ?t B' m) t)" for t
    using new old [of t] by (cases "t = ?t") (simp_all add: entry_ok_def rules_of_def)
  then show ?thesis using assms(1) by (simp add: built_from_def)
qed

lemma add_rules_ends:
  "built_from te done m errors \<Longrightarrow>
     ends (add_rules te rs m errors) (\<lambda>(m', errors'). built_from te (done @ rs) m' errors')"
proof (induction rs arbitrary: "done" m errors)
  case (Cons rule rs)
  let ?B = "case hm_get m (root_term_id rule) of None \<Rightarrow> default_builder | Some B \<Rightarrow> B"
  have "entry_ok te (rules_of done (root_term_id rule)) (errors = []) (hm_get m (root_term_id rule))"
    using Cons.prems by (simp add: built_from_def)
  then have "idle ?B" using default_builder_idle(1) by (auto simp: entry_ok_def split: option.splits)
  show ?case
    unfolding add_rules.simps Let_def
  proof (rule ends_after2 [OF add_rule_ends [OF \<open>idle ?B\<close>]])
    fix B' errors' assume "rule_added te rule ?B errors B' errors'"
    from Cons.IH [OF built_from_added [OF Cons.prems refl this]]
    show "ends (add_rules te rs (hm_insert (root_term_id rule) B' m) errors')
      (\<lambda>(m', errors'). built_from te (done @ rule # rs) m' errors')" by simp
  qed
qed simp

lemma build_ends:
  "ends (build te) (\<lambda>(sets, errors). sorted (map fst sets) \<and> distinct (map fst sets) \<and>
     (\<forall>t R. (t, R) \<in> set sets \<longrightarrow> made_from te (rules_of (env_rules te) t) (errors = []) R) \<and>
     (\<forall>rule\<in>set (env_rules te). root_term_id rule \<in> fst ` set sets))"
  unfolding build_def
proof (rule ends_after2 [OF add_rules_ends [of te "[]" "[]" "[]" "env_rules te"]])
  show "built_from te [] [] []" by (simp add: built_from_def rules_of_def entry_ok_def)
  fix m errors assume "built_from te ([] @ env_rules te) m errors"
  then have ok: "hm_ok m" "entry_ok te (rules_of (env_rules te) t) (errors = []) (hm_get m t)" for t
    by (simp_all add: built_from_def)
  have m: "hm_get m t = Some B \<Longrightarrow> made_from te (rules_of (env_rules te) t) (errors = []) (rules B)"
    "hm_get m t = None \<Longrightarrow> rules_of (env_rules te) t = []" for t B
    using ok(2) [of t] by (simp_all add: entry_ok_def)
  let ?l = "map (\<lambda>(t, B). (t, rules B)) m"
  have "map fst ?l = map fst m" by (simp add: case_prod_unfold)
  then have "distinct (map fst ?l)" using ok(1) unfolding hm_ok_def by (simp only:)
  then have "distinct (map fst (sort_key fst ?l))" by (simp only: distinct_map distinct_sort set_sort)
  moreover have "made_from te (rules_of (env_rules te) t) (errors = []) R" if "(t, R) \<in> set ?l" for t R
    using that m(1) hm_mem_get [OF ok(1)] by auto
  moreover have "root_term_id rule \<in> fst ` set ?l" if "rule \<in> set (env_rules te)" for rule
  proof -
    have "rule \<in> set (rules_of (env_rules te) (root_term_id rule))" using that by (simp add: rules_of_def)
    then obtain B where "hm_get m (root_term_id rule) = Some B" using m(2) [of "root_term_id rule"] by fastforce
    then have "(root_term_id rule, B) \<in> set m" by (rule map_of_SomeD)
    then show ?thesis by force
  qed
  ultimately show "ends (Some (Ok (sort_key fst ?l, errors))) (\<lambda>(sets, errors). sorted (map fst sets) \<and> distinct (map fst sets) \<and>
     (\<forall>t R. (t, R) \<in> set sets \<longrightarrow> made_from te (rules_of (env_rules te) t) (errors = []) R) \<and>
     (\<forall>rule\<in>set (env_rules te). root_term_id rule \<in> fst ` set sets))" by simp
qed

section \<open>What build promises\<close>


lemma build_made_from:
  assumes "build te = Some (Ok (sets, errors))" "(t, R) \<in> set sets"
  shows "made_from te (rules_of (env_rules te) t) (errors = []) R"
  using ends_OkD [OF build_ends assms(1)] assms(2) by auto

lemma made_from_all:
  assumes "made_from te rs True R"
  shows "length (rs_rules R) = length rs" "i < length rs \<Longrightarrow> compiles te (rs_bindings R) (rs ! i) (rs_rules R ! i)"
  using assms by (auto simp: made_from_def list_all2_conv_all_nth)

lemma made_from_mem:
  assumes "made_from te rs all R" "r \<in> set (rs_rules R)"
  shows "\<exists>rule\<in>set rs. compiles te (rs_bindings R) rule r"
proof -
  obtain kept where kept: "subseq kept rs" "list_all2 (compiles te (rs_bindings R)) kept (rs_rules R)"
    using assms(1) by (auto simp: made_from_def)
  obtain i where "i < length (rs_rules R)" "r = rs_rules R ! i" using assms(2) by (auto simp: in_set_conv_nth)
  then have "kept ! i \<in> set kept" "compiles te (rs_bindings R) (kept ! i) r"
    using kept(2) by (auto simp: list_all2_conv_all_nth)
  then show ?thesis using list_emb_set [OF kept(1)] by metis
qed

lemma made_from_kept:
  assumes "made_from te rs all R" "rule \<in> set rs"
  shows "never te rule \<or> (\<exists>r\<in>set (rs_rules R). compiles te (rs_bindings R) rule r)"
proof -
  obtain kept where kept: "list_all2 (compiles te (rs_bindings R)) kept (rs_rules R)" "rule \<in> set kept \<or> never te rule"
    using assms by (auto simp: made_from_def)
  have "\<exists>r\<in>set (rs_rules R). compiles te (rs_bindings R) rule r" if in_kept: "rule \<in> set kept"
  proof -
    from in_kept obtain i where "i < length kept" "rule = kept ! i" by (auto simp: in_set_conv_nth)
    then have "rs_rules R ! i \<in> set (rs_rules R)" "compiles te (rs_bindings R) rule (rs_rules R ! i)"
      using kept(1) by (auto simp: list_all2_conv_all_nth)
    then show ?thesis by blast
  qed
  then show ?thesis using kept(2) by blast
qed

text \<open>Whether a compiled rule matches is a question about the rule it was made from.\<close>

lemma compiles_matches: "compiles te bs rule r \<Longrightarrow> denotes I env bs \<Longrightarrow> matches r env \<longleftrightarrow> rule_value I te rule 0 \<noteq> None"
  by (auto simp: compiles_def split: option.splits)

lemma compiles_result:
  "compiles te bs rule r \<Longrightarrow> denotes I env bs \<Longrightarrow> rule_value I te rule 0 = Some v \<Longrightarrow>
     matches r env \<and> env (result r) = term_result te rule v"
  unfolding compiles_def by (elim conjE allE [of _ I] allE [of _ env]) simp

definition example_term :: sema_term where
  "example_term = \<lparr>term_id = 0, decl_pos = pos_new 0 0, term_name = 0, arg_tys = [5, 5], ret_ty = 5,
     term_kind = Decl \<lparr>is_pure = True, is_multi = False, partial_flag = False\<rparr> (Some InternalConstructor) None\<rparr>"

definition example_rule :: "nat \<Rightarrow> int \<Rightarrow> sema_pattern list \<Rightarrow> sema_expr \<Rightarrow> sema_rule" where
  "example_rule i pri ps e = \<lparr>sr_id = i, root_term_id = 0, sr_args = ps, sr_iflets = [], sr_rhs = e, sr_vars = [], sr_prio = pri,
     sr_name = None, sr_pos = pos_new 0 i\<rparr>"

definition example_env :: "sema_rule list \<Rightarrow> term_env" where
  "example_env rs = \<lparr>env_terms = [example_term], term_map = [], env_rules = rs, rule_map = [], converters = [],
     expand_internal_extractors = False\<rparr>"

lemmas build_evaluate = build_def example_env_def example_rule_def example_term_def add_rule_def rule_visit_def get_term_def
  begin_rule_def default_builder_def default_rule_def builder_visitor_def builder_patterns_def builder_exprs_def
  add_match_equal_def add_match_int_def add_arg_def visit_in_rule_def add_const_int_def wrap_result_def finish_rule_def is_partial_def Let_def
  normalize_evaluate set_constraint_def after_def

abbreviation example_rules :: "sema_rule list" where
  "example_rules \<equiv> [example_rule 2 7 [PConstInt 5 2, PBindPattern 5 4 (PWildcard 5)] (XVar 5 4),
     example_rule 3 7 [PAnd 5 [PConstInt 5 2, PConstInt 5 3], PWildcard 5] (XConstInt 5 8)]"

lemma example_build:
  "build (example_env example_rules) =
     Some (Ok ([(0, \<lparr>rs_rules = [\<lparr>rule_id = 2, rule_pos = pos_new 0 2, constraints = [(0, CConstInt 2 5)], equals = [],
          iterators = {}, prio = 7, rule_name = None, impure = [], result = 1\<rparr>],
        rs_bindings = [BArgument 0, BArgument 1, BConstInt 8 5],
        rs_map = [(BArgument 0, 0), (BArgument 1, 1), (BConstInt 8 5, 2)]\<rparr>)],
      [UnreachableError (CConstInt 2 5) (CConstInt 3 5) (span_single (pos_new 0 3))]))"
  by (simp add: build_evaluate)

abbreviation example_interp :: interp where
  "example_interp \<equiv> \<lparr>i_arg = (\<lambda>i. VInt (if i = 0 then 2 else 9) 5), i_extract = (\<lambda>_ _. VNone),
     i_construct = (\<lambda>_ _ _. VNone), i_pick = (\<lambda>_. VNone)\<rparr>"

lemmas value_evaluate = rule_value_def example_env_def example_rule_def example_term_def trusted_def

text \<open>
  C2. A rule set means what its rules mean. When build reports no error, the i-th rule of a term's
  rule set, under any valuation that gives the bindings the values they stand for, matches exactly
  when the i-th rule written for the term does, and its result is then the value of that rule's
  right-hand side, wrapped if the term is partial.
\<close>

theorem build_preserves_meaning:
  assumes "build te = Some (Ok (sets, []))" "(t, R) \<in> set sets" "denotes I env (rs_bindings R)"
    and "i < length (rules_of (env_rules te) t)"
  shows "case rule_value I te (rules_of (env_rules te) t ! i) 0 of
      None \<Rightarrow> \<not> matches (rs_rules R ! i) env
    | Some v \<Rightarrow> matches (rs_rules R ! i) env \<and> env (result (rs_rules R ! i)) = term_result te (rules_of (env_rules te) t ! i) v"
proof -
  have "made_from te (rules_of (env_rules te) t) True R" using build_made_from [OF assms(1,2)] by simp
  from made_from_all(2) [OF this assms(4)] show ?thesis using assms(3) by (simp add: compiles_def)
qed

theorem build_preserves_meaning_witness:
  "matches \<lparr>rule_id = 2, rule_pos = pos_new 0 2, constraints = [(0, CConstInt 2 5)], equals = [],
     iterators = {}, prio = 7, rule_name = None, impure = [], result = 1\<rparr> (\<lambda>i. VInt (if i = 0 then 2 else 9) 5)"
proof -
  let ?te = "example_env [hd example_rules]"
  have b: "build ?te = Some (Ok ([(0, \<lparr>rs_rules = [\<lparr>rule_id = 2, rule_pos = pos_new 0 2,
          constraints = [(0, CConstInt 2 5)], equals = [], iterators = {}, prio = 7, rule_name = None, impure = [], result = 1\<rparr>],
        rs_bindings = [BArgument 0, BArgument 1], rs_map = [(BArgument 0, 0), (BArgument 1, 1)]\<rparr>)], []))"
    by (simp add: build_evaluate)
  have v: "rule_value example_interp ?te (hd example_rules) 0 = Some (VInt 9 5)" by (simp add: value_evaluate)
  have r: "rules_of (env_rules ?te) 0 = [hd example_rules]" by (simp add: rules_of_def example_env_def example_rule_def)
  show ?thesis
    using build_preserves_meaning [OF b list.set_intros(1), of example_interp "\<lambda>i. VInt (if i = 0 then 2 else 9) 5" 0]
    unfolding r using v by (simp add: denotes_def less_Suc_eq)
qed

text \<open>
  C26. No rule that could ever be chosen is dropped. Whatever errors build reports, a rule of a term
  that has a value on some arguments is matched on them by a rule of the term's rule set with the
  same priority and position, and with that value as its result; so the rules reported as
  unreachable are those that never match.
\<close>

theorem build_keeps_reachable_rules:
  assumes "build te = Some (Ok (sets, errors))" "(t, R) \<in> set sets" "denotes I env (rs_bindings R)"
    and "rule \<in> set (env_rules te)" "root_term_id rule = t" "rule_value I te rule 0 = Some v"
  shows "\<exists>r\<in>set (rs_rules R). rule_pos r = sr_pos rule \<and> prio r = sr_prio rule \<and> matches r env \<and>
    env (result r) = term_result te rule v"
proof -
  have "rule \<in> set (rules_of (env_rules te) t)" using assms(4,5) by (simp add: rules_of_def)
  moreover have "\<not> never te rule" using assms(6) by (auto simp: never_def)
  ultimately obtain r where "r \<in> set (rs_rules R)" "compiles te (rs_bindings R) rule r"
    using made_from_kept [OF build_made_from [OF assms(1,2)]] by blast
  moreover from this have "matches r env \<and> env (result r) = term_result te rule v" using compiles_result assms(3,6) by blast
  ultimately show ?thesis by (intro bexI [of _ r]) (auto simp: compiles_def header_def)
qed

theorem build_keeps_reachable_rules_witness:
  "\<exists>sets errors R r. build (example_env example_rules) = Some (Ok (sets, errors)) \<and> errors \<noteq> [] \<and> (0, R) \<in> set sets \<and>
     r \<in> set (rs_rules R) \<and> matches r (\<lambda>i. VInt (if i = 0 then 2 else if i = 1 then 9 else 8) 5)"
proof -
  let ?env = "\<lambda>i::nat. VInt (if i = 0 then 2 else if i = 1 then 9 else 8) 5"
  obtain sets errors R where b: "build (example_env example_rules) = Some (Ok (sets, errors))" "errors \<noteq> []"
      "(0, R) \<in> set sets" "rs_bindings R = [BArgument 0, BArgument 1, BConstInt 8 5]"
    using example_build by auto
  have "denotes example_interp ?env (rs_bindings R)" by (auto simp: b denotes_def less_Suc_eq)
  moreover have "hd example_rules \<in> set (env_rules (example_env example_rules))" "root_term_id (hd example_rules) = 0"
    by (simp_all add: example_env_def example_rule_def)
  moreover have "rule_value example_interp (example_env example_rules) (hd example_rules) 0 = Some (VInt 9 5)"
    by (simp add: value_evaluate)
  ultimately show ?thesis
    using build_keeps_reachable_rules [OF b(1,3), of example_interp ?env "hd example_rules" "VInt 9 5"] b by blast
qed

text \<open>
  A rule with the pattern \<^verbatim>\<open>(and x (V x))\<close>: the argument must equal the field of itself. The term has
  one argument of the type, and \<open>V\<close> is a variant of the type with one field, of the same type.
\<close>

definition cyclic_env :: "type_id \<Rightarrow> variant_id \<Rightarrow> var_id \<Rightarrow> int \<Rightarrow> term_env" where
  "cyclic_env ty v x pri = \<lparr>env_terms =
     [\<lparr>term_id = 0, decl_pos = pos_new 0 0, term_name = 0, arg_tys = [ty], ret_ty = ty,
        term_kind = Decl \<lparr>is_pure = True, is_multi = False, partial_flag = False\<rparr> (Some InternalConstructor) None\<rparr>,
      \<lparr>term_id = 1, decl_pos = pos_new 0 0, term_name = 1, arg_tys = [ty], ret_ty = ty, term_kind = EnumVariant v\<rparr>],
     term_map = [],
     env_rules = [example_rule 0 pri [PAnd ty [PBindPattern ty x (PWildcard ty), PTerm ty 1 [PVar ty x]]] (XVar ty x)],
     rule_map = [], converters = [], expand_internal_extractors = False\<rparr>"

definition cyclic_rule :: "type_id \<Rightarrow> variant_id \<Rightarrow> int \<Rightarrow> trie_rule" where
  "cyclic_rule ty v pri = \<lparr>rule_id = 0, rule_pos = pos_new 0 0,
     constraints = [(0, CVariant ty v 1), (1, CVariant ty v 1)], equals = [(1, (1, 1)), (2, (1, 0))],
     iterators = {}, prio = pri, rule_name = None, impure = [], result = 0\<rparr>"

lemma cyclic_build:
  "\<exists>R. build (cyclic_env ty v x pri) = Some (Ok ([(0, R)], [])) \<and> rs_rules R = [cyclic_rule ty v pri] \<and>
     rs_bindings R = [BArgument 0, BMatchVariant 0 v 0, BMatchVariant 1 v 0]"
  by (simp add: cyclic_env_def cyclic_rule_def add_match_variant_def match_term_def build_evaluate numeral_2_eq_2)

lemma cyclic_same: "same (equals (cyclic_rule ty v pri)) 1 2"
proof -
  let ?m = "[(1::nat, (1::nat, 1::nat)), (2, (1, 0))]"
  have one: "path ?m 0 1 1" by (rule path.here [where k = 1]) simp
  then have "path ?m (Suc 0) 2 1" by (intro path.up [where p = 1 and k = 0]) simp_all
  with one have "root ?m 1 1" "root ?m 2 1" unfolding root_def by (metis, metis)
  then show ?thesis unfolding same_def cyclic_rule_def trie_rule.simps by blast
qed

lemma no_cyclic_value:
  assumes "consistent env bs" "j < length bs" "bs ! j = BMatchVariant i v 0" "accepts (CVariant ty v 1) (env i)"
  shows "env i \<noteq> env j"
proof -
  obtain a where a: "env i = VVariant ty v [a]"
    using assms(4) by (cases "env i") (auto simp: length_Suc_conv)
  have "part_of env j (BMatchVariant i v 0)" using assms(1-3) by (metis consistent_def)
  then have "env j \<in> set (parts (env i))" using a by simp
  then show ?thesis using parts_smaller by fastforce
qed

text \<open>
  C25. The separation of constraints from equalities is not unconditional. A rule with the pattern
  (and x (V x)), for any type, variant V with one field of that type, variable and priority, is
  built without any error, and the rule set it gives keeps a binding i that has a constraint and
  must equal another binding j, the field of i. No consistent valuation matches the rule, and that
  is not reported either.
\<close>

theorem cyclic_rule_not_separated:
  "\<exists>R r i j. build (cyclic_env ty v x pri) = Some (Ok ([(0, R)], [])) \<and> rs_rules R = [r] \<and>
     j < length (rs_bindings R) \<and> rs_bindings R ! j = BMatchVariant i v 0 \<and>
     i \<noteq> j \<and> same (equals r) i j \<and> get_constraint r i = Some (CVariant ty v 1) \<and>
     (\<nexists>env. consistent env (rs_bindings R) \<and> matches r env)"
proof -
  obtain R where R: "build (cyclic_env ty v x pri) = Some (Ok ([(0, R)], []))" "rs_rules R = [cyclic_rule ty v pri]"
      "rs_bindings R = [BArgument 0, BMatchVariant 0 v 0, BMatchVariant 1 v 0]"
    using cyclic_build by blast
  let ?r = "cyclic_rule ty v pri"
  have c: "get_constraint ?r 1 = Some (CVariant ty v 1)" by (simp add: cyclic_rule_def get_constraint_def)
  have field: "2 < length (rs_bindings R)" "rs_bindings R ! 2 = BMatchVariant 1 v 0" by (simp_all add: R(3))
  have "\<nexists>env. consistent env (rs_bindings R) \<and> matches ?r env"
  proof
    assume "\<exists>env. consistent env (rs_bindings R) \<and> matches ?r env"
    then obtain env where env: "consistent env (rs_bindings R)" "matches ?r env" by blast
    then have "accepts (CVariant ty v 1) (env 1)"
      using satisfiesD c by (fastforce simp: matches_def get_constraint_def)
    moreover have "env 1 = env 2"
      using env(2) cyclic_same [of ty v pri] unfolding matches_def agrees_def by blast
    ultimately show False using no_cyclic_value [OF env(1) field] by simp
  qed
  then show ?thesis using R(1,2) c field cyclic_same [of ty v pri]
    by (intro exI [of _ R] exI [of _ ?r] exI [of _ 1] exI [of _ 2]) simp
qed

end
