(* ===== verification/Isle_Overlap.thy ===== *)
theory Isle_Overlap
  imports Trie_Meaning "HOL-Library.Product_Lexorder"
begin

text \<open>
  The overlap check of \<^verbatim>\<open>isle/src/overlap.rs\<close>: pairs of rules that may both match with equal
  priority, rules that are shadowed by a rule of higher priority, and the report of both. A
  program that passes the check never has two rules of one priority to choose from.
\<close>

section \<open>Positions are ordered\<close>

instantiation pos_ext :: (linorder) linorder
begin

definition less_eq_pos_ext :: "('a :: linorder) pos_scheme \<Rightarrow> 'a pos_scheme \<Rightarrow> bool" where
  "p \<le> q \<longleftrightarrow> (pos_file p, pos_offset p, pos.more p) \<le> (pos_file q, pos_offset q, pos.more q)"

definition less_pos_ext :: "('a :: linorder) pos_scheme \<Rightarrow> 'a pos_scheme \<Rightarrow> bool" where
  "p < q \<longleftrightarrow> (pos_file p, pos_offset p, pos.more p) < (pos_file q, pos_offset q, pos.more q)"

instance
  by intro_classes (auto simp: less_eq_pos_ext_def less_pos_ext_def)

end

section \<open>Errors\<close>

text \<open>A \<^verbatim>\<open>HashSet\<close> of positions is a list without repetitions, in the order it is iterated in.\<close>

record overlap_errors =
  nodes :: "(pos, pos list) hashmap"
  shadowed :: "(pos, pos list) hashmap"

definition get_or_default :: "(pos, pos list) hashmap \<Rightarrow> pos \<Rightarrow> pos list" where
  "get_or_default m p = (case hm_get m p of None \<Rightarrow> [] | Some ps \<Rightarrow> ps)"

definition add_edge :: "pos \<Rightarrow> pos \<Rightarrow> (pos, pos list) hashmap \<Rightarrow> (pos, pos list) hashmap" where
  "add_edge p q m = hm_insert p (List.insert q (get_or_default m p)) m"

definition add_shadow :: "pos \<Rightarrow> pos \<Rightarrow> (pos, pos list) hashmap \<Rightarrow> (pos, pos list) hashmap" where
  "add_shadow p q m = hm_insert p (get_or_default m p @ [q]) m"

definition check_pair :: "overlap_errors \<Rightarrow> trie_rule \<Rightarrow> trie_rule \<Rightarrow> overlap_errors" where
  "check_pair E a b =
     (case may_overlap a b of
        No \<Rightarrow> E
      | Yes sub \<Rightarrow>
          if prio a = prio b
          then E\<lparr>nodes := add_edge (rule_pos b) (rule_pos a) (add_edge (rule_pos a) (rule_pos b) (nodes E))\<rparr>
          else if sub
          then (let (lo, hi) = (if prio a < prio b then (a, b) else (b, a)) in
                if total_constraints hi \<le> total_constraints lo
                then E\<lparr>shadowed := add_shadow (rule_pos hi) (rule_pos lo) (shadowed E)\<rparr>
                else E)
          else E)"

text \<open>The cursor over the rules of a set: every rule is compared with those after it.\<close>

fun check_rules :: "overlap_errors \<Rightarrow> trie_rule list \<Rightarrow> overlap_errors" where
  "check_rules E [] = E"
| "check_rules E (left # rest) = check_rules (foldl (\<lambda>E right. check_pair E left right) E rest) rest"

definition is_multi_ctor :: "sema_term \<Rightarrow> bool" where
  "is_multi_ctor t \<longleftrightarrow> (case term_kind t of Decl flags _ _ \<Rightarrow> is_multi flags | _ \<Rightarrow> False)"

fun check_sets :: "overlap_errors \<Rightarrow> (term_id \<times> rule_set) list \<Rightarrow> term_env \<Rightarrow> overlap_errors run" where
  "check_sets E [] te = Some (Ok E)"
| "check_sets E ((t, R) # sets) te =
     after (get_term te t) (\<lambda>td.
       check_sets (if is_multi_ctor td then E else check_rules E (rs_rules R)) sets te)"

definition check_overlaps :: "(term_id \<times> rule_set) list \<Rightarrow> term_env \<Rightarrow> overlap_errors run" where
  "check_overlaps sets te = check_sets \<lparr>nodes = [], shadowed = []\<rparr> sets te"

section \<open>The report\<close>

definition node_key :: "pos \<times> pos list \<Rightarrow> nat \<times> pos" where
  "node_key n = (length (snd n), fst n)"

text \<open>\<^verbatim>\<open>Iterator::max_by_key\<close> keeps the last of several maxima.\<close>

fun max_node :: "(pos \<times> pos list) list \<Rightarrow> (pos \<times> pos list) option" where
  "max_node [] = None"
| "max_node (n # ns) =
     (case max_node ns of None \<Rightarrow> Some n | Some m \<Rightarrow> if node_key m < node_key n then Some n else Some m)"

definition drop_back_edge :: "pos \<Rightarrow> (pos, pos list) hashmap \<Rightarrow> pos \<Rightarrow> (pos, pos list) hashmap" where
  "drop_back_edge p m q =
     (case hm_get m q of
        None \<Rightarrow> m
      | Some back_edges \<Rightarrow>
          let back_edges = remove1 p back_edges in
          if back_edges = [] then hm_remove q m else hm_insert q back_edges m)"

lemma drop_back_edge_length: "length (drop_back_edge p m q) \<le> length m"
proof -
  have "hm_get m q = Some es \<Longrightarrow> length (hm_insert q es' m) = length m" for es es'
    by (induction m) (auto split: if_splits)
  then show ?thesis by (auto simp: drop_back_edge_def Let_def length_delete_le split: option.splits)
qed

lemma drop_back_edges_length: "length (foldl (drop_back_edge p) m qs) \<le> length m"
  by (induction qs arbitrary: m) (auto intro: order_trans drop_back_edge_length)

lemma max_node_mem: "max_node ns = Some n \<Longrightarrow> n \<in> set ns"
  by (induction ns arbitrary: n) (auto split: option.splits if_splits)

function report_nodes :: "(pos, pos list) hashmap \<Rightarrow> isle_error list" where
  "report_nodes m =
     (case max_node m of
        None \<Rightarrow> []
      | Some (p, node) \<Rightarrow>
          OverlapError (span_single p # map span_single node) # report_nodes (foldl (drop_back_edge p) (hm_remove p m) node))"
  by pat_completeness auto

termination
proof (relation "measure length")
  fix m :: "(pos, pos list) hashmap" and n p node
  assume "max_node m = Some n" "(p, node) = n"
  then have "(p, node) \<in> set m" using max_node_mem by force
  then have "length (hm_remove p m) < length m"
    unfolding AList.delete_eq by (rule length_filter_less) simp
  then show "(foldl (drop_back_edge p) (hm_remove p m) node, m) \<in> measure length"
    using drop_back_edges_length [of p "hm_remove p m" node] by simp
qed simp

declare report_nodes.simps [simp del]

fun error_key :: "isle_error \<Rightarrow> pos" where
  "error_key (ShadowedError _ hi) = span_from hi"
| "error_key (OverlapError (r # _)) = span_from r"
| "error_key _ = pos_new 0 0"

definition report :: "overlap_errors \<Rightarrow> isle_error list" where
  "report E =
     sort_key error_key (report_nodes (nodes E) @
       map (\<lambda>(hi, ps). ShadowedError (map span_single ps) (span_single hi)) (shadowed E))"

definition check :: "term_env \<Rightarrow> (isle_error list, (term_id \<times> rule_set) list) outcome option" where
  "check te =
     (case after (build te) (\<lambda>(sets, errors). after (check_overlaps sets te) (\<lambda>E. Some (Ok (sets, errors @ report E)))) of
        None \<Rightarrow> None
      | Some (Ok (sets, errors)) \<Rightarrow> Some (if errors = [] then Ok sets else Err errors)
      | Some _ \<Rightarrow> Some Panic)"

section \<open>An empty report\<close>

lemma max_node_None [simp]: "max_node ns = None \<longleftrightarrow> ns = []"
  by (cases ns) (auto split: option.splits)

lemma report_nodes_Nil: "report_nodes m = [] \<longleftrightarrow> m = []"
  by (subst report_nodes.simps) (auto split: option.splits)

lemma sort_key_Nil [simp]: "sort_key f xs = [] \<longleftrightarrow> xs = []"
  by (simp flip: length_0_conv)

lemma report_Nil: "report E = [] \<longleftrightarrow> nodes E = [] \<and> shadowed E = []"
  by (simp add: report_def report_nodes_Nil)

section \<open>Loops over pairs of rules\<close>

lemma check_rest_preserves:
  assumes "\<And>E right. right \<in> set rest \<Longrightarrow> J E \<Longrightarrow> J (check_pair E left right)" "J E"
  shows "J (foldl (\<lambda>E right. check_pair E left right) E rest)"
  using assms by (induction rest arbitrary: E) auto

lemma check_rules_preserves:
  assumes "\<And>E a b. a \<in> set rs \<Longrightarrow> b \<in> set rs \<Longrightarrow> J E \<Longrightarrow> J (check_pair E a b)" "J E"
  shows "J (check_rules E rs)"
  using assms
proof (induction rs arbitrary: E)
  case (Cons left rest)
  have "J (foldl (\<lambda>E right. check_pair E left right) E rest)" by (rule check_rest_preserves) (use Cons.prems in auto)
  then show ?case using Cons.IH Cons.prems(1) by simp
qed simp

lemma check_sets_step:
  "check_sets E ((t, R) # sets) te = Some (Ok E') \<Longrightarrow>
     check_sets (if is_multi_ctor (env_terms te ! t) then E else check_rules E (rs_rules R)) sets te = Some (Ok E')"
  by (auto simp: get_term_def split: if_splits)

lemma check_sets_preserves:
  assumes "\<And>t R E a b. (t, R) \<in> set sets \<Longrightarrow> a \<in> set (rs_rules R) \<Longrightarrow> b \<in> set (rs_rules R) \<Longrightarrow> J E \<Longrightarrow> J (check_pair E a b)"
    and "check_sets E sets te = Some (Ok E')" "J E"
  shows "J E'"
  using assms
proof (induction sets arbitrary: E)
  case (Cons s sets)
  obtain t R where s: "s = (t, R)" by (cases s)
  have "J (check_pair E a b)" if "a \<in> set (rs_rules R)" "b \<in> set (rs_rules R)" "J E" for E a b
    using Cons.prems(1) [of t R] that s by simp
  then have "J (check_rules E (rs_rules R))" by (rule check_rules_preserves) (use Cons.prems(3) in auto)
  then have "J (if is_multi_ctor (env_terms te ! t) then E else check_rules E (rs_rules R))" using Cons.prems(3) by simp
  moreover have "J (check_pair E a b)" if "(t, R) \<in> set sets" "a \<in> set (rs_rules R)" "b \<in> set (rs_rules R)" "J E" for t R E a b
    using Cons.prems(1) [of t R] that by simp
  ultimately show ?case using Cons.IH check_sets_step [OF Cons.prems(2) [unfolded s]] by blast
qed simp

section \<open>The graph of overlaps\<close>

abbreviation edges :: "(pos, pos list) hashmap \<Rightarrow> pos \<Rightarrow> pos set" where
  "edges m p \<equiv> set (get_or_default m p)"

definition graph_ok :: "(pos, pos list) hashmap \<Rightarrow> bool" where
  "graph_ok m \<longleftrightarrow> hm_ok m \<and> (\<forall>p. distinct (get_or_default m p)) \<and> (\<forall>p q. q \<in> edges m p \<longrightarrow> p \<in> edges m q)"

lemma get_or_default_simps [simp]:
  "get_or_default (hm_insert p ps m) q = (if q = p then ps else get_or_default m q)"
  "get_or_default (hm_remove p m) q = (if q = p then [] else get_or_default m q)"
  "get_or_default [] q = []"
  by (auto simp: get_or_default_def update_conv' delete_conv')

lemma get_or_default_mem: "hm_ok m \<Longrightarrow> (p, ps) \<in> set m \<Longrightarrow> get_or_default m p = ps"
  by (simp add: get_or_default_def hm_mem_get)

lemma add_edge_edges: "edges (add_edge p q m) x = edges m x \<union> (if x = p then {q} else {})"
  by (simp add: add_edge_def)

lemma graph_ok_add:
  assumes "graph_ok m"
  shows "graph_ok (add_edge q p (add_edge p q m))"
proof -
  have "hm_ok (add_edge q p (add_edge p q m))" using assms by (simp add: graph_ok_def add_edge_def)
  moreover have "distinct (get_or_default (add_edge q p (add_edge p q m)) x)" for x
    using assms by (simp add: graph_ok_def add_edge_def)
  ultimately show ?thesis using assms unfolding graph_ok_def add_edge_edges by auto
qed

lemma drop_back_edge_edges:
  "get_or_default (drop_back_edge p m q) x = (if x = q then remove1 p (get_or_default m x) else get_or_default m x)"
  by (auto simp: drop_back_edge_def Let_def get_or_default_def delete_conv' update_conv' split: option.splits)

lemma drop_back_edge_ok: "hm_ok m \<Longrightarrow> hm_ok (drop_back_edge p m q)"
  by (simp add: drop_back_edge_def Let_def split: option.splits)

lemma drop_back_edges_edges:
  assumes "\<forall>x. distinct (get_or_default m x)" "hm_ok m"
  shows "hm_ok (foldl (drop_back_edge p) m qs) \<and> (\<forall>x. distinct (get_or_default (foldl (drop_back_edge p) m qs) x) \<and>
    edges (foldl (drop_back_edge p) m qs) x = (if x \<in> set qs then edges m x - {p} else edges m x))"
  using assms
proof (induction qs arbitrary: m)
  case (Cons q qs)
  have d: "\<forall>x. distinct (get_or_default (drop_back_edge p m q) x)" using Cons.prems(1) by (simp add: drop_back_edge_edges)
  have e: "edges (drop_back_edge p m q) x = (if x = q then edges m x - {p} else edges m x)" for x
    using Cons.prems(1) by (simp add: drop_back_edge_edges)
  show ?case using Cons.IH [OF d drop_back_edge_ok [OF Cons.prems(2)]] by (auto simp: e)
qed simp

text \<open>Taking a node out of the graph removes the edges at it and no others.\<close>

lemma remove_node:
  assumes "graph_ok m" "get_or_default m p = node" "m' = foldl (drop_back_edge p) (hm_remove p m) node"
  shows "edges m' x = (if x = p then {} else edges m x - {p})" "graph_ok m'"
proof -
  have m: "hm_ok m" "\<forall>x. distinct (get_or_default m x)" "\<And>x y. x \<in> edges m y \<Longrightarrow> y \<in> edges m x" using assms(1) by (auto simp: graph_ok_def)
  have *: "\<forall>x. distinct (get_or_default (hm_remove p m) x)" "hm_ok (hm_remove p m)" using m(1,2) by simp_all
  have m': "hm_ok m'" "\<And>x. distinct (get_or_default m' x)" "\<And>x. edges m' x = (if x \<in> set node then edges (hm_remove p m) x - {p} else edges (hm_remove p m) x)"
    using drop_back_edges_edges [OF *, of p node] by (simp_all add: assms(3))
  have "x \<notin> set node \<Longrightarrow> p \<notin> edges m x" for x using m(3) assms(2) by auto
  then show e: "edges m' x = (if x = p then {} else edges m x - {p})" for x unfolding m'(3) by auto
  show "graph_ok m'" unfolding graph_ok_def e using m' m(3) by auto
qed

definition listed :: "isle_error list \<Rightarrow> pos \<Rightarrow> pos \<Rightarrow> bool" where
  "listed errors p q \<longleftrightarrow> (\<exists>ps. OverlapError (span_single p # map span_single ps) \<in> set errors \<and> q \<in> set ps)"

lemma listed_Cons: "listed errors p q \<Longrightarrow> listed (e # errors) p q"
  by (auto simp: listed_def)

lemma report_nodes_cover:
  "graph_ok m \<Longrightarrow> q \<in> edges m p \<Longrightarrow> listed (report_nodes m) p q \<or> listed (report_nodes m) q p"
proof (induction m rule: report_nodes.induct)
  case (1 m)
  obtain x node where n: "max_node m = Some (x, node)" using 1(3) by (cases "max_node m") auto
  have node: "get_or_default m x = node"
    using max_node_mem [OF n] 1(2) by (auto simp: graph_ok_def intro: get_or_default_mem)
  let ?m = "foldl (drop_back_edge x) (hm_remove x m) node"
  have r: "report_nodes m = OverlapError (span_single x # map span_single node) # report_nodes ?m"
    by (subst report_nodes.simps) (simp add: n)
  have sym: "p \<in> edges m q" using 1(2,3) by (simp add: graph_ok_def)
  show ?case
  proof (cases "x = p \<or> x = q")
    case True
    then have "listed (report_nodes m) p q \<or> listed (report_nodes m) q p"
      using node sym 1(3) unfolding r listed_def by auto
    then show ?thesis .
  next
    case False
    then have "q \<in> edges ?m p" using remove_node(1) [OF 1(2) node refl] 1(3) by auto
    from 1(1) [OF n refl remove_node(2) [OF 1(2) node refl] this] show ?thesis unfolding r using listed_Cons by blast
  qed
qed

lemma report_nodes_sound:
  "graph_ok m \<Longrightarrow> e \<in> set (report_nodes m) \<Longrightarrow>
     \<exists>p ps. e = OverlapError (span_single p # map span_single ps) \<and> set ps \<subseteq> edges m p"
proof (induction m rule: report_nodes.induct)
  case (1 m)
  obtain x node where n: "max_node m = Some (x, node)" using 1(3) report_nodes_Nil [of m] by (cases "max_node m") auto
  have node: "get_or_default m x = node"
    using max_node_mem [OF n] 1(2) by (auto simp: graph_ok_def intro: get_or_default_mem)
  let ?m = "foldl (drop_back_edge x) (hm_remove x m) node"
  have r: "report_nodes m = OverlapError (span_single x # map span_single node) # report_nodes ?m"
    by (subst report_nodes.simps) (simp add: n)
  have sub: "edges ?m p \<subseteq> edges m p" for p using remove_node(1) [OF 1(2) node refl, of p] by auto
  consider "e = OverlapError (span_single x # map span_single node)" | "e \<in> set (report_nodes ?m)" using 1(3) unfolding r by auto
  then show ?case
  proof cases
    case 2
    from 1(1) [OF n refl remove_node(2) [OF 1(2) node refl] 2] show ?thesis using sub by blast
  qed (use node in auto)
qed

lemma report_mem:
  "e \<in> set (report E) \<longleftrightarrow> e \<in> set (report_nodes (nodes E)) \<or>
     (\<exists>hi ps. (hi, ps) \<in> set (shadowed E) \<and> e = ShadowedError (map span_single ps) (span_single hi))"
  by (auto simp: report_def)

section \<open>What the check finds\<close>

definition clash :: "trie_rule \<Rightarrow> trie_rule \<Rightarrow> bool" where
  "clash a b \<longleftrightarrow> may_overlap a b \<noteq> No \<and> prio a = prio b"

definition errors_ok :: "overlap_errors \<Rightarrow> bool" where
  "errors_ok E \<longleftrightarrow> graph_ok (nodes E) \<and> hm_ok (shadowed E)"

lemma check_pair_ok: "errors_ok E \<Longrightarrow> errors_ok (check_pair E a b)"
  by (auto simp: errors_ok_def check_pair_def Let_def add_shadow_def graph_ok_add split: overlap.splits)

lemma check_pair_nodes:
  "edges (nodes (check_pair E a b)) p = edges (nodes E) p \<union>
     (if clash a b then {q. {p, q} = {rule_pos a, rule_pos b}} else {})"
  by (auto simp: check_pair_def Let_def clash_def add_edge_edges doubleton_eq_iff split: overlap.splits if_splits)

lemma check_rules_finds:
  "sorted_wrt (\<lambda>a b. clash a b \<longrightarrow> rule_pos b \<in> edges (nodes (check_rules E rs)) (rule_pos a)) rs"
proof (induction rs arbitrary: E)
  case (Cons left rest)
  let ?E = "foldl (\<lambda>E right. check_pair E left right) E rest"
  have now: "rule_pos right \<in> edges (nodes ?E) (rule_pos left)" if "clash left right" "right \<in> set rest" for right
    using that(2)
  proof (induction rest arbitrary: E)
    case (Cons r rest)
    show ?case
    proof (cases "r = right")
      case True
      have "rule_pos right \<in> edges (nodes (foldl (\<lambda>E right. check_pair E left right) (check_pair E left right) rest)) (rule_pos left)"
        by (rule check_rest_preserves [of _ "\<lambda>E. rule_pos right \<in> edges (nodes E) (rule_pos left)"])
           (simp_all add: check_pair_nodes that(1))
      then show ?thesis using True by simp
    qed (use Cons in simp)
  qed simp
  have "rule_pos right \<in> edges (nodes (check_rules ?E rest)) (rule_pos left)" if "clash left right" "right \<in> set rest" for right
    by (rule check_rules_preserves [of _ "\<lambda>E. rule_pos right \<in> edges (nodes E) (rule_pos left)"])
       (simp_all add: check_pair_nodes now [OF that])
  then show ?case using Cons.IH by simp
qed simp

lemma check_sets_finds:
  assumes "check_sets E sets te = Some (Ok E')" "(t, R) \<in> set sets" "\<not> is_multi_ctor (env_terms te ! t)"
  shows "sorted_wrt (\<lambda>a b. clash a b \<longrightarrow> rule_pos b \<in> edges (nodes E') (rule_pos a)) (rs_rules R)"
  using assms
proof (induction sets arbitrary: E)
  case (Cons s sets)
  obtain u S where s: "s = (u, S)" by (cases s)
  let ?E = "if is_multi_ctor (env_terms te ! u) then E else check_rules E (rs_rules S)"
  note rest = check_sets_step [OF Cons.prems(1) [unfolded s]]
  show ?case
  proof (cases "(t, R) = s")
    case True
    have "rule_pos b \<in> edges (nodes E') (rule_pos a)" if "rule_pos b \<in> edges (nodes ?E) (rule_pos a)" for a b :: trie_rule
      by (rule check_sets_preserves [of _ "\<lambda>E. rule_pos b \<in> edges (nodes E) (rule_pos a)", OF _ rest that])
         (simp add: check_pair_nodes)
    then show ?thesis
      using True s Cons.prems(3) check_rules_finds [of E "rs_rules R"] by (auto elim!: sorted_wrt_mono_rel [rotated])
  qed (use Cons.IH [OF rest] Cons.prems(2,3) in auto)
qed simp

section \<open>Shadowed rules\<close>

definition shadows :: "trie_rule \<Rightarrow> trie_rule \<Rightarrow> bool" where
  "shadows hi lo \<longleftrightarrow> prio lo < prio hi \<and> (may_overlap hi lo = Yes True \<or> may_overlap lo hi = Yes True) \<and>
     total_constraints hi \<le> total_constraints lo"

lemma shadows_matches:
  assumes "rule_ok hi" "rule_ok lo" "shadows hi lo" "matches lo env"
  shows "matches hi env"
proof -
  have "may_overlap hi lo = Yes True" using assms(3) may_overlap_sym [OF assms(1,2)] by (auto simp: shadows_def)
  from may_overlap_subset [OF assms(1,2) this] assms(3)
  have "equals hi = []" "hm_get (constraints hi) b = Some a \<Longrightarrow> hm_get (constraints lo) b = Some a" for a b
    by (auto simp: shadows_def)
  then show ?thesis using assms(4) by (auto simp: matches_def satisfies_def)
qed

lemma check_pair_shadowed:
  "q \<in> set (get_or_default (shadowed (check_pair E a b)) p) \<Longrightarrow> q \<notin> set (get_or_default (shadowed E) p) \<Longrightarrow>
     \<exists>hi\<in>{a, b}. \<exists>lo\<in>{a, b}. shadows hi lo \<and> rule_pos hi = p \<and> rule_pos lo = q"
  by (auto simp: check_pair_def Let_def add_shadow_def get_or_default_def shadows_def split: overlap.splits if_splits option.splits)

text \<open>Two rules of one rule set.\<close>

definition together :: "(term_id \<times> rule_set) list \<Rightarrow> trie_rule \<Rightarrow> trie_rule \<Rightarrow> bool" where
  "together sets a b \<longleftrightarrow> (\<exists>t R. (t, R) \<in> set sets \<and> a \<in> set (rs_rules R) \<and> b \<in> set (rs_rules R))"

lemma check_sets_shadowed:
  assumes "check_sets E sets te = Some (Ok E')" "q \<in> edges (shadowed E') p"
  shows "q \<in> edges (shadowed E) p \<or> (\<exists>hi lo. together sets hi lo \<and> shadows hi lo \<and> rule_pos hi = p \<and> rule_pos lo = q)"
proof -
  let ?J = "\<lambda>E' :: overlap_errors. q \<in> edges (shadowed E') p \<longrightarrow>
    q \<in> edges (shadowed E) p \<or> (\<exists>hi lo. together sets hi lo \<and> shadows hi lo \<and> rule_pos hi = p \<and> rule_pos lo = q)"
  have "?J E'"
  proof (rule check_sets_preserves [OF _ assms(1)])
    fix t R a b and E' :: overlap_errors
    assume *: "(t, R) \<in> set sets" "a \<in> set (rs_rules R)" "b \<in> set (rs_rules R)" and J: "?J E'"
    then have t: "together sets x y" if "x \<in> {a, b}" "y \<in> {a, b}" for x y using that unfolding together_def by blast
    show "?J (check_pair E' a b)" using check_pair_shadowed [of q E' a b p] J t by blast
  qed simp
  then show ?thesis using assms(2) by simp
qed

section \<open>Programs that pass, programs that do not\<close>

lemma check_overlaps_ok: "check_overlaps sets te = Some (Ok E) \<Longrightarrow> errors_ok E"
  unfolding check_overlaps_def
  by (rule check_sets_preserves [of sets errors_ok]) (simp_all add: check_pair_ok, simp add: errors_ok_def graph_ok_def)

lemma check_overlaps_finds:
  assumes "check_overlaps sets te = Some (Ok E)" "(t, R) \<in> set sets" "\<not> is_multi_ctor (env_terms te ! t)"
    and "i < j" "j < length (rs_rules R)" "clash (rs_rules R ! i) (rs_rules R ! j)"
  shows "rule_pos (rs_rules R ! j) \<in> edges (nodes E) (rule_pos (rs_rules R ! i))"
  using sorted_wrt_nth_less [OF check_sets_finds [OF assms(1) [unfolded check_overlaps_def] assms(2,3)] assms(4,5)] assms(6)
  by simp

text \<open>Two compiled rules that match under one valuation may overlap.\<close>

lemma both_match_clash:
  assumes "made_from te rs all R" "compiles te (rs_bindings R) a ra" "compiles te (rs_bindings R) b rb"
    and "sr_prio a = sr_prio b" "rule_value I te a 0 \<noteq> None" "rule_value I te b 0 \<noteq> None"
  shows "clash ra rb"
proof -
  obtain env where env: "denotes I env (rs_bindings R)" using valuation_exists [of R I] assms(1) by (auto simp: made_from_def)
  then have "matches ra env" "matches rb env" using compiles_matches assms(2,3,5,6) by blast+
  moreover have "rule_ok ra" "rule_ok rb" "prio ra = prio rb" using assms(2-4) by (auto simp: compiles_def header_def)
  ultimately show ?thesis using may_overlap_exclusive unfolding clash_def by blast
qed

lemma clash_sym: "rule_ok a \<Longrightarrow> rule_ok b \<Longrightarrow> clash a b \<longleftrightarrow> clash b a"
  by (auto simp: clash_def may_overlap_sym)

lemma check_Ok:
  assumes "check te = Some (Ok sets)"
  obtains E where "build te = Some (Ok (sets, []))" "check_overlaps sets te = Some (Ok E)" "nodes E = []"
  using assms by (auto simp: check_def after_def report_Nil split: option.splits outcome.splits if_splits)

lemma set_exists:
  assumes "build te = Some (Ok (sets, errors))" "rule \<in> set (env_rules te)"
  obtains R where "(root_term_id rule, R) \<in> set sets"
  using ends_OkD [OF build_ends assms(1)] assms(2) by fastforce

lemma inj_span_single: "inj span_single"
  by (rule injI) (simp add: span_single_def)

text \<open>
  C29. The check comes to an end: building the rule sets, comparing the rules in pairs and reporting
  what was found return, with rule sets, with errors or by a panic, for every program.
\<close>

theorem check_total: "check te \<noteq> None"
proof -
  have *: "check_sets E sets te \<noteq> None" for E sets
    by (induction E sets te rule: check_sets.induct) (auto simp: get_term_def)
  have "build te \<noteq> None" using build_ends [of te] by (auto simp: ends_def)
  then show ?thesis by (simp add: check_def check_overlaps_def after_def * split: option.split outcome.split prod.split)
qed

text \<open>
  C1. A program that passes the check is unambiguous: of two rules for one term that is not a multi
  term, with equal priority, at most one matches, whatever the arguments are and whatever the
  extractors and constructors return.
\<close>

theorem check_unambiguous:
  assumes "check te = Some (Ok sets)" "\<not> is_multi_ctor (env_terms te ! t)"
    and "i < j" "j < length (rules_of (env_rules te) t)"
    and "sr_prio (rules_of (env_rules te) t ! i) = sr_prio (rules_of (env_rules te) t ! j)"
  shows "rule_value I te (rules_of (env_rules te) t ! i) 0 = None \<or> rule_value I te (rules_of (env_rules te) t ! j) 0 = None"
proof (rule ccontr)
  let ?rs = "rules_of (env_rules te) t"
  assume both: "\<not> ?thesis"
  obtain E where E: "build te = Some (Ok (sets, []))" "check_overlaps sets te = Some (Ok E)" "nodes E = []"
    using check_Ok [OF assms(1)] .
  have "?rs ! j \<in> set ?rs" using assms(4) by simp
  then obtain R where R: "(t, R) \<in> set sets" using set_exists [OF E(1), of "?rs ! j"] by (auto simp: rules_of_def)
  have made: "made_from te ?rs True R" using build_made_from [OF E(1) R] by simp
  have "i < length ?rs" using assms(3,4) by simp
  from both_match_clash [OF made made_from_all(2) [OF made this] made_from_all(2) [OF made assms(4)] assms(5), of I] both
  have "clash (rs_rules R ! i) (rs_rules R ! j)" by simp
  from check_overlaps_finds [OF E(2) R assms(2,3) _ this] show False using E(3) assms(4) made_from_all(1) [OF made] by simp
qed

abbreviation distinct_rules :: "sema_rule list" where
  "distinct_rules \<equiv> [example_rule 2 7 [PConstInt 5 2, PBindPattern 5 4 (PWildcard 5)] (XVar 5 4),
     example_rule 3 7 [PConstInt 5 3, PWildcard 5] (XConstInt 5 8)]"

lemmas check_evaluate = build_evaluate check_def check_overlaps_def check_pair_def may_overlap_def is_multi_ctor_def report_Nil

theorem check_unambiguous_witness:
  "\<forall>I. rule_value I (example_env distinct_rules) (distinct_rules ! 0) 0 = None \<or>
     rule_value I (example_env distinct_rules) (distinct_rules ! 1) 0 = None"
proof
  fix I
  let ?te = "example_env distinct_rules"
  obtain sets where c: "check ?te = Some (Ok sets)" by (simp add: check_evaluate)
  have t: "\<not> is_multi_ctor (env_terms ?te ! 0)" by (simp add: is_multi_ctor_def example_env_def example_term_def)
  have r: "rules_of (env_rules ?te) 0 = distinct_rules" by (simp add: rules_of_def example_env_def example_rule_def)
  show "rule_value I ?te (distinct_rules ! 0) 0 = None \<or> rule_value I ?te (distinct_rules ! 1) 0 = None"
    using check_unambiguous [OF c t, of 0 1 I] unfolding r by (simp add: example_rule_def)
qed

text \<open>
  C27. Every ambiguity is reported. If two rules for one term that is not a multi term, with equal
  priority and at different positions, match the same arguments, an overlap error of the report
  has the position of one of them first and the position of the other among the rest.
\<close>

theorem overlaps_reported:
  assumes "build te = Some (Ok (sets, errors))" "check_overlaps sets te = Some (Ok E)"
    and "a \<in> set (env_rules te)" "b \<in> set (env_rules te)" "root_term_id a = root_term_id b"
    and "\<not> is_multi_ctor (env_terms te ! root_term_id b)" "sr_prio a = sr_prio b" "sr_pos a \<noteq> sr_pos b"
    and "rule_value I te a 0 \<noteq> None" "rule_value I te b 0 \<noteq> None"
  shows "listed (report E) (sr_pos a) (sr_pos b) \<or> listed (report E) (sr_pos b) (sr_pos a)"
proof -
  let ?rs = "rules_of (env_rules te) (root_term_id b)"
  obtain R where R: "(root_term_id b, R) \<in> set sets" using set_exists [OF assms(1,4)] .
  note made = build_made_from [OF assms(1) R]
  have "a \<in> set ?rs" "b \<in> set ?rs" "\<not> never te a" "\<not> never te b"
    using assms(3,4,5,9,10) by (auto simp: rules_of_def never_def)
  then obtain ra rb where r: "ra \<in> set (rs_rules R)" "compiles te (rs_bindings R) a ra"
      "rb \<in> set (rs_rules R)" "compiles te (rs_bindings R) b rb" using made_from_kept [OF made] by metis
  have "clash ra rb" by (rule both_match_clash [OF made r(2,4) assms(7,9,10)])
  moreover have ok: "rule_ok ra" "rule_ok rb" "rule_pos ra = sr_pos a" "rule_pos rb = sr_pos b"
    using r(2,4) by (auto simp: compiles_def header_def)
  ultimately have both: "clash ra rb" "clash rb ra" using clash_sym by blast+
  obtain i j where ij: "i < length (rs_rules R)" "j < length (rs_rules R)" "ra = rs_rules R ! i" "rb = rs_rules R ! j"
    using r(1,3) by (auto simp: in_set_conv_nth)
  note finds = check_overlaps_finds [OF assms(2) R assms(6)]
  have "i \<noteq> j" using ij(3,4) ok(3,4) assms(8) by auto
  then have "sr_pos b \<in> edges (nodes E) (sr_pos a) \<or> sr_pos a \<in> edges (nodes E) (sr_pos b)"
    using finds [of i j] finds [of j i] both ok(3,4) ij by (cases "i < j") auto
  moreover have "graph_ok (nodes E)" using check_overlaps_ok [OF assms(2)] by (simp add: errors_ok_def)
  ultimately have "listed (report_nodes (nodes E)) (sr_pos a) (sr_pos b) \<or> listed (report_nodes (nodes E)) (sr_pos b) (sr_pos a)"
    using report_nodes_cover by blast
  then show ?thesis by (auto simp: listed_def report_mem)
qed

abbreviation clashing_rules :: "sema_rule list" where
  "clashing_rules \<equiv> [example_rule 2 7 [PConstInt 5 2, PWildcard 5] (XConstInt 5 8),
     example_rule 3 7 [PWildcard 5, PConstInt 5 9] (XConstInt 5 8)]"

theorem overlaps_reported_witness:
  "\<exists>sets errors E. build (example_env clashing_rules) = Some (Ok (sets, errors)) \<and>
     check_overlaps sets (example_env clashing_rules) = Some (Ok E) \<and>
     (listed (report E) (pos_new 0 2) (pos_new 0 3) \<or> listed (report E) (pos_new 0 3) (pos_new 0 2))"
proof -
  let ?te = "example_env clashing_rules"
  obtain sets errors where b: "build ?te = Some (Ok (sets, errors))" "map fst sets = [0]" by (simp add: build_evaluate)
  then obtain E where c: "check_overlaps sets ?te = Some (Ok E)"
    by (auto simp: check_overlaps_def get_term_def example_env_def)
  have p: "sr_pos (clashing_rules ! 0) = pos_new 0 2" "sr_pos (clashing_rules ! 1) = pos_new 0 3"
    "pos_new 0 2 \<noteq> pos_new 0 3" by (simp_all add: example_rule_def pos_new_def)
  have v: "rule_value example_interp ?te (clashing_rules ! 0) 0 \<noteq> None" "rule_value example_interp ?te (clashing_rules ! 1) 0 \<noteq> None"
    by (simp_all add: value_evaluate)
  have "listed (report E) (pos_new 0 2) (pos_new 0 3) \<or> listed (report E) (pos_new 0 3) (pos_new 0 2)"
    using overlaps_reported [OF b(1) c, of "clashing_rules ! 0" "clashing_rules ! 1" example_interp] v unfolding p
    using p(3) by (simp add: example_env_def example_rule_def is_multi_ctor_def example_term_def)
  then show ?thesis using b(1) c by blast
qed

text \<open>
  C28. A rule is reported as shadowed only if it is: for every position of a shadowed rule in a shadow
  error there are a rule at that position and a rule of the same term and of higher priority at
  the position the error gives, and the latter matches whenever the former does.
\<close>

theorem shadow_errors_justified:
  assumes "build te = Some (Ok (sets, errors))" "check_overlaps sets te = Some (Ok E)"
    and "ShadowedError (map span_single ps) (span_single p) \<in> set (report E)" "q \<in> set ps"
  shows "\<exists>hi\<in>set (env_rules te). \<exists>lo\<in>set (env_rules te). root_term_id hi = root_term_id lo \<and>
    sr_pos hi = p \<and> sr_pos lo = q \<and> sr_prio lo < sr_prio hi \<and>
    (\<forall>I. rule_value I te lo 0 \<noteq> None \<longrightarrow> rule_value I te hi 0 \<noteq> None)"
proof -
  have ok: "graph_ok (nodes E)" "hm_ok (shadowed E)" using check_overlaps_ok [OF assms(2)] by (auto simp: errors_ok_def)
  obtain p' ps' where "(p', ps') \<in> set (shadowed E)" "map span_single ps' = map span_single ps" "span_single p' = span_single p"
    using assms(3) report_nodes_sound [OF ok(1)] by (fastforce simp: report_mem)
  then have "(p, ps) \<in> set (shadowed E)" using inj_span_single by (simp add: inj_map_eq_map inj_eq)
  then have "q \<in> edges (shadowed E) p" using get_or_default_mem [OF ok(2)] assms(4) by simp
  then obtain rhi rlo t R where r: "(t, R) \<in> set sets" "rhi \<in> set (rs_rules R)" "rlo \<in> set (rs_rules R)"
      "shadows rhi rlo" "rule_pos rhi = p" "rule_pos rlo = q"
    using check_sets_shadowed [OF assms(2) [unfolded check_overlaps_def], of q p] by (auto simp: together_def)
  note made = build_made_from [OF assms(1) r(1)]
  obtain hi lo where s: "hi \<in> set (rules_of (env_rules te) t)" "compiles te (rs_bindings R) hi rhi"
      "lo \<in> set (rules_of (env_rules te) t)" "compiles te (rs_bindings R) lo rlo"
    using made_from_mem [OF made r(2)] made_from_mem [OF made r(3)] by blast
  have ok: "rule_ok rhi" "rule_ok rlo" "sr_pos hi = p" "sr_pos lo = q" "sr_prio lo < sr_prio hi"
    using s(2,4) r(4-6) by (auto simp: compiles_def header_def shadows_def)
  have "rule_value I te hi 0 \<noteq> None" if "rule_value I te lo 0 \<noteq> None" for I
  proof -
    obtain env where env: "denotes I env (rs_bindings R)" using valuation_exists [of R I] made by (auto simp: made_from_def)
    from that have "matches rlo env" using compiles_matches [OF s(4) env] by blast
    then show ?thesis using shadows_matches [OF ok(1,2) r(4)] compiles_matches [OF s(2) env] by blast
  qed
  then show ?thesis using s(1,3) ok(3-5) by (intro bexI [of _ hi] bexI [of _ lo]) (auto simp: rules_of_def)
qed

abbreviation shadowing_rules :: "sema_rule list" where
  "shadowing_rules \<equiv> [example_rule 2 7 [PConstInt 5 2, PConstInt 5 9] (XConstInt 5 8),
     example_rule 3 9 [PConstInt 5 2, PWildcard 5] (XConstInt 5 8)]"

theorem shadow_errors_justified_witness:
  "\<exists>hi\<in>set shadowing_rules. \<exists>lo\<in>set shadowing_rules. sr_pos hi = pos_new 0 3 \<and> sr_pos lo = pos_new 0 2 \<and>
     (\<forall>I. rule_value I (example_env shadowing_rules) lo 0 \<noteq> None \<longrightarrow> rule_value I (example_env shadowing_rules) hi 0 \<noteq> None)"
proof -
  let ?te = "example_env shadowing_rules"
  let ?E = "\<lparr>nodes = [], shadowed = [(pos_new 0 3, [pos_new 0 2])]\<rparr>"
  obtain sets where b: "build ?te = Some (Ok (sets, []))" "check_overlaps sets ?te = Some (Ok ?E)"
    by (simp add: check_evaluate total_constraints_def len_def add_shadow_def is_empty_def)
  have e: "ShadowedError (map span_single [pos_new 0 2]) (span_single (pos_new 0 3)) \<in> set (report ?E)"
    by (simp add: report_mem)
  have "env_rules ?te = shadowing_rules" by (simp add: example_env_def)
  then show ?thesis using shadow_errors_justified [OF b e, of "pos_new 0 2"] by simp metis
qed

end
