(* ===== verification/Veri_Expansion.thy ===== *)
theory Veri_Expansion
  imports Sema_Terms Trie_Builder
begin

text \<open>
  The expansions of \<^verbatim>\<open>veri/src/expand.rs\<close>: the bindings of several rules joined together, with the
  conditions under which the rules apply. A rule is applied at a constructor call by importing
  its bindings and replacing the call by the rule's result.
\<close>

section \<open>Reindexing\<close>

type_synonym reindex = "(binding_id, binding_id) hashmap"

definition is_mapped :: "reindex \<Rightarrow> binding_id \<Rightarrow> bool" where
  "is_mapped to i \<longleftrightarrow> hm_get to i \<noteq> None"

definition reindex_id :: "reindex \<Rightarrow> binding_id \<Rightarrow> binding_id" where
  "reindex_id to i = (case hm_get to i of None \<Rightarrow> i | Some j \<Rightarrow> j)"

fun reindex_binding :: "reindex \<Rightarrow> binding \<Rightarrow> binding run" where
  "reindex_binding to (BArgument i) = Some (Ok (BArgument i))"
| "reindex_binding to (BConstInt i ty) = Some (Ok (BConstInt i ty))"
| "reindex_binding to (BConstPrim s) = Some (Ok (BConstPrim s))"
| "reindex_binding to (BExtractor t parameter) = Some (Ok (BExtractor t (reindex_id to parameter)))"
| "reindex_binding to (BConstructor t parameters inst) =
     Some (Ok (BConstructor t (map (reindex_id to) parameters) inst))"
| "reindex_binding to (BMakeVariant ty variant xs) = Some (Ok (BMakeVariant ty variant (map (reindex_id to) xs)))"
| "reindex_binding to (BMatchVariant source variant field) =
     Some (Ok (BMatchVariant (reindex_id to source) variant field))"
| "reindex_binding to (BMakeSome inner) = Some (Ok (BMakeSome (reindex_id to inner)))"
| "reindex_binding to (BMatchSome source) = Some (Ok (BMatchSome (reindex_id to source)))"
| "reindex_binding to (BMatchTuple source field) = Some (Ok (BMatchTuple (reindex_id to source) field))"
| "reindex_binding to (BIterator _) = Some Panic"

section \<open>Expansions\<close>

datatype constrain = Match binding_id trie_constraint | NotAll "constrain list"

fun constrain_bindings :: "constrain \<Rightarrow> binding_id list" where
  "constrain_bindings (Match i _) = [i]"
| "constrain_bindings (NotAll cs) = concat (map constrain_bindings cs)"

fun constrain_substitute :: "reindex \<Rightarrow> constrain \<Rightarrow> constrain" where
  "constrain_substitute to (Match i c) = Match (reindex_id to i) c"
| "constrain_substitute to (NotAll cs) = NotAll (map (constrain_substitute to) cs)"

text \<open>A binding that has been replaced by another leaves a hole.\<close>

record expansion =
  ex_term :: term_id
  ex_rules :: "rule_id list"
  ex_negated :: "rule_id list"
  ex_bindings :: "binding option list"
  ex_constraints :: "constrain list"
  ex_equals :: "binding_id forest"
  ex_parameters :: "binding_id list"
  ex_result :: binding_id

definition ex_binding :: "expansion \<Rightarrow> binding_id \<Rightarrow> binding option" where
  "ex_binding X i = (if i < length (ex_bindings X) then ex_bindings X ! i else None)"

definition is_defined :: "expansion \<Rightarrow> binding_id \<Rightarrow> bool" where
  "is_defined X i \<longleftrightarrow> ex_binding X i \<noteq> None"

text \<open>The assertions of \<^verbatim>\<open>Expansion::validate\<close>.\<close>

definition expansion_valid :: "expansion \<Rightarrow> bool" where
  "expansion_valid X \<longleftrightarrow>
     list_all (\<lambda>b. case b of None \<Rightarrow> True | Some b \<Rightarrow> list_all (is_defined X) (binding_sources b)) (ex_bindings X) \<and>
     list_all (\<lambda>c. list_all (is_defined X) (constrain_bindings c)) (ex_constraints X) \<and>
     list_all (\<lambda>p. case ex_binding X p of Some (BArgument _) \<Rightarrow> True | _ \<Rightarrow> False) (ex_parameters X) \<and>
     is_defined X (ex_result X)"

definition expansion_validate :: "expansion \<Rightarrow> unit run" where
  "expansion_validate X = (if expansion_valid X then Some (Ok ()) else Some Panic)"

fun feasible_loop :: "expansion \<Rightarrow> constrain list \<Rightarrow> bool run" where
  "feasible_loop X [] = Some (Ok True)"
| "feasible_loop X (Match i c # cs) =
     (case ex_binding X i of
        None \<Rightarrow> Some Panic
      | Some b \<Rightarrow> if compatible c b then feasible_loop X cs else Some (Ok False))"
| "feasible_loop X (NotAll _ # cs) = feasible_loop X cs"

definition is_feasible :: "expansion \<Rightarrow> bool run" where
  "is_feasible X = after (expansion_validate X) (\<lambda>_. feasible_loop X (ex_constraints X))"

definition add_constrain :: "constrain \<Rightarrow> expansion \<Rightarrow> expansion" where
  "add_constrain c X = X\<lparr>ex_constraints := ex_constraints X @ [c]\<rparr>"

definition add_match :: "binding_id \<Rightarrow> trie_constraint \<Rightarrow> expansion \<Rightarrow> expansion" where
  "add_match i c X = add_constrain (Match i c) X"

definition push_binding :: "binding \<Rightarrow> expansion \<Rightarrow> (binding_id \<times> expansion) run" where
  "push_binding b X =
     (let i = length (ex_bindings X) in
      if i < 65536 then Some (Ok (i, X\<lparr>ex_bindings := ex_bindings X @ [Some b]\<rparr>)) else Some Panic)"

text \<open>The positions of the table fit a binding id, as every binding was given one when it was added.\<close>

fun equalities_from :: "binding_id forest \<Rightarrow> nat \<Rightarrow> binding option list \<Rightarrow> (binding_id \<times> binding_id) list run" where
  "equalities_from m i [] = Some (Ok [])"
| "equalities_from m i (None # bs) = equalities_from m (i + 1) bs"
| "equalities_from m i (Some _ # bs) =
     (case find_root m i of
        None \<Rightarrow> None
      | Some eq \<Rightarrow> after (equalities_from m (i + 1) bs) (\<lambda>eqs.
          Some (Ok (case eq of None \<Rightarrow> eqs | Some e \<Rightarrow> if e \<noteq> i then (i, e) # eqs else eqs))))"

definition equalities :: "expansion \<Rightarrow> (binding_id \<times> binding_id) list run" where
  "equalities X = equalities_from (ex_equals X) 0 (ex_bindings X)"

fun constructor_bindings_from :: "nat \<Rightarrow> binding option list \<Rightarrow> (binding_id \<times> term_id) list" where
  "constructor_bindings_from i [] = []"
| "constructor_bindings_from i (Some (BConstructor t _ _) # bs) = (i, t) # constructor_bindings_from (i + 1) bs"
| "constructor_bindings_from i (_ # bs) = constructor_bindings_from (i + 1) bs"

definition constructor_bindings :: "expansion \<Rightarrow> (binding_id \<times> term_id) list" where
  "constructor_bindings X = constructor_bindings_from 0 (ex_bindings X)"

fun reindex_bindings :: "reindex \<Rightarrow> binding option list \<Rightarrow> binding option list run" where
  "reindex_bindings to [] = Some (Ok [])"
| "reindex_bindings to (None # bs) = after (reindex_bindings to bs) (\<lambda>bs. Some (Ok (None # bs)))"
| "reindex_bindings to (Some b # bs) =
     after (reindex_binding to b) (\<lambda>b. after (reindex_bindings to bs) (\<lambda>bs. Some (Ok (Some b # bs))))"

definition ex_substitute :: "binding_id \<Rightarrow> binding_id \<Rightarrow> expansion \<Rightarrow> expansion run" where
  "ex_substitute target replace X =
     (let to = [(target, replace)] in
      after (reindex_bindings to (ex_bindings X)) (\<lambda>bs.
      if target < length bs
      then Some (Ok (X\<lparr>ex_bindings := bs[target := None],
        ex_constraints := map (constrain_substitute to) (ex_constraints X),
        ex_result := reindex_id to (ex_result X)\<rparr>))
      else Some Panic))"

section \<open>Applying a rule\<close>

record application =
  ap_expansion :: expansion
  ap_substitutions :: "(binding_id \<times> binding_id) list"
  ap_reindex :: reindex

definition application_new :: "expansion \<Rightarrow> application" where
  "application_new X = \<lparr>ap_expansion = X, ap_substitutions = [], ap_reindex = []\<rparr>"

definition import_binding :: "binding_id \<Rightarrow> binding \<Rightarrow> application \<Rightarrow> application run" where
  "import_binding i b A =
     after (reindex_binding (ap_reindex A) b) (\<lambda>b.
     after (push_binding b (ap_expansion A)) (\<lambda>(j, X).
     Some (Ok (A\<lparr>ap_expansion := X, ap_reindex := hm_insert i j (ap_reindex A)\<rparr>))))"

text \<open>
  \<^verbatim>\<open>add_binding\<close> calls itself for the sources of a binding, in order, before it adds the binding.
  The function here does this for a list of bindings.
\<close>

partial_function (option) add_bindings :: "rule_set \<Rightarrow> binding_id list \<Rightarrow> application \<Rightarrow> application run" where
  "add_bindings R todo A =
     (case todo of
        [] \<Rightarrow> Some (Ok A)
      | i # todo \<Rightarrow>
          if is_mapped (ap_reindex A) i then add_bindings R todo A
          else if i < length (rs_bindings R)
          then after (add_bindings R (binding_sources (rs_bindings R ! i)) A) (\<lambda>A.
               after (import_binding i (rs_bindings R ! i) A) (\<lambda>A. add_bindings R todo A))
          else Some Panic)"

definition add_binding :: "rule_set \<Rightarrow> binding_id \<Rightarrow> application \<Rightarrow> (binding_id \<times> application) run" where
  "add_binding R i A = after (add_bindings R [i] A) (\<lambda>A. Some (Ok (reindex_id (ap_reindex A) i, A)))"

definition with_expansion :: "(expansion \<Rightarrow> expansion) \<Rightarrow> application \<Rightarrow> application" where
  "with_expansion f A = A\<lparr>ap_expansion := f (ap_expansion A)\<rparr>"

definition push_substitution :: "binding_id \<Rightarrow> binding_id \<Rightarrow> application \<Rightarrow> application" where
  "push_substitution target replace A = A\<lparr>ap_substitutions := ap_substitutions A @ [(target, replace)]\<rparr>"

text \<open>One turn of each loop of \<^verbatim>\<open>Application::rule\<close>.\<close>

definition rule_argument :: "rule_set \<Rightarrow> nat \<times> binding_id \<Rightarrow> application \<Rightarrow> application run" where
  "rule_argument R arg A =
     (case arg of (i, parameter) \<Rightarrow>
        if i < 256
        then (case find_binding R (BArgument i) of
                None \<Rightarrow> Some Panic
              | Some b \<Rightarrow> after (add_binding R b A) (\<lambda>(j, A). Some (Ok (push_substitution j parameter A))))
        else Some Panic)"

definition rule_constraint :: "rule_set \<Rightarrow> trie_rule \<Rightarrow> binding_id \<Rightarrow> application \<Rightarrow> application run" where
  "rule_constraint R r i A =
     (case get_constraint r i of
        None \<Rightarrow> Some (Ok A)
      | Some c \<Rightarrow> after (add_binding R i A) (\<lambda>(j, A). Some (Ok (with_expansion (add_match j c) A))))"

definition rule_equal :: "rule_set \<Rightarrow> trie_rule \<Rightarrow> binding_id \<Rightarrow> application \<Rightarrow> application run" where
  "rule_equal R r i A =
     (case find_root (equals r) i of
        None \<Rightarrow> None
      | Some None \<Rightarrow> Some (Ok A)
      | Some (Some e) \<Rightarrow>
          if e = i then Some (Ok A)
          else after (add_binding R i A) (\<lambda>(x, A).
               after (add_binding R e A) (\<lambda>(y, A).
               after (merge (ex_equals (ap_expansion A)) x y) (\<lambda>m.
               Some (Ok (with_expansion (\<lambda>X. X\<lparr>ex_equals := m\<rparr>) A))))))"

definition rule_impure :: "rule_set \<Rightarrow> binding_id \<Rightarrow> application \<Rightarrow> application run" where
  "rule_impure R i A = after (add_binding R i A) (\<lambda>(_, A). Some (Ok A))"

definition rule_result :: "rule_set \<Rightarrow> trie_rule \<Rightarrow> binding_id \<Rightarrow> application \<Rightarrow> application run" where
  "rule_result R r call_site A =
     after (add_binding R (result r) A) (\<lambda>(j, A). Some (Ok (push_substitution call_site j A)))"

definition apply_rule :: "rule_set \<Rightarrow> trie_rule \<Rightarrow> binding_id list \<Rightarrow> binding_id \<Rightarrow> application \<Rightarrow> application run" where
  "apply_rule R r params call_site A =
     (let A = with_expansion (\<lambda>X. X\<lparr>ex_rules := ex_rules X @ [rule_id r]\<rparr>) A;
          ids = [0..<length (rs_bindings R)] in
      after (each (rule_argument R) (zip [0..<length params] params) A) (\<lambda>A.
      after (each (rule_constraint R r) ids A) (\<lambda>A.
      after (each (rule_equal R r) ids A) (\<lambda>A.
      after (each (rule_impure R) (impure r) A) (\<lambda>A.
      rule_result R r call_site A)))))"

text \<open>The constraints are collected in the order of the bindings.\<close>

fun negated_constraints ::
  "rule_set \<Rightarrow> trie_rule \<Rightarrow> binding_id list \<Rightarrow> application \<Rightarrow> (constrain list \<times> application) run" where
  "negated_constraints R r [] A = Some (Ok ([], A))"
| "negated_constraints R r (i # is) A =
     (case get_constraint r i of
        None \<Rightarrow> negated_constraints R r is A
      | Some c \<Rightarrow> after (add_binding R i A) (\<lambda>(j, A).
          after (negated_constraints R r is A) (\<lambda>(cs, A). Some (Ok (Match j c # cs, A)))))"

definition apply_negation :: "rule_set \<Rightarrow> trie_rule \<Rightarrow> application \<Rightarrow> application run" where
  "apply_negation R r A =
     (let A = with_expansion (\<lambda>X. X\<lparr>ex_negated := ex_negated X @ [rule_id r]\<rparr>) A in
      after (negated_constraints R r [0..<length (rs_bindings R)] A) (\<lambda>(cs, A).
      Some (Ok (with_expansion (add_constrain (NotAll cs)) A))))"

definition application_build :: "application \<Rightarrow> expansion run" where
  "application_build A =
     each (\<lambda>(target, replace). ex_substitute target replace) (rev (ap_substitutions A)) (ap_expansion A)"

end
