(* ===== verification/Veri_Reachability.thy ===== *)
theory Veri_Reachability
  imports Trie_Builder
begin

text \<open>
  \<^verbatim>\<open>veri/src/reachability.rs\<close>: the terms a term's rules refer to, directly or through the rules of
  other terms. The search is shown to return the transitive closure of the direct references.
\<close>

section \<open>The search\<close>

fun binding_used_term :: "binding \<Rightarrow> term_id option" where
  "binding_used_term (BConstructor t _ _) = Some t"
| "binding_used_term (BExtractor t _) = Some t"
| "binding_used_term _ = None"

text \<open>A \<^verbatim>\<open>HashSet\<close>, in the order it is iterated in.\<close>

definition used_terms :: "rule_set \<Rightarrow> term_id list" where
  "used_terms R = remdups (List.map_filter binding_used_term (rs_bindings R))"

fun push_used :: "term_id list \<Rightarrow> term_id set \<Rightarrow> term_id list \<Rightarrow> term_id set \<times> term_id list" where
  "push_used [] reached stack = (reached, stack)"
| "push_used (u # us) reached stack =
     (if u \<in> reached then push_used us reached stack else push_used us (insert u reached) (u # stack))"

lemma push_used_set: "fst (push_used us reached stack) = reached \<union> set us"
  by (induction us reached stack rule: push_used.induct) auto

lemma push_used_stack:
  "set (snd (push_used us reached stack)) = set stack \<union> (set us - reached)"
  by (induction us reached stack rule: push_used.induct) auto

lemma push_used_length:
  "length (snd (push_used us reached stack)) = length stack + card (set us - reached)"
proof (induction us reached stack rule: push_used.induct)
  case (2 u us reached stack)
  have "u \<notin> reached \<Longrightarrow> set (u # us) - reached = insert u (set us - insert u reached)" by auto
  then show ?case using 2 by (auto simp: insert_Diff_if)
qed simp

abbreviation all_used :: "(term_id, rule_set) hashmap \<Rightarrow> term_id set" where
  "all_used sets \<equiv> (\<Union>(t, R)\<in>set sets. set (used_terms R))"

text \<open>The head of the stack is its top. A term that is found for the first time is stacked once.\<close>

function search_loop :: "(term_id, rule_set) hashmap \<Rightarrow> term_id list \<Rightarrow> term_id set \<Rightarrow> term_id set" where
  "search_loop sets [] reached = reached"
| "search_loop sets (t # stack) reached =
     (case hm_get sets t of
        None \<Rightarrow> search_loop sets stack reached
      | Some R \<Rightarrow> let (reached, stack) = push_used (used_terms R) reached stack in search_loop sets stack reached)"
  by pat_completeness auto

termination
proof (relation "measure (\<lambda>(sets, stack, reached). length stack + card (all_used sets - reached))")
  fix sets :: "(term_id, rule_set) hashmap" and t stack reached R p reached' stack'
  assume get: "hm_get sets t = Some R" and p: "p = push_used (used_terms R) reached stack" "(reached', stack') = p"
  then have p': "reached' = fst (push_used (used_terms R) reached stack)" "stack' = snd (push_used (used_terms R) reached stack)"
    by (metis fst_conv, metis snd_conv)
  have sub: "set (used_terms R) \<subseteq> all_used sets" using map_of_SomeD [OF get] by force
  have fin: "finite (all_used sets - reached')" "finite (set (used_terms R) - reached)" by auto
  have r: "reached' = reached \<union> set (used_terms R)" "length stack' = length stack + card (set (used_terms R) - reached)"
    by (simp_all add: p' push_used_set push_used_length)
  have "all_used sets - reached = (all_used sets - reached') \<union> (set (used_terms R) - reached)" using sub r(1) by auto
  then have "card (all_used sets - reached) = card (all_used sets - reached') + card (set (used_terms R) - reached)"
    using card_Un_disjoint [OF fin] r(1) by auto
  then show "((sets, stack', reached'), sets, t # stack, reached) \<in> measure (\<lambda>(sets, stack, reached). length stack + card (all_used sets - reached))"
    by (simp add: r(2))
qed auto

definition search :: "term_id \<Rightarrow> (term_id, rule_set) hashmap \<Rightarrow> term_id set" where
  "search source sets = search_loop sets [source] {}"

type_synonym reachability = "(term_id, term_id set) hashmap"

definition reachability_build :: "(term_id, rule_set) hashmap \<Rightarrow> reachability" where
  "reachability_build sets = foldl (\<lambda>m t. hm_insert t (search t sets) m) [] (map fst sets)"

text \<open>Indexing with a term that has no rules panics.\<close>

definition reachable :: "reachability \<Rightarrow> term_id \<Rightarrow> term_id set run" where
  "reachable m source = (case hm_get m source of None \<Rightarrow> Some Panic | Some ts \<Rightarrow> Some (Ok ts))"

definition is_cyclic :: "reachability \<Rightarrow> term_id \<Rightarrow> bool run" where
  "is_cyclic m t = after (reachable m t) (\<lambda>ts. Some (Ok (t \<in> ts)))"

section \<open>The search is exact\<close>

definition uses :: "(term_id, rule_set) hashmap \<Rightarrow> (term_id \<times> term_id) set" where
  "uses sets = {(t, u). \<exists>R. hm_get sets t = Some R \<and> u \<in> set (used_terms R)}"

lemma uses_image: "uses sets `` {t} = (case hm_get sets t of None \<Rightarrow> {} | Some R \<Rightarrow> set (used_terms R))"
  by (auto simp: uses_def split: option.splits)

lemma search_loop_sound: "search_loop sets stack reached \<subseteq> reached \<union> (uses sets)\<^sup>+ `` set stack"
proof (induction sets stack reached rule: search_loop.induct)
  case (2 sets t stack reached)
  show ?case
  proof (cases "hm_get sets t")
    case (Some R)
    let ?p = "push_used (used_terms R) reached stack"
    have used: "set (used_terms R) \<subseteq> (uses sets)\<^sup>+ `` {t}" using Some by (auto simp: uses_def)
    then have "(uses sets)\<^sup>+ `` set (used_terms R) \<subseteq> (uses sets)\<^sup>+ `` {t}" by (auto intro: trancl_trans)
    then have "(uses sets)\<^sup>+ `` set (snd ?p) \<subseteq> (uses sets)\<^sup>+ `` set (t # stack)" by (auto simp: push_used_stack)
    moreover have "fst ?p \<subseteq> reached \<union> (uses sets)\<^sup>+ `` set (t # stack)" using used by (auto simp: push_used_set)
    moreover have "search_loop sets (snd ?p) (fst ?p) \<subseteq> fst ?p \<union> (uses sets)\<^sup>+ `` set (snd ?p)"
      using 2(2) [OF Some refl prod.collapse] .
    ultimately have "search_loop sets (snd ?p) (fst ?p) \<subseteq> reached \<union> (uses sets)\<^sup>+ `` set (t # stack)" by blast
    then show ?thesis using Some by (simp add: case_prod_unfold Let_def)
  qed (use 2(1) in auto)
qed simp

lemma search_loop_closed:
  "(\<And>x. x \<in> reached \<Longrightarrow> x \<notin> set stack \<Longrightarrow> uses sets `` {x} \<subseteq> reached) \<Longrightarrow>
     reached \<subseteq> search_loop sets stack reached \<and>
     (\<forall>x\<in>search_loop sets stack reached \<union> set stack. uses sets `` {x} \<subseteq> search_loop sets stack reached)"
proof (induction sets stack reached rule: search_loop.induct)
  case (2 sets t stack reached)
  show ?case
  proof (cases "hm_get sets t")
    case None
    then have "uses sets `` {t} = {}" by (simp add: uses_image)
    then show ?thesis using 2(1) [OF None] 2(3) None by auto
  next
    case (Some R)
    let ?p = "push_used (used_terms R) reached stack"
    have t: "uses sets `` {t} = set (used_terms R)" using Some by (simp add: uses_image)
    have "uses sets `` {x} \<subseteq> fst ?p" if "x \<in> fst ?p" "x \<notin> set (snd ?p)" for x
      using that 2(3) [of x] t by (cases "x = t") (auto simp: push_used_set push_used_stack)
    from 2(2) [OF Some refl prod.collapse this] show ?thesis
      using Some t by (auto simp: case_prod_unfold Let_def push_used_set push_used_stack)
  qed
qed auto

lemma search_exact: "search source sets = (uses sets)\<^sup>+ `` {source}"
proof
  show "search source sets \<subseteq> (uses sets)\<^sup>+ `` {source}"
    using search_loop_sound [of sets "[source]" "{}"] unfolding search_def by simp
  have step: "uses sets `` {x} \<subseteq> search source sets" if "x \<in> search source sets \<union> {source}" for x
    using search_loop_closed [of "{}" "[source]" sets] that unfolding search_def by auto
  have "(source, u) \<in> (uses sets)\<^sup>+ \<Longrightarrow> u \<in> search source sets" for u
    by (induction rule: trancl_induct) (use step in auto)
  then show "(uses sets)\<^sup>+ `` {source} \<subseteq> search source sets" by auto
qed

lemma reachability_build_get:
  "hm_get (reachability_build sets) t = (if hm_get sets t = None then None else Some (search t sets))"
proof -
  have "hm_get (foldl (\<lambda>m t. hm_insert t (search t sets) m) m ts) t =
      (if t \<in> set ts then Some (search t sets) else hm_get m t)" for m ts
    by (induction ts arbitrary: m) auto
  then show ?thesis by (simp add: reachability_build_def map_of_eq_None_iff)
qed

text \<open>
  C34. The reachability search is exact: for a term with rules it returns the terms that can be reached
  from it over one or more references between rule sets, and the term is cyclic if it is one of
  them.
\<close>

theorem is_cyclic_exact:
  assumes "hm_get sets t \<noteq> None"
  shows "reachable (reachability_build sets) t = Some (Ok {u. (t, u) \<in> (uses sets)\<^sup>+}) \<and>
    is_cyclic (reachability_build sets) t = Some (Ok ((t, t) \<in> (uses sets)\<^sup>+))"
  using assms by (auto simp: reachable_def is_cyclic_def reachability_build_get search_exact)

theorem is_cyclic_exact_witness:
  "is_cyclic (reachability_build [(2, \<lparr>rs_rules = [], rs_bindings = [BArgument 0, BConstructor 3 [0] 0], rs_map = []\<rparr>),
      (3, \<lparr>rs_rules = [], rs_bindings = [BArgument 0, BExtractor 2 0], rs_map = []\<rparr>)]) 2 = Some (Ok True)"
proof -
  let ?sets = "[(2, \<lparr>rs_rules = [], rs_bindings = [BArgument 0, BConstructor 3 [0] 0], rs_map = []\<rparr>),
      (3, \<lparr>rs_rules = [], rs_bindings = [BArgument 0, BExtractor 2 0], rs_map = []\<rparr>)]"
  have "(2, 3) \<in> uses ?sets" "(3, 2) \<in> uses ?sets" by (simp_all add: uses_def used_terms_def List.map_filter_simps)
  then have "(2, 2) \<in> (uses ?sets)\<^sup>+" by (rule trancl_into_trancl [OF r_into_trancl])
  then show ?thesis using is_cyclic_exact [of ?sets 2] by simp
qed

end
