(* ===== verification/Veri_Expander.thy ===== *)
theory Veri_Expander
  imports Veri_Expansion Veri_Reachability
begin

text \<open>
  The expander of \<^verbatim>\<open>veri/src/expand.rs\<close>, with the parts of \<^verbatim>\<open>veri/src/program.rs\<close> it consults: which
  terms are chained, and the work list of expansions under construction.
\<close>

section \<open>Programs\<close>

text \<open>
  What the expander reads of \<^verbatim>\<open>Program\<close>: the terms and their names, the terms that have a
  specification or the chain attribute, the rules whose priority is significant, and for each rule
  the overlapping rules of higher priority.
\<close>

record program =
  p_terms :: "sema_term list"
  p_syms :: "string list"
  p_sym_map :: "(string, sym) hashmap"
  p_term_map :: "(sym, term_id) hashmap"
  p_specified :: "term_id set"
  p_chain :: "term_id set"
  p_priority :: "rule_id set"
  p_overlaps :: "(rule_id, rule_id set) hashmap"

definition prog_term :: "program \<Rightarrow> term_id \<Rightarrow> sema_term run" where
  "prog_term P t = (if t < length (p_terms P) then Some (Ok (p_terms P ! t)) else Some Panic)"

definition intern :: "program \<Rightarrow> string \<Rightarrow> sym option" where
  "intern P name = hm_get (p_sym_map P) name"

definition get_term_by_name :: "program \<Rightarrow> string \<Rightarrow> term_id option" where
  "get_term_by_name P name = Option.bind (intern P name) (hm_get (p_term_map P))"

definition has_spec :: "program \<Rightarrow> term_id \<Rightarrow> bool" where
  "has_spec P t \<longleftrightarrow> t \<in> p_specified P"

definition note_overlap :: "trie_rule \<Rightarrow> (rule_id, rule_id set) hashmap \<Rightarrow> trie_rule \<Rightarrow> (rule_id, rule_id set) hashmap" where
  "note_overlap rule m other =
     (if prio other \<le> prio rule then m
      else if may_overlap rule other = No then m
      else hm_insert (rule_id rule)
        (insert (rule_id other) (case hm_get m (rule_id rule) of None \<Rightarrow> {} | Some s \<Rightarrow> s)) m)"

definition build_overlaps :: "(term_id \<times> rule_set) list \<Rightarrow> (rule_id, rule_id set) hashmap" where
  "build_overlaps sets =
     foldl (\<lambda>m (t, R). foldl (\<lambda>m rule. foldl (note_overlap rule) m (rs_rules R)) m (rs_rules R)) [] sets"

section \<open>Chaining\<close>

record chaining =
  ch_prog :: program
  ch_sets :: "(term_id, rule_set) hashmap"
  ch_reach :: reachability
  ch_exclude :: "term_id set"
  ch_include :: "term_id set"
  ch_macros :: bool
  ch_max_rules :: nat
  ch_default :: bool

definition chaining_new :: "program \<Rightarrow> (term_id, rule_set) hashmap \<Rightarrow> chaining" where
  "chaining_new P sets = \<lparr>ch_prog = P, ch_sets = sets, ch_reach = reachability_build sets,
     ch_exclude = {}, ch_include = {}, ch_macros = True, ch_max_rules = 0, ch_default = False\<rparr>"

text \<open>An error is the name that is unknown.\<close>

definition chain_term :: "string \<Rightarrow> chaining \<Rightarrow> (string, chaining) outcome" where
  "chain_term name C =
     (case get_term_by_name (ch_prog C) name of
        None \<Rightarrow> Err name
      | Some t \<Rightarrow> Ok (C\<lparr>ch_include := insert t (ch_include C)\<rparr>))"

fun chain_terms :: "string list \<Rightarrow> chaining \<Rightarrow> (string, chaining) outcome" where
  "chain_terms [] C = Ok C"
| "chain_terms (name # names) C = oc_bind (chain_term name C) (chain_terms names)"

definition chain_macros :: "bool \<Rightarrow> chaining \<Rightarrow> chaining" where
  "chain_macros enabled C = C\<lparr>ch_macros := enabled\<rparr>"

definition set_max_rules :: "nat \<Rightarrow> chaining \<Rightarrow> chaining" where
  "set_max_rules n C = C\<lparr>ch_max_rules := n\<rparr>"

definition exclude_chain_term :: "string \<Rightarrow> chaining \<Rightarrow> (string, chaining) outcome" where
  "exclude_chain_term name C =
     (case get_term_by_name (ch_prog C) name of
        None \<Rightarrow> Err name
      | Some t \<Rightarrow> Ok (C\<lparr>ch_exclude := insert t (ch_exclude C)\<rparr>))"

fun exclude_chain_terms :: "string list \<Rightarrow> chaining \<Rightarrow> (string, chaining) outcome" where
  "exclude_chain_terms [] C = Ok C"
| "exclude_chain_terms (name # names) C = oc_bind (exclude_chain_term name C) (exclude_chain_terms names)"

definition set_default :: "bool \<Rightarrow> chaining \<Rightarrow> chaining" where
  "set_default enabled C = C\<lparr>ch_default := enabled\<rparr>"

definition num_rules :: "chaining \<Rightarrow> term_id \<Rightarrow> nat" where
  "num_rules C t = (case hm_get (ch_sets C) t of None \<Rightarrow> 0 | Some R \<Rightarrow> length (rs_rules R))"

text \<open>The first of the rules is looked at only if there is just one.\<close>

definition is_macro :: "chaining \<Rightarrow> term_id \<Rightarrow> bool" where
  "is_macro C t \<longleftrightarrow>
     (case hm_get (ch_sets C) t of
        None \<Rightarrow> False
      | Some R \<Rightarrow> (case rs_rules R of [rule] \<Rightarrow> total_constraints rule = 0 | _ \<Rightarrow> False))"

definition is_expandable :: "chaining \<Rightarrow> term_id \<Rightarrow> bool run" where
  "is_expandable C t =
     after (prog_term (ch_prog C) t) (\<lambda>td.
     Some (Ok (has_internal_constructor td \<and> num_rules C t \<noteq> 0)))"

definition is_chainable :: "chaining \<Rightarrow> term_id \<Rightarrow> bool run" where
  "is_chainable C t =
     after (is_expandable C t) (\<lambda>expandable.
       if \<not> expandable then Some (Ok False)
       else after (is_cyclic (ch_reach C) t) (\<lambda>cyclic. Some (Ok (\<not> cyclic))))"

definition has_chain_attribute :: "chaining \<Rightarrow> term_id \<Rightarrow> bool" where
  "has_chain_attribute C t \<longleftrightarrow> t \<in> p_chain (ch_prog C)"

text \<open>The result is the first term with the chain attribute that is not chainable, if there is one.\<close>

fun validate_terms :: "chaining \<Rightarrow> term_id list \<Rightarrow> term_id option run" where
  "validate_terms C [] = Some (Ok None)"
| "validate_terms C (t # ts) =
     (if has_chain_attribute C t
      then after (is_chainable C t) (\<lambda>chainable. if chainable then validate_terms C ts else Some (Ok (Some t)))
      else validate_terms C ts)"

definition chaining_validate :: "chaining \<Rightarrow> term_id option run" where
  "chaining_validate C = validate_terms C [0..<length (p_terms (ch_prog C))]"

text \<open>The conditions that remain once a term is known to be chainable.\<close>

definition chain_policy :: "chaining \<Rightarrow> term_id \<Rightarrow> bool" where
  "chain_policy C t \<longleftrightarrow>
     (if has_spec (ch_prog C) t then False
      else if t \<in> ch_exclude C then False
      else if t \<in> ch_include C then True
      else if t \<in> p_chain (ch_prog C) then True
      else if ch_macros C \<and> is_macro C t then True
      else if ch_max_rules C > 0 \<and> num_rules C t > ch_max_rules C then False
      else ch_default C)"

definition should_chain :: "chaining \<Rightarrow> term_id \<Rightarrow> bool run" where
  "should_chain C t =
     after (is_chainable C t) (\<lambda>chainable. Some (Ok (chainable \<and> chain_policy C t)))"

section \<open>The expander\<close>

record partial =
  pa_expansion :: expansion
  pa_candidates :: "binding_id list"

text \<open>The stack of expansions is a list with its top at the head; so is the stack of candidates.\<close>

record expander =
  x_prog :: program
  x_sets :: "(term_id, rule_set) hashmap"
  x_chaining :: chaining
  x_prune :: bool
  x_stack :: "partial list"
  x_roots :: "term_id set"
  x_complete :: "expansion list"

definition expander_new :: "program \<Rightarrow> (term_id, rule_set) hashmap \<Rightarrow> chaining \<Rightarrow> expander" where
  "expander_new P sets C = \<lparr>x_prog = P, x_sets = sets, x_chaining = C, x_prune = True,
     x_stack = [], x_roots = {}, x_complete = []\<rparr>"

definition set_prune_infeasible :: "bool \<Rightarrow> expander \<Rightarrow> expander" where
  "set_prune_infeasible enabled S = S\<lparr>x_prune := enabled\<rparr>"

text \<open>The expansion a root starts from: the arguments, and a call of the term with them.\<close>

definition root_expansion :: "term_id \<Rightarrow> nat \<Rightarrow> expansion" where
  "root_expansion t n = \<lparr>ex_term = t, ex_rules = [], ex_negated = [],
     ex_bindings = map (\<lambda>i. Some (BArgument i)) [0..<n] @ [Some (BConstructor t [0..<n] 0)],
     ex_constraints = [], ex_equals = [], ex_parameters = [0..<n], ex_result = n\<rparr>"

definition push_constructor :: "term_id \<Rightarrow> expander \<Rightarrow> expander run" where
  "push_constructor t S =
     after (prog_term (x_prog S) t) (\<lambda>td.
     if \<not> has_constructor td then Some Panic
     else (case constructor_sig td (p_syms (x_prog S)) of
             Ok (Some sig) \<Rightarrow>
               let n = length (param_tys sig); X = root_expansion t n in
               if n \<le> 256
               then after (is_feasible X) (\<lambda>feasible.
                    if feasible
                    then Some (Ok (S\<lparr>x_stack := \<lparr>pa_expansion = X, pa_candidates = [n]\<rparr> # x_stack S\<rparr>))
                    else Some Panic)
               else Some Panic
           | _ \<Rightarrow> Some Panic))"

definition add_root :: "term_id \<Rightarrow> expander \<Rightarrow> expander run" where
  "add_root t S =
     (if t \<in> x_roots S then Some (Ok S)
      else after (push_constructor t S) (\<lambda>S. Some (Ok (S\<lparr>x_roots := insert t (x_roots S)\<rparr>))))"

text \<open>The outer result is an error for an unknown name.\<close>

definition add_root_term_name :: "string \<Rightarrow> expander \<Rightarrow> (string, expander) outcome option" where
  "add_root_term_name name S =
     (case get_term_by_name (x_prog S) name of
        None \<Rightarrow> Some (Err name)
      | Some t \<Rightarrow> (case add_root t S of None \<Rightarrow> None | Some (Ok S) \<Rightarrow> Some (Ok S) | Some _ \<Rightarrow> Some Panic))"

definition cascade :: "binding_id \<times> term_id \<Rightarrow> expander \<Rightarrow> expander run" where
  "cascade c S =
     after (is_expandable (x_chaining S) (snd c)) (\<lambda>expandable. if expandable then add_root (snd c) S else Some (Ok S))"

definition finish :: "expansion \<Rightarrow> expander \<Rightarrow> expander run" where
  "finish X S =
     after (each cascade (constructor_bindings X) S) (\<lambda>S.
     after (expansion_validate X) (\<lambda>_.
     Some (Ok (S\<lparr>x_complete := x_complete S @ [X]\<rparr>))))"

text \<open>Candidates are found in the order of the bindings, and the last one found is taken first.\<close>

fun filter_chained :: "chaining \<Rightarrow> (binding_id \<times> term_id) list \<Rightarrow> binding_id list \<Rightarrow> binding_id list run" where
  "filter_chained C [] found = Some (Ok found)"
| "filter_chained C ((i, t) # cs) found =
     after (should_chain C t) (\<lambda>chain. filter_chained C cs (if chain then i # found else found))"

definition find_candidates :: "expander \<Rightarrow> expansion \<Rightarrow> binding_id list run" where
  "find_candidates S X = filter_chained (x_chaining S) (constructor_bindings X) []"

definition is_negated :: "program \<Rightarrow> trie_rule \<Rightarrow> trie_rule \<Rightarrow> bool" where
  "is_negated P rule other \<longleftrightarrow>
     (case hm_get (p_overlaps P) (rule_id rule) of
        None \<Rightarrow> False
      | Some overlaps \<Rightarrow> rule_id other \<in> p_priority P \<and> rule_id other \<in> overlaps)"

definition apply_negations :: "program \<Rightarrow> rule_set \<Rightarrow> trie_rule \<Rightarrow> application \<Rightarrow> application run" where
  "apply_negations P R rule A =
     each (\<lambda>other A. if is_negated P rule other then apply_negation R other A else Some (Ok A)) (rev (rs_rules R)) A"

text \<open>One turn of the loop over the rules of the chained term.\<close>

definition chain_rule ::
  "rule_set \<Rightarrow> expansion \<Rightarrow> binding_id list \<Rightarrow> binding_id \<Rightarrow> binding_id list \<Rightarrow> trie_rule \<Rightarrow> expander \<Rightarrow> expander run" where
  "chain_rule R X params call_site candidates rule S =
     after (apply_rule R rule params call_site (application_new X)) (\<lambda>A.
     after (apply_negations (x_prog S) R rule A) (\<lambda>A.
     after (application_build A) (\<lambda>chained.
     after (if x_prune S then is_feasible chained else Some (Ok True)) (\<lambda>keep.
     Some (Ok (if keep then S\<lparr>x_stack := \<lparr>pa_expansion = chained, pa_candidates = candidates\<rparr> # x_stack S\<rparr> else S))))))"

definition chain_call :: "expansion \<Rightarrow> binding_id \<Rightarrow> binding_id list \<Rightarrow> expander \<Rightarrow> expander run" where
  "chain_call X call_site candidates S =
     (case ex_binding X call_site of
        Some (BConstructor t params _) \<Rightarrow>
          (case hm_get (x_sets S) t of
             None \<Rightarrow> Some Panic
           | Some R \<Rightarrow>
               if rs_rules R = [] then Some Panic
               else each (chain_rule R X params call_site candidates) (rev (rs_rules R)) S)
      | _ \<Rightarrow> Some Panic)"

definition extend :: "partial \<Rightarrow> expander \<Rightarrow> expander run" where
  "extend partial S =
     (let X = pa_expansion partial in
      after (if pa_candidates partial \<noteq> [] then Some (Ok (pa_candidates partial)) else find_candidates S X) (\<lambda>candidates.
      case candidates of
        [] \<Rightarrow> finish X S
      | call_site # candidates \<Rightarrow> chain_call X call_site candidates S))"

partial_function (option) expand :: "expander \<Rightarrow> expander run" where
  "expand S =
     (case x_stack S of
        [] \<Rightarrow> Some (Ok S)
      | partial # stack \<Rightarrow> after (extend partial (S\<lparr>x_stack := stack\<rparr>)) (\<lambda>S. expand S))"

end
