(* ===== verification/Veri_Import.thy ===== *)
theory Veri_Import
  imports Veri_Expander
begin

text \<open>
  Applying a rule to an expansion, as a locale: a property that every single import, match,
  equality and substitution keeps is a property of the whole application. It is interpreted on the
  shape of the expansion here, and on its meaning in the theory that shows what expansions cover.
\<close>

section \<open>Renaming\<close>

fun rename :: "(binding_id \<Rightarrow> binding_id) \<Rightarrow> binding \<Rightarrow> binding" where
  "rename f (BExtractor t p) = BExtractor t (f p)"
| "rename f (BConstructor t ps n) = BConstructor t (map f ps) n"
| "rename f (BIterator s) = BIterator (f s)"
| "rename f (BMakeVariant ty variant xs) = BMakeVariant ty variant (map f xs)"
| "rename f (BMatchVariant s variant k) = BMatchVariant (f s) variant k"
| "rename f (BMakeSome s) = BMakeSome (f s)"
| "rename f (BMatchSome s) = BMatchSome (f s)"
| "rename f (BMatchTuple s k) = BMatchTuple (f s) k"
| "rename f b = b"

lemma rename_simps [simp]:
  "binding_sources (rename f b) = map f (binding_sources b)"
  "binding_used_term (rename f b) = binding_used_term b"
  "rename f b = BArgument k \<longleftrightarrow> b = BArgument k"
  by (cases b; auto)+

lemma reindex_binding_ends: "ends (reindex_binding to b) (\<lambda>b'. b' = rename (reindex_id to) b)"
  by (cases b) auto

lemma reindex_bindings_ends:
  "ends (reindex_bindings to bs) (\<lambda>bs'. bs' = map (map_option (rename (reindex_id to))) bs)"
proof (induction to bs rule: reindex_bindings.induct)
  case (2 to bs)
  then show ?case unfolding reindex_bindings.simps by (rule ends_after) simp
next
  case (3 to b bs)
  show ?case
    unfolding reindex_bindings.simps
    by (rule ends_after [OF reindex_binding_ends], rule ends_after [OF 3]) simp
qed simp

lemma import_binding_ends:
  "ends (import_binding i b A) (\<lambda>A'. length (ex_bindings (ap_expansion A)) < 65536 \<and>
     A' = A\<lparr>ap_expansion := (ap_expansion A)\<lparr>ex_bindings := ex_bindings (ap_expansion A) @ [Some (rename (reindex_id (ap_reindex A)) b)]\<rparr>,
       ap_reindex := hm_insert i (length (ex_bindings (ap_expansion A))) (ap_reindex A)\<rparr>)"
  unfolding import_binding_def
  by (rule ends_after [OF reindex_binding_ends]) (simp add: push_binding_def Let_def)

lemma ex_substitute_ends:
  "ends (ex_substitute target replace X) (\<lambda>X'. target < length (ex_bindings X) \<and>
     X' = X\<lparr>ex_bindings := (map (map_option (rename (reindex_id [(target, replace)]))) (ex_bindings X))[target := None],
       ex_constraints := map (constrain_substitute [(target, replace)]) (ex_constraints X),
       ex_result := reindex_id [(target, replace)] (ex_result X)\<rparr>)"
  unfolding ex_substitute_def Let_def
  by (rule ends_after [OF reindex_bindings_ends]) simp

section \<open>Importing bindings\<close>

definition widens :: "application \<Rightarrow> application \<Rightarrow> bool" where
  "widens A A' \<longleftrightarrow> (\<forall>i j. hm_get (ap_reindex A) i = Some j \<longrightarrow> hm_get (ap_reindex A') i = Some j) \<and>
     set (ap_substitutions A) \<subseteq> set (ap_substitutions A')"

lemma widens_refl [simp]: "widens A A"
  by (simp add: widens_def)

lemma widens_trans: "widens A B \<Longrightarrow> widens B C \<Longrightarrow> widens A C"
  by (auto simp: widens_def)

lemma widens_simps [simp]:
  "widens A (with_expansion f B) = widens A B" "widens (with_expansion f A) B = widens A B"
  by (simp_all add: widens_def with_expansion_def)

lemma widens_push: "widens A B \<Longrightarrow> widens A (push_substitution t r B)"
  by (auto simp: widens_def push_substitution_def)

lemma widens_mapped: "widens A A' \<Longrightarrow> is_mapped (ap_reindex A) i \<Longrightarrow> is_mapped (ap_reindex A') i"
  by (auto simp: widens_def is_mapped_def)

lemma add_bindings_Nil [simp]: "add_bindings R [] A = Some (Ok A)"
  by (subst add_bindings.simps) simp

lemma add_bindings_Cons:
  "add_bindings R (i # todo) A =
     (if is_mapped (ap_reindex A) i then add_bindings R todo A
      else if i < length (rs_bindings R)
      then after (add_bindings R (binding_sources (rs_bindings R ! i)) A) (\<lambda>A.
           after (import_binding i (rs_bindings R ! i) A) (add_bindings R todo))
      else Some Panic)"
  by (subst add_bindings.simps) simp

locale import_invariant =
  fixes R :: rule_set and N :: "binding_id set" and I :: "application \<Rightarrow> bool"
  assumes table: "I A \<Longrightarrow> table_ok R"
    and closed: "I A \<Longrightarrow> i \<in> N \<Longrightarrow> i < length (rs_bindings R) \<Longrightarrow> set (binding_sources (rs_bindings R ! i)) \<subseteq> N"
    and import: "I A \<Longrightarrow> i \<in> N \<Longrightarrow> i < length (rs_bindings R) \<Longrightarrow> \<not> is_mapped (ap_reindex A) i \<Longrightarrow>
      \<forall>s\<in>set (binding_sources (rs_bindings R ! i)). is_mapped (ap_reindex A) s \<Longrightarrow>
      ends (import_binding i (rs_bindings R ! i) A) I"
begin

lemma import_step:
  assumes "I A" "i \<in> N" "i < length (rs_bindings R)" "\<not> is_mapped (ap_reindex A) i"
    and "\<forall>s\<in>set (binding_sources (rs_bindings R ! i)). is_mapped (ap_reindex A) s"
  shows "ends (import_binding i (rs_bindings R ! i) A) (\<lambda>A'. I A' \<and> widens A A' \<and> is_mapped (ap_reindex A') i \<and>
    (\<forall>k. is_mapped (ap_reindex A') k \<longrightarrow> k = i \<or> is_mapped (ap_reindex A) k))"
  using ends_conj [OF import [OF assms] import_binding_ends [of i "rs_bindings R ! i" A]]
  by (rule ends_weaken) (use assms(4) in \<open>auto simp: widens_def is_mapped_def\<close>)

text \<open>Sources come before the bindings that use them, so the recursion ends and maps nothing above.\<close>

lemma add_bindings_below:
  "set todo \<subseteq> N \<Longrightarrow> \<forall>i\<in>set todo. i < n \<Longrightarrow> I A \<Longrightarrow>
     ends (add_bindings R todo A) (\<lambda>A'. I A' \<and> widens A A' \<and> (\<forall>i\<in>set todo. is_mapped (ap_reindex A') i) \<and>
       (\<forall>i\<ge>n. is_mapped (ap_reindex A') i \<longrightarrow> is_mapped (ap_reindex A) i))"
proof (induction n arbitrary: todo A rule: less_induct)
  case (less n)
  note outer = less.IH
  show ?case using less.prems
  proof (induction todo arbitrary: A)
    case (Cons i todo)
    let ?s = "binding_sources (rs_bindings R ! i)"
    let ?Q = "\<lambda>A'. I A' \<and> widens A A' \<and> (\<forall>i\<in>set (i # todo). is_mapped (ap_reindex A') i) \<and>
      (\<forall>i\<ge>n. is_mapped (ap_reindex A') i \<longrightarrow> is_mapped (ap_reindex A) i)"
    consider "is_mapped (ap_reindex A) i" | "\<not> is_mapped (ap_reindex A) i" "i < length (rs_bindings R)"
      | "\<not> is_mapped (ap_reindex A) i" "\<not> i < length (rs_bindings R)" by blast
    then show ?case
    proof cases
      case 1
      then show ?thesis
        using Cons.IH [of A] Cons.prems by (auto simp: add_bindings_Cons widens_mapped elim!: ends_weaken)
    next
      case 2
      have s: "set ?s \<subseteq> N" "\<forall>s\<in>set ?s. s < i" using closed [OF Cons.prems(3), of i] 2 Cons.prems(1) table [OF Cons.prems(3)] by (auto simp: table_ok_def)
      have "ends (after (add_bindings R ?s A) (\<lambda>A. after (import_binding i (rs_bindings R ! i) A) (add_bindings R todo))) ?Q"
      proof (rule ends_after [OF outer [OF _ s Cons.prems(3)]])
        show "i < n" using Cons.prems(2) by simp
        fix B assume B: "I B \<and> widens A B \<and> (\<forall>i\<in>set ?s. is_mapped (ap_reindex B) i) \<and>
          (\<forall>k\<ge>i. is_mapped (ap_reindex B) k \<longrightarrow> is_mapped (ap_reindex A) k)"
        show "ends (after (import_binding i (rs_bindings R ! i) B) (add_bindings R todo)) ?Q"
        proof (rule ends_after [OF import_step])
          show "I B" "\<forall>s\<in>set ?s. is_mapped (ap_reindex B) s" "\<not> is_mapped (ap_reindex B) i" "i \<in> N" "i < length (rs_bindings R)"
            using B 2 Cons.prems(1) by auto
          fix C assume C: "I C \<and> widens B C \<and> is_mapped (ap_reindex C) i \<and>
            (\<forall>k. is_mapped (ap_reindex C) k \<longrightarrow> k = i \<or> is_mapped (ap_reindex B) k)"
          have "ends (add_bindings R todo C) (\<lambda>A'. I A' \<and> widens C A' \<and> (\<forall>i\<in>set todo. is_mapped (ap_reindex A') i) \<and>
              (\<forall>i\<ge>n. is_mapped (ap_reindex A') i \<longrightarrow> is_mapped (ap_reindex C) i))"
            using Cons.IH [of C] Cons.prems C by simp
          then show "ends (add_bindings R todo C) ?Q"
          proof (rule ends_weaken)
            fix D assume D: "I D \<and> widens C D \<and> (\<forall>i\<in>set todo. is_mapped (ap_reindex D) i) \<and>
              (\<forall>i\<ge>n. is_mapped (ap_reindex D) i \<longrightarrow> is_mapped (ap_reindex C) i)"
            have "widens A D" using B C D by (meson widens_trans)
            moreover have "is_mapped (ap_reindex A) k" if k: "k \<ge> n" "is_mapped (ap_reindex D) k" for k
            proof -
              have "i < k" using Cons.prems(2) k(1) by simp
              moreover have "is_mapped (ap_reindex C) k" using D k by simp
              ultimately have "is_mapped (ap_reindex B) k" using C by auto
              then show ?thesis using B \<open>i < k\<close> by simp
            qed
            moreover have "is_mapped (ap_reindex D) i" using C D widens_mapped by blast
            ultimately show "?Q D" using D by simp
          qed
        qed
      qed
      then show ?thesis using 2 by (simp add: add_bindings_Cons)
    qed (simp add: add_bindings_Cons)
  qed simp
qed

lemma add_binding_ends:
  assumes "i \<in> N" "I A"
  shows "ends (add_binding R i A) (\<lambda>(j, A'). I A' \<and> widens A A' \<and> hm_get (ap_reindex A') i = Some j)"
  unfolding add_binding_def
  by (rule ends_after [OF add_bindings_below [of "[i]" "Suc i"]])
    (use assms in \<open>auto simp: is_mapped_def reindex_id_def split: option.splits\<close>)

end

section \<open>Applying a rule\<close>

text \<open>The argument \<open>k\<close> has been imported and will be replaced by the parameter of the call.\<close>

definition substituted :: "rule_set \<Rightarrow> binding_id list \<Rightarrow> nat \<Rightarrow> application \<Rightarrow> bool" where
  "substituted R params k A \<longleftrightarrow> (\<exists>b j. find_binding R (BArgument k) = Some b \<and> hm_get (ap_reindex A) b = Some j \<and>
     (j, params ! k) \<in> set (ap_substitutions A))"

lemma substituted_widens: "substituted R params k A \<Longrightarrow> widens A A' \<Longrightarrow> substituted R params k A'"
  unfolding substituted_def widens_def by blast

locale rule_invariant = import_invariant R N I for R :: rule_set and N :: "binding_id set" and I :: "application \<Rightarrow> bool" +
  fixes r :: trie_rule and params :: "binding_id list" and call_site :: binding_id and others :: "trie_rule \<Rightarrow> bool"
  assumes equals_ok: "I A \<Longrightarrow> forest_ok (equals r)"
    and needs_argument: "I A \<Longrightarrow> k < length params \<Longrightarrow> find_binding R (BArgument k) = Some b \<Longrightarrow> b \<in> N"
    and needs_constraint: "I A \<Longrightarrow> get_constraint r i = Some c \<Longrightarrow> i \<in> N"
    and needs_equal: "I A \<Longrightarrow> root (equals r) i e \<Longrightarrow> i \<in> N \<and> e \<in> N"
    and needs_impure: "I A \<Longrightarrow> i \<in> set (impure r) \<Longrightarrow> i \<in> N"
    and needs_result: "I A \<Longrightarrow> result r \<in> N"
    and needs_negated: "I A \<Longrightarrow> others other \<Longrightarrow> get_constraint other i = Some c \<Longrightarrow> i \<in> N"
    and forest: "I A \<Longrightarrow> forest_ok (ex_equals (ap_expansion A))"
    and recorded: "I A \<Longrightarrow> I (with_expansion (\<lambda>X. X\<lparr>ex_rules := ex_rules X @ [n]\<rparr>) A)"
    and recorded_negated: "I A \<Longrightarrow> I (with_expansion (\<lambda>X. X\<lparr>ex_negated := ex_negated X @ [n]\<rparr>) A)"
    and argued: "I A \<Longrightarrow> k < length params \<Longrightarrow> find_binding R (BArgument k) = Some b \<Longrightarrow> hm_get (ap_reindex A) b = Some j \<Longrightarrow>
      I (push_substitution j (params ! k) A)"
    and matched: "I A \<Longrightarrow> get_constraint r i = Some c \<Longrightarrow> hm_get (ap_reindex A) i = Some j \<Longrightarrow> I (with_expansion (add_match j c) A)"
    and merged: "I A \<Longrightarrow> root (equals r) i e \<Longrightarrow> e \<noteq> i \<Longrightarrow> hm_get (ap_reindex A) i = Some x \<Longrightarrow> hm_get (ap_reindex A) e = Some y \<Longrightarrow>
      x \<noteq> y \<Longrightarrow> merge (ex_equals (ap_expansion A)) x y = Some (Ok m) \<Longrightarrow> I (with_expansion (\<lambda>X. X\<lparr>ex_equals := m\<rparr>) A)"
    and resulted: "I A \<Longrightarrow> hm_get (ap_reindex A) (result r) = Some j \<Longrightarrow> I (push_substitution call_site j A)"
    and negated: "I A \<Longrightarrow> others other \<Longrightarrow>
      \<forall>c\<in>set cs. \<exists>i j c'. c = Match j c' \<and> get_constraint other i = Some c' \<and> hm_get (ap_reindex A) i = Some j \<Longrightarrow>
      \<forall>i<length (rs_bindings R). \<forall>c. get_constraint other i = Some c \<longrightarrow> (\<exists>j. hm_get (ap_reindex A) i = Some j \<and> Match j c \<in> set cs) \<Longrightarrow>
      I (with_expansion (add_constrain (NotAll cs)) A)"
begin

abbreviation keeps :: "application \<Rightarrow> application \<Rightarrow> bool" where
  "keeps A A' \<equiv> I A' \<and> widens A A'"

lemma rule_argument_ends:
  assumes "I A" "k < length params"
  shows "ends (rule_argument R (k, params ! k) A) (\<lambda>A'. keeps A A' \<and> substituted R params k A')"
proof (cases "k < 256 \<and> find_binding R (BArgument k) \<noteq> None")
  case True
  then obtain b where b: "find_binding R (BArgument k) = Some b" by auto
  have "ends (after (add_binding R b A) (\<lambda>(j, A). Some (Ok (push_substitution j (params ! k) A))))
    (\<lambda>A'. keeps A A' \<and> substituted R params k A')"
  proof (rule ends_after2 [OF add_binding_ends [OF needs_argument [OF assms(1,2) b] assms(1)]])
    fix j A' assume A': "I A' \<and> widens A A' \<and> hm_get (ap_reindex A') b = Some j"
    then have "I (push_substitution j (params ! k) A')" using argued assms(2) b by blast
    moreover have "substituted R params k (push_substitution j (params ! k) A')"
      using A' b by (auto simp: substituted_def push_substitution_def)
    ultimately show "ends (Some (Ok (push_substitution j (params ! k) A'))) (\<lambda>A'. keeps A A' \<and> substituted R params k A')"
      using A' by (simp add: widens_push)
  qed
  then show ?thesis using True b by (simp add: rule_argument_def)
next
  case False
  then show ?thesis by (auto simp: rule_argument_def)
qed

lemma rule_arguments_ends:
  assumes "I A"
  shows "ends (each (rule_argument R) (zip [0..<length params] params) A) (\<lambda>A'. keeps A A' \<and> (\<forall>k<length params. substituted R params k A'))"
proof -
  let ?l = "zip [0..<length params] params"
  have "ends (each (rule_argument R) ?l A) (\<lambda>A'. keeps A A' \<and> (\<forall>k<length ?l. substituted R params k A'))"
  proof (rule ends_each_prefix)
    fix ys x zs s
    assume l: "?l = ys @ x # zs" and s: "keeps A s \<and> (\<forall>k<length ys. substituted R params k s)"
    have len: "length ys < length params" using arg_cong [OF l, of length] by simp
    have "x = ?l ! length ys" by (simp add: l)
    then have x: "x = (length ys, params ! length ys)" using len by simp
    have "ends (rule_argument R x s) (\<lambda>A'. keeps s A' \<and> substituted R params (length ys) A')"
      unfolding x using rule_argument_ends len s by blast
    then show "ends (rule_argument R x s) (\<lambda>A'. keeps A A' \<and> (\<forall>k<length (ys @ [x]). substituted R params k A'))"
      by (rule ends_weaken) (use s in \<open>auto simp: less_Suc_eq intro: widens_trans substituted_widens\<close>)
  qed (use assms in simp)
  then show ?thesis by simp
qed

lemma each_keeps:
  assumes "\<And>x A. x \<in> set xs \<Longrightarrow> I A \<Longrightarrow> ends (f x A) (keeps A)" "I A"
  shows "ends (each f xs A) (keeps A)"
proof (rule ends_each)
  fix x s assume "x \<in> set xs" "keeps A s"
  then show "ends (f x s) (keeps A)" by (intro ends_weaken [OF assms(1)]) (auto intro: widens_trans)
qed (use assms in simp)

lemma rule_constraint_ends:
  assumes "I A"
  shows "ends (rule_constraint R r i A) (keeps A)"
proof (cases "get_constraint r i")
  case (Some c)
  have "ends (after (add_binding R i A) (\<lambda>(j, A). Some (Ok (with_expansion (add_match j c) A)))) (keeps A)"
    by (rule ends_after2 [OF add_binding_ends [OF needs_constraint [OF assms Some] assms]]) (simp add: matched [OF _ Some])
  then show ?thesis using Some by (simp add: rule_constraint_def)
qed (simp add: rule_constraint_def assms)

lemma rule_equal_merge:
  assumes "I A" "root (equals r) i e" "e \<noteq> i"
  shows "ends (after (add_binding R i A) (\<lambda>(x, A). after (add_binding R e A) (\<lambda>(y, A).
    after (merge (ex_equals (ap_expansion A)) x y) (\<lambda>m. Some (Ok (with_expansion (\<lambda>X. X\<lparr>ex_equals := m\<rparr>) A)))))) (keeps A)"
proof (rule ends_after2 [OF add_binding_ends], use needs_equal assms in blast, use assms in blast,
    rule ends_after2 [OF add_binding_ends], use needs_equal assms in blast, blast)
  fix x B y C
  assume B: "I B \<and> widens A B \<and> hm_get (ap_reindex B) i = Some x"
    and C: "I C \<and> widens B C \<and> hm_get (ap_reindex C) e = Some y"
  then have get: "hm_get (ap_reindex C) i = Some x" "hm_get (ap_reindex C) e = Some y" "widens A C" "I C"
    by (auto simp: widens_def)
  show "ends (after (merge (ex_equals (ap_expansion C)) x y) (\<lambda>m. Some (Ok (with_expansion (\<lambda>X. X\<lparr>ex_equals := m\<rparr>) C)))) (keeps A)"
  proof (cases "x = y")
    case True
    then show ?thesis by (simp add: merge_def)
  next
    case False
    obtain m where "merge (ex_equals (ap_expansion C)) x y = Some (Ok m)" using merge_same [OF forest [OF get(4)] False] by blast
    then show ?thesis using merged [OF get(4) assms(2,3) get(1,2) False] get(3) by simp
  qed
qed

lemma rule_equal_ends:
  assumes "I A"
  shows "ends (rule_equal R r i A) (keeps A)"
proof -
  obtain e where e: "find_root (equals r) i = Some e" "case e of None \<Rightarrow> True | Some s \<Rightarrow> root (equals r) i s"
    using find_mut_ok [OF equals_ok [OF assms], of i] by (auto split: option.splits)
  show ?thesis
  proof (cases "e = None \<or> e = Some i")
    case True
    then show ?thesis using e(1) assms by (auto simp: rule_equal_def)
  next
    case False
    then obtain s where "e = Some s" "s \<noteq> i" by auto
    then show ?thesis using rule_equal_merge [OF assms, of i s] e by (simp add: rule_equal_def)
  qed
qed

lemma rule_impure_ends: "I A \<Longrightarrow> i \<in> set (impure r) \<Longrightarrow> ends (rule_impure R i A) (keeps A)"
  unfolding rule_impure_def by (rule ends_after2 [OF add_binding_ends [OF needs_impure]]) auto

lemma rule_result_ends:
  assumes "I A"
  shows "ends (rule_result R r call_site A) (\<lambda>A'. keeps A A' \<and>
    (\<exists>j. hm_get (ap_reindex A') (result r) = Some j \<and> (call_site, j) \<in> set (ap_substitutions A')))"
  unfolding rule_result_def
proof (rule ends_after2 [OF add_binding_ends [OF needs_result [OF assms] assms]])
  fix j A' assume A': "I A' \<and> widens A A' \<and> hm_get (ap_reindex A') (result r) = Some j"
  then have "I (push_substitution call_site j A')" using resulted by blast
  then show "ends (Some (Ok (push_substitution call_site j A'))) (\<lambda>A'. keeps A A' \<and>
    (\<exists>j. hm_get (ap_reindex A') (result r) = Some j \<and> (call_site, j) \<in> set (ap_substitutions A')))"
    using A' by (auto simp: widens_push) (auto simp: push_substitution_def)
qed

definition ruled :: "application \<Rightarrow> bool" where
  "ruled A \<longleftrightarrow> I A \<and> (\<forall>k<length params. substituted R params k A) \<and> (\<exists>j. (call_site, j) \<in> set (ap_substitutions A))"

lemma ruled_widens: "ruled A \<Longrightarrow> keeps A A' \<Longrightarrow> ruled A'"
  using substituted_widens unfolding ruled_def widens_def by blast

lemma apply_rule_ends:
  assumes "I A"
  shows "ends (apply_rule R r params call_site A) ruled"
  unfolding apply_rule_def Let_def
proof (rule ends_after [OF rule_arguments_ends [OF recorded [OF assms]]])
  let ?ids = "[0..<length (rs_bindings R)]" and ?args = "\<lambda>A. \<forall>k<length params. substituted R params k A"
  fix B assume B: "keeps (with_expansion (\<lambda>X. X\<lparr>ex_rules := ex_rules X @ [rule_id r]\<rparr>) A) B \<and> ?args B"
  show "ends (after (each (rule_constraint R r) ?ids B) (\<lambda>A. after (each (rule_equal R r) ?ids A)
    (\<lambda>A. after (each (rule_impure R) (impure r) A) (rule_result R r call_site)))) ruled"
  proof (rule ends_after [OF each_keeps [OF rule_constraint_ends conjunct1 [OF conjunct1 [OF B]]]])
    fix C assume C: "keeps B C"
    show "ends (after (each (rule_equal R r) ?ids C) (\<lambda>A. after (each (rule_impure R) (impure r) A) (rule_result R r call_site))) ruled"
    proof (rule ends_after [OF each_keeps [OF rule_equal_ends conjunct1 [OF C]]])
      fix D assume D: "keeps C D"
      show "ends (after (each (rule_impure R) (impure r) D) (rule_result R r call_site)) ruled"
      proof (rule ends_after [OF each_keeps [OF rule_impure_ends conjunct1 [OF D]]])
        fix E assume E: "keeps D E"
        have "widens B E" using C D E by (meson widens_trans)
        then have args: "?args E" using B substituted_widens by blast
        show "ends (rule_result R r call_site E) ruled"
          by (rule ends_weaken [OF rule_result_ends [OF conjunct1 [OF E]]]) (use args substituted_widens in \<open>auto simp: ruled_def\<close>)
      qed
    qed
  qed
qed

definition listed_match :: "trie_rule \<Rightarrow> application \<Rightarrow> constrain \<Rightarrow> bool" where
  "listed_match other A c \<longleftrightarrow> (\<exists>i j c'. c = Match j c' \<and> get_constraint other i = Some c' \<and> hm_get (ap_reindex A) i = Some j)"

lemma listed_match_widens: "listed_match other A c \<Longrightarrow> widens A A' \<Longrightarrow> listed_match other A' c"
  unfolding listed_match_def widens_def by blast

lemma negated_constraints_ends:
  assumes "others other"
  shows "I A \<Longrightarrow> ends (negated_constraints R other is A) (\<lambda>(cs, A'). keeps A A' \<and> (\<forall>c\<in>set cs. listed_match other A' c) \<and>
    (\<forall>i\<in>set is. \<forall>c. get_constraint other i = Some c \<longrightarrow> (\<exists>j. hm_get (ap_reindex A') i = Some j \<and> Match j c \<in> set cs)))"
proof (induction "is" arbitrary: A)
  case (Cons i "is")
  let ?Q = "\<lambda>is A cs A'. keeps A A' \<and> (\<forall>c\<in>set cs. listed_match other A' c) \<and>
    (\<forall>i\<in>set is. \<forall>c. get_constraint other i = Some c \<longrightarrow> (\<exists>j. hm_get (ap_reindex A') i = Some j \<and> Match j c \<in> set cs))"
  show ?case
  proof (cases "get_constraint other i")
    case None
    then show ?thesis using Cons.IH [OF Cons.prems] by (auto elim!: ends_weaken2)
  next
    case (Some c)
    have "ends (after (add_binding R i A) (\<lambda>(j, A). after (negated_constraints R other is A) (\<lambda>(cs, A). Some (Ok (Match j c # cs, A)))))
      (\<lambda>(cs, A'). ?Q (i # is) A cs A')"
    proof (rule ends_after2 [OF add_binding_ends [OF needs_negated [OF Cons.prems assms Some] Cons.prems]])
      fix j B assume B: "I B \<and> widens A B \<and> hm_get (ap_reindex B) i = Some j"
      show "ends (after (negated_constraints R other is B) (\<lambda>(cs, A). Some (Ok (Match j c # cs, A)))) (\<lambda>(cs, A'). ?Q (i # is) A cs A')"
      proof (rule ends_after2 [OF Cons.IH [OF conjunct1 [OF B]]])
        fix cs C assume C: "?Q is B cs C"
        have i: "hm_get (ap_reindex C) i = Some j" using B C by (simp add: widens_def)
        then have "listed_match other C (Match j c)" using Some by (auto simp: listed_match_def)
        moreover have "widens A C" using B C widens_trans by blast
        moreover have "\<exists>j'. hm_get (ap_reindex C) k = Some j' \<and> Match j' c' \<in> set (Match j c # cs)"
          if "k \<in> set (i # is)" "get_constraint other k = Some c'" for k c'
          using that C i Some by (cases "k = i") fastforce+
        ultimately show "ends (Some (Ok (Match j c # cs, C))) (\<lambda>(cs, A'). ?Q (i # is) A cs A')"
          using C by simp
      qed
    qed
    then show ?thesis using Some by simp
  qed
qed simp

lemma apply_negation_ends:
  assumes "others other" "I A"
  shows "ends (apply_negation R other A) (keeps A)"
  unfolding apply_negation_def Let_def
proof (rule ends_after2 [OF negated_constraints_ends [OF assms(1) recorded_negated [OF assms(2)]]])
  fix cs B
  assume B: "keeps (with_expansion (\<lambda>X. X\<lparr>ex_negated := ex_negated X @ [rule_id other]\<rparr>) A) B \<and>
    (\<forall>c\<in>set cs. listed_match other B c) \<and>
    (\<forall>i\<in>set [0..<length (rs_bindings R)]. \<forall>c. get_constraint other i = Some c \<longrightarrow>
       (\<exists>j. hm_get (ap_reindex B) i = Some j \<and> Match j c \<in> set cs))"
  then have "I (with_expansion (add_constrain (NotAll cs)) B)" using negated [OF _ assms(1)] by (simp add: listed_match_def)
  then show "ends (Some (Ok (with_expansion (add_constrain (NotAll cs)) B))) (keeps A)" using B by simp
qed

lemma apply_negations_ends:
  assumes "\<And>other. other \<in> set (rs_rules R) \<Longrightarrow> is_negated P r other \<Longrightarrow> others other" "ruled A"
  shows "ends (apply_negations P R r A) ruled"
proof -
  have "ends (apply_negations P R r A) (keeps A)"
    unfolding apply_negations_def
    by (rule each_keeps) (use assms apply_negation_ends in \<open>auto simp: ruled_def\<close>)
  then show ?thesis by (rule ends_weaken) (rule ruled_widens [OF assms(2)])
qed

end

section \<open>The shape of an expansion\<close>

text \<open>All references are to positions of the table of bindings.\<close>

definition ranged :: "expansion \<Rightarrow> bool" where
  "ranged X \<longleftrightarrow> (\<forall>b. Some b \<in> set (ex_bindings X) \<longrightarrow> (\<forall>s\<in>set (binding_sources b). s < length (ex_bindings X))) \<and>
     (\<forall>c\<in>set (ex_constraints X). \<forall>i\<in>set (constrain_bindings c). i < length (ex_bindings X)) \<and>
     (\<forall>i\<in>items (ex_equals X). i < length (ex_bindings X)) \<and> forest_ok (ex_equals X) \<and> ex_result X < length (ex_bindings X)"

text \<open>Importing leaves the old bindings as they are and adds renamed bindings of the rule set.\<close>

definition shaped :: "rule_set \<Rightarrow> trie_rule \<Rightarrow> expansion \<Rightarrow> binding_id list \<Rightarrow> binding_id \<Rightarrow> application \<Rightarrow> bool" where
  "shaped R r X params call_site A \<longleftrightarrow> table_ok R \<and> forest_ok (equals r) \<and>
     (\<forall>p\<in>set (call_site # params). p < length (ex_bindings X)) \<and>
     ranged (ap_expansion A) \<and> ex_term (ap_expansion A) = ex_term X \<and> ex_parameters (ap_expansion A) = ex_parameters X \<and>
     prefix (ex_bindings X) (ex_bindings (ap_expansion A)) \<and>
     (\<forall>j<length (ex_bindings (ap_expansion A)). length (ex_bindings X) \<le> j \<longrightarrow>
        (\<exists>i f. hm_get (ap_reindex A) i = Some j \<and> i < length (rs_bindings R) \<and>
           ex_bindings (ap_expansion A) ! j = Some (rename f (rs_bindings R ! i)))) \<and>
     (\<forall>i j. hm_get (ap_reindex A) i = Some j \<longrightarrow> length (ex_bindings X) \<le> j \<and> j < length (ex_bindings (ap_expansion A))) \<and>
     (\<forall>(t, u)\<in>set (ap_substitutions A). t < length (ex_bindings (ap_expansion A)) \<and> u < length (ex_bindings (ap_expansion A)))"

lemma ranged_push:
  assumes "ranged X" "\<forall>s\<in>set (binding_sources b). s < length (ex_bindings X)"
  shows "ranged (X\<lparr>ex_bindings := ex_bindings X @ [Some b]\<rparr>)"
  using assms unfolding ranged_def by (auto intro: less_SucI)

lemma ranged_constrain:
  "ranged X \<Longrightarrow> \<forall>i\<in>set (constrain_bindings c). i < length (ex_bindings X) \<Longrightarrow> ranged (add_constrain c X)"
  by (auto simp: ranged_def add_constrain_def)

lemma ranged_merge:
  assumes "ranged X" "x < length (ex_bindings X)" "y < length (ex_bindings X)" "x \<noteq> y" "merge (ex_equals X) x y = Some (Ok m)"
  shows "ranged (X\<lparr>ex_equals := m\<rparr>)"
proof -
  have "forest_ok (ex_equals X)" using assms(1) by (simp add: ranged_def)
  from merge_same [OF this assms(4)] assms(5) have "forest_ok m" "items m = insert x (insert y (items (ex_equals X)))" by auto
  then show ?thesis using assms(1-3) by (auto simp: ranged_def)
qed

lemma shaped_import:
  assumes "shaped R r X params call_site A" "i < length (rs_bindings R)" "\<not> is_mapped (ap_reindex A) i"
    and "\<forall>s\<in>set (binding_sources (rs_bindings R ! i)). is_mapped (ap_reindex A) s"
  shows "ends (import_binding i (rs_bindings R ! i) A) (shaped R r X params call_site)"
proof (rule ends_weaken [OF import_binding_ends])
  let ?E = "ap_expansion A" and ?b = "rename (reindex_id (ap_reindex A)) (rs_bindings R ! i)" and ?n = "length (ex_bindings X)"
  let ?E' = "?E\<lparr>ex_bindings := ex_bindings ?E @ [Some ?b]\<rparr>" and ?to = "hm_insert i (length (ex_bindings ?E)) (ap_reindex A)"
  fix A' assume A': "length (ex_bindings ?E) < 65536 \<and> A' = A\<lparr>ap_expansion := ?E', ap_reindex := ?to\<rparr>"
  have to: "hm_get (ap_reindex A) k = Some j \<Longrightarrow> ?n \<le> j \<and> j < length (ex_bindings ?E)" for k j
    using assms(1) by (simp add: shaped_def)
  have "\<forall>s\<in>set (binding_sources ?b). s < length (ex_bindings ?E)"
    using assms(4) to by (auto simp: is_mapped_def reindex_id_def)
  then have "ranged ?E'" using assms(1) by (intro ranged_push) (auto simp: shaped_def)
  moreover have "\<exists>k f. hm_get ?to k = Some j \<and> k < length (rs_bindings R) \<and> ex_bindings ?E' ! j = Some (rename f (rs_bindings R ! k))"
    if j: "j < length (ex_bindings ?E')" "?n \<le> j" for j
  proof (cases "j = length (ex_bindings ?E)")
    case True
    then show ?thesis using assms(2) by (intro exI [of _ i]) auto
  next
    case False
    then have "j < length (ex_bindings ?E)" using j(1) by simp
    then obtain k f where k: "hm_get (ap_reindex A) k = Some j" "k < length (rs_bindings R)"
        "ex_bindings ?E ! j = Some (rename f (rs_bindings R ! k))" using assms(1) j(2) unfolding shaped_def by blast
    moreover have "k \<noteq> i" using k(1) assms(3) by (auto simp: is_mapped_def)
    ultimately show ?thesis using \<open>j < length (ex_bindings ?E)\<close> by (intro exI [of _ k] exI [of _ f]) (simp add: nth_append)
  qed
  moreover have "?n \<le> length (ex_bindings ?E)" using assms(1) by (auto simp: shaped_def prefix_def)
  ultimately show "shaped R r X params call_site A'"
    using assms(1) A' to unfolding shaped_def by (auto intro: less_SucI split: if_splits)
qed

lemma negated_ranged:
  assumes "shaped R r X params call_site A"
    and "\<forall>c\<in>set cs. \<exists>i j c'. c = Match j c' \<and> get_constraint other i = Some c' \<and> hm_get (ap_reindex A) i = Some j"
  shows "\<forall>i\<in>set (constrain_bindings (NotAll cs)). i < length (ex_bindings (ap_expansion A))"
proof
  fix i assume "i \<in> set (constrain_bindings (NotAll cs))"
  then obtain c where "c \<in> set cs" "i \<in> set (constrain_bindings c)" by auto
  then obtain k c' where "hm_get (ap_reindex A) k = Some i" using assms(2) by fastforce
  then show "i < length (ex_bindings (ap_expansion A))" using assms(1) by (simp add: shaped_def)
qed

lemma shaped_push:
  "shaped R r X params call_site A \<Longrightarrow> t < length (ex_bindings (ap_expansion A)) \<Longrightarrow> u < length (ex_bindings (ap_expansion A)) \<Longrightarrow>
     shaped R r X params call_site (push_substitution t u A)"
  by (auto simp: shaped_def push_substitution_def)

lemma shaped_with:
  assumes "shaped R r X params call_site A" "ranged (f (ap_expansion A))"
    and "ex_bindings (f (ap_expansion A)) = ex_bindings (ap_expansion A)"
    and "ex_term (f (ap_expansion A)) = ex_term (ap_expansion A)" "ex_parameters (f (ap_expansion A)) = ex_parameters (ap_expansion A)"
  shows "shaped R r X params call_site (with_expansion f A)"
  using assms unfolding shaped_def with_expansion_def by simp

lemma shapedD:
  assumes "shaped R r X params call_site A"
  shows "ranged (ap_expansion A)" "hm_get (ap_reindex A) i = Some j \<Longrightarrow> j < length (ex_bindings (ap_expansion A))"
    "p \<in> set (call_site # params) \<Longrightarrow> p < length (ex_bindings (ap_expansion A))"
  using assms by (auto simp: shaped_def prefix_def)

interpretation shape: rule_invariant R UNIV "shaped R r X params call_site" r params call_site "\<lambda>_. True"
  for R r X params call_site
proof (unfold_locales, goal_cases)
  case (3 A i)
  then show ?case by (intro shaped_import) auto
next
  case (12 A n)
  then show ?case by (rule shaped_with) (use shapedD(1) [OF 12] in \<open>auto simp: ranged_def\<close>)
next
  case (13 A n)
  then show ?case by (rule shaped_with) (use shapedD(1) [OF 13] in \<open>auto simp: ranged_def\<close>)
next
  case (14 A k b j)
  then show ?case by (intro shaped_push) (auto intro: shapedD)
next
  case (15 A i c j)
  have "ranged (add_match j c (ap_expansion A))"
    unfolding add_match_def using shapedD(1,2) [OF 15(1)] 15(3) by (intro ranged_constrain) auto
  with 15(1) show ?case by (rule shaped_with) (simp_all add: add_match_def add_constrain_def)
next
  case (16 A i e x y m)
  have "ranged ((ap_expansion A)\<lparr>ex_equals := m\<rparr>)"
    by (rule ranged_merge [OF shapedD(1) [OF 16(1)] shapedD(2) [OF 16(1,4)] shapedD(2) [OF 16(1,5)] 16(6,7)])
  with 16(1) show ?case by (rule shaped_with) simp_all
next
  case (17 A j)
  then show ?case by (intro shaped_push) (auto intro: shapedD)
next
  case (18 A other cs)
  have "ranged (add_constrain (NotAll cs) (ap_expansion A))"
    using shapedD(1) [OF 18(1)] negated_ranged [OF 18(1,3)] by (rule ranged_constrain)
  with 18(1) show ?case by (rule shaped_with) (simp_all add: add_constrain_def)
qed (auto simp: shaped_def ranged_def)

end
