(* ===== verification/Veri_Expand_Ends.thy ===== *)
theory Veri_Expand_Ends
  imports Veri_Import "HOL-Library.Multiset_Order"
begin

text \<open>
  The expander comes to an end. Chained terms are not cyclic, so a call that is replaced by a rule
  gives way to calls of terms with fewer reachable terms; a root is started once.
\<close>

section \<open>Building the chained expansion\<close>

lemma rename_comp: "rename f (rename g b) = rename (f \<circ> g) b"
  by (cases b) auto

lemma constrain_bindings_substitute [simp]:
  "constrain_bindings (constrain_substitute to c) = map (reindex_id to) (constrain_bindings c)"
  by (induction c rule: constrain_bindings.induct) (auto simp: map_concat comp_def cong: map_cong)

text \<open>Some bindings have been dropped, the others renamed.\<close>

definition thinned :: "expansion \<Rightarrow> expansion \<Rightarrow> bool" where
  "thinned X X' \<longleftrightarrow> length (ex_bindings X') = length (ex_bindings X) \<and>
     ex_term X' = ex_term X \<and> ex_parameters X' = ex_parameters X \<and>
     (\<forall>j<length (ex_bindings X). \<forall>b'. ex_bindings X' ! j = Some b' \<longrightarrow> (\<exists>f b. ex_bindings X ! j = Some b \<and> b' = rename f b))"

lemma rename_id [simp]: "rename (\<lambda>i. i) b = b"
  by (cases b) auto

lemma thinned_refl [simp]: "thinned X X"
  unfolding thinned_def by (metis rename_id)

lemma thinned_trans: "thinned X Y \<Longrightarrow> thinned Y Z \<Longrightarrow> thinned X Z"
  unfolding thinned_def by (metis rename_comp)

lemma substitute_ends:
  assumes "ranged X" "u < length (ex_bindings X)"
  shows "ends (ex_substitute t u X) (\<lambda>X'. thinned X X' \<and> ranged X' \<and> ex_bindings X' ! t = None \<and>
    (\<forall>j. ex_bindings X ! j = None \<longrightarrow> j < length (ex_bindings X) \<longrightarrow> ex_bindings X' ! j = None))"
proof (rule ends_weaken [OF ex_substitute_ends])
  let ?f = "reindex_id [(t, u)]"
  let ?bs = "(map (map_option (rename ?f)) (ex_bindings X))[t := None]"
  fix X' assume X': "t < length (ex_bindings X) \<and> X' = X\<lparr>ex_bindings := ?bs,
    ex_constraints := map (constrain_substitute [(t, u)]) (ex_constraints X), ex_result := ?f (ex_result X)\<rparr>"
  have f: "s < length (ex_bindings X) \<Longrightarrow> ?f s < length (ex_bindings X)" for s using assms(2) by (simp add: reindex_id_def)
  have old: "\<exists>b. ex_bindings X ! j = Some b \<and> b' = rename ?f b" if "j < length (ex_bindings X)" "?bs ! j = Some b'" for j b'
    using that by (cases "j = t") auto
  then have "\<exists>f b. ex_bindings X ! j = Some b \<and> b' = rename f b" if "j < length (ex_bindings X)" "?bs ! j = Some b'" for j b'
    using that by blast
  then have "thinned X X'" using X' by (simp add: thinned_def)
  moreover have "ranged X'"
  proof -
    have "\<exists>b'. b = rename ?f b' \<and> Some b' \<in> set (ex_bindings X)" if "Some b \<in> set ?bs" for b
    proof -
      from that obtain j where "j < length ?bs" "?bs ! j = Some b" by (auto simp: in_set_conv_nth)
      then show ?thesis using old [of j b] by (metis length_list_update length_map nth_mem)
    qed
    then show ?thesis using assms(1) f X' unfolding ranged_def by (fastforce simp: reindex_id_def)
  qed
  moreover have "ex_bindings X' ! t = None" using X' by simp
  moreover have "ex_bindings X ! j = None \<longrightarrow> j < length (ex_bindings X) \<longrightarrow> ex_bindings X' ! j = None" for j
    using X' by (cases "j = t") auto
  ultimately show "thinned X X' \<and> ranged X' \<and> ex_bindings X' ! t = None \<and>
    (\<forall>j. ex_bindings X ! j = None \<longrightarrow> j < length (ex_bindings X) \<longrightarrow> ex_bindings X' ! j = None)" by blast
qed

lemma application_build_ends:
  assumes "ranged (ap_expansion A)"
    and "\<forall>(t, u)\<in>set (ap_substitutions A). t < length (ex_bindings (ap_expansion A)) \<and> u < length (ex_bindings (ap_expansion A))"
  shows "ends (application_build A) (\<lambda>X'. thinned (ap_expansion A) X' \<and> ranged X' \<and>
    (\<forall>(t, u)\<in>set (ap_substitutions A). ex_bindings X' ! t = None))"
proof -
  let ?E = "ap_expansion A"
  let ?J = "\<lambda>ys X'. thinned ?E X' \<and> ranged X' \<and> (\<forall>(t, u)\<in>set ys. ex_bindings X' ! t = None)"
  have "ends (application_build A) (?J (rev (ap_substitutions A)))"
    unfolding application_build_def
  proof (rule ends_each_prefix)
    fix ys x zs X assume l: "rev (ap_substitutions A) = ys @ x # zs" and X: "?J ys X"
    obtain t u where x: "x = (t, u)" by (cases x)
    have all: "set (ap_substitutions A) = set ys \<union> {(t, u)} \<union> set zs" using arg_cong [OF l, of set] x by auto
    have len: "length (ex_bindings X) = length (ex_bindings ?E)" using X by (simp add: thinned_def)
    then have u: "u < length (ex_bindings X)" using assms(2) all by auto
    have "ends (ex_substitute t u X) (?J (ys @ [(t, u)]))"
    proof (rule ends_weaken [OF substitute_ends [OF conjunct1 [OF conjunct2 [OF X]] u]])
      fix X' assume X': "thinned X X' \<and> ranged X' \<and> ex_bindings X' ! t = None \<and>
        (\<forall>j. ex_bindings X ! j = None \<longrightarrow> j < length (ex_bindings X) \<longrightarrow> ex_bindings X' ! j = None)"
      have "ex_bindings X' ! t' = None" if "(t', u') \<in> set (ys @ [(t, u)])" for t' u'
      proof (cases "(t', u') = (t, u)")
        case False
        then have ys: "(t', u') \<in> set ys" using that by auto
        then have "t' < length (ex_bindings X)" using assms(2) all len by auto
        moreover have "ex_bindings X ! t' = None" using X ys by auto
        ultimately show ?thesis using X' by simp
      qed (use X' in simp)
      moreover have "thinned ?E X'" using X X' thinned_trans by blast
      ultimately show "?J (ys @ [(t, u)]) X'" using X' by blast
    qed
    then show "ends ((case x of (target, replace) \<Rightarrow> ex_substitute target replace) X) (?J (ys @ [x]))" by (simp add: x)
  qed (use assms(1) in simp)
  then show ?thesis by simp
qed

section \<open>One chained rule\<close>

text \<open>What chaining a call makes of an expansion: the call is gone, new bindings are those of the rule set.\<close>

definition child :: "rule_set \<Rightarrow> expansion \<Rightarrow> binding_id \<Rightarrow> expansion \<Rightarrow> bool" where
  "child R X call_site X' \<longleftrightarrow> ranged X' \<and> ex_term X' = ex_term X \<and> ex_parameters X' = ex_parameters X \<and>
     length (ex_bindings X) \<le> length (ex_bindings X') \<and> ex_bindings X' ! call_site = None \<and>
     (\<forall>j<length (ex_bindings X). \<forall>b'. ex_bindings X' ! j = Some b' \<longrightarrow> (\<exists>f b. ex_bindings X ! j = Some b \<and> b' = rename f b)) \<and>
     (\<forall>j<length (ex_bindings X'). \<forall>b'. length (ex_bindings X) \<le> j \<longrightarrow> ex_bindings X' ! j = Some b' \<longrightarrow>
        (\<exists>f. \<exists>i<length (rs_bindings R). b' = rename f (rs_bindings R ! i)))"

lemma childD:
  assumes "child R X call_site X'"
  shows "j < length (ex_bindings X) \<Longrightarrow> ex_bindings X' ! j = Some b' \<Longrightarrow> \<exists>f b. ex_bindings X ! j = Some b \<and> b' = rename f b"
    and "length (ex_bindings X) \<le> j \<Longrightarrow> j < length (ex_bindings X') \<Longrightarrow> ex_bindings X' ! j = Some b' \<Longrightarrow>
      \<exists>f. \<exists>i<length (rs_bindings R). b' = rename f (rs_bindings R ! i)"
  using assms unfolding child_def by blast+

lemma shaped_child:
  assumes "shaped R r X params call_site A" "thinned (ap_expansion A) X'" "ranged X'" "ex_bindings X' ! call_site = None"
  shows "child R X call_site X'"
proof -
  let ?E = "ap_expansion A"
  have len: "length (ex_bindings X') = length (ex_bindings ?E)" "length (ex_bindings X) \<le> length (ex_bindings ?E)"
    using assms(1,2) by (auto simp: thinned_def shaped_def prefix_def)
  have thin: "\<exists>f b. ex_bindings ?E ! j = Some b \<and> b' = rename f b" if "j < length (ex_bindings ?E)" "ex_bindings X' ! j = Some b'" for j b'
    using assms(2) that by (simp add: thinned_def)
  have old: "\<exists>f b. ex_bindings X ! j = Some b \<and> b' = rename f b" if j: "j < length (ex_bindings X)" "ex_bindings X' ! j = Some b'" for j b'
  proof -
    have "ex_bindings ?E ! j = ex_bindings X ! j" using assms(1) j(1) by (auto simp: shaped_def prefix_def nth_append)
    then show ?thesis using thin [of j b'] j len(2) by simp
  qed
  have new: "\<exists>f. \<exists>i<length (rs_bindings R). b' = rename f (rs_bindings R ! i)"
    if j: "j < length (ex_bindings X')" "length (ex_bindings X) \<le> j" "ex_bindings X' ! j = Some b'" for j b'
  proof -
    obtain f b where b: "ex_bindings ?E ! j = Some b" "b' = rename f b" using thin j len(1) by fastforce
    obtain i g where "i < length (rs_bindings R)" "ex_bindings ?E ! j = Some (rename g (rs_bindings R ! i))"
      using assms(1) j(1,2) len(1) unfolding shaped_def by metis
    then show ?thesis using b rename_comp by (metis option.inject)
  qed
  show ?thesis
    unfolding child_def using old new assms(3,4) len assms(1,2) by (simp add: thinned_def shaped_def)
qed

definition call_site_ok :: "rule_set \<Rightarrow> expansion \<Rightarrow> binding_id list \<Rightarrow> binding_id \<Rightarrow> bool" where
  "call_site_ok R X params call_site \<longleftrightarrow> table_ok R \<and> (\<forall>r\<in>set (rs_rules R). forest_ok (equals r)) \<and> ranged X \<and>
     (\<forall>p\<in>set (call_site # params). p < length (ex_bindings X))"

lemma application_new_shaped:
  "call_site_ok R X params call_site \<Longrightarrow> r \<in> set (rs_rules R) \<Longrightarrow> shaped R r X params call_site (application_new X)"
  by (auto simp: call_site_ok_def shaped_def application_new_def)

lemma chained_ends:
  assumes "call_site_ok R X params call_site" "r \<in> set (rs_rules R)"
  shows "ends (after (apply_rule R r params call_site (application_new X)) (\<lambda>A. after (apply_negations P R r A) application_build))
    (child R X call_site)"
proof (rule ends_after [OF shape.apply_rule_ends [OF application_new_shaped [OF assms]]],
    rule ends_after [OF shape.apply_negations_ends], blast, blast)
  fix A assume ruled: "shape.ruled R r X params call_site A"
  then have A: "shaped R r X params call_site A" "\<exists>j. (call_site, j) \<in> set (ap_substitutions A)" by (auto simp: shape.ruled_def)
  show "ends (application_build A) (child R X call_site)"
    by (rule ends_weaken [OF application_build_ends])
      (use A shaped_child in \<open>auto simp: shaped_def\<close>)
qed

section \<open>Calls get smaller\<close>

definition call_of :: "binding option \<Rightarrow> term_id option" where
  "call_of b = (case b of Some (BConstructor t _ _) \<Rightarrow> Some t | _ \<Rightarrow> None)"

lemma call_of_rename [simp]: "call_of (Some (rename f b)) = call_of (Some b)" "call_of None = None"
  by (cases b; simp add: call_of_def)+

lemma call_of_used: "call_of (Some b) = Some t \<Longrightarrow> b \<in> set (rs_bindings R) \<Longrightarrow> t \<in> set (used_terms R)"
  by (cases b) (auto simp: call_of_def used_terms_def map_filter_def split: binding.splits intro!: rev_image_eqI)

text \<open>The configuration belongs to the rule sets.\<close>

definition chaining_ok :: "chaining \<Rightarrow> bool" where
  "chaining_ok C \<longleftrightarrow> ch_reach C = reachability_build (ch_sets C)"

definition is_chained :: "chaining \<Rightarrow> term_id \<Rightarrow> bool" where
  "is_chained C t \<longleftrightarrow> should_chain C t = Some (Ok True)"

lemma chained_acyclic:
  assumes "chaining_ok C" "is_chained C t"
  shows "(t, t) \<notin> (uses (ch_sets C))\<^sup>+"
proof -
  from assms(2) have "is_chainable C t = Some (Ok True)"
    by (auto simp: is_chained_def should_chain_def after_eq_Ok_iff)
  then have "is_cyclic (ch_reach C) t = Some (Ok False)"
    by (auto simp: is_chainable_def after_eq_Ok_iff split: if_splits)
  then have "hm_get (reachability_build (ch_sets C)) t \<noteq> None" "t \<notin> search t (ch_sets C)"
    using assms(1)
    by (auto simp: is_cyclic_def reachable_def chaining_ok_def reachability_build_get after_eq_Ok_iff split: option.splits if_splits)
  then show ?thesis by (simp add: search_exact)
qed

definition rank :: "chaining \<Rightarrow> term_id \<Rightarrow> nat" where
  "rank C t = card ((uses (ch_sets C))\<^sup>+ `` {t})"

abbreviation top_rank :: "chaining \<Rightarrow> nat" where
  "top_rank C \<equiv> Suc (card (all_used (ch_sets C)))"

lemma uses_finite: "(uses sets)\<^sup>+ `` {t} \<subseteq> all_used sets" "finite (all_used sets)"
proof -
  have "(t, u) \<in> (uses sets)\<^sup>+ \<Longrightarrow> u \<in> all_used sets" for u
    by (induction rule: trancl_induct) (auto simp: uses_def dest!: map_of_SomeD)
  then show "(uses sets)\<^sup>+ `` {t} \<subseteq> all_used sets" by auto
qed auto

lemma rank_top: "rank C t < top_rank C"
  unfolding rank_def using card_mono [OF uses_finite(2) uses_finite(1)] by (rule le_imp_less_Suc)

lemma rank_decreases:
  assumes "chaining_ok C" "is_chained C u" "(t, u) \<in> uses (ch_sets C)"
  shows "rank C u < rank C t"
  unfolding rank_def
proof (rule psubset_card_mono)
  show "finite ((uses (ch_sets C))\<^sup>+ `` {t})" using uses_finite by (rule finite_subset)
  have "(uses (ch_sets C))\<^sup>+ `` {u} \<subseteq> (uses (ch_sets C))\<^sup>+ `` {t}" using assms(3) by (auto intro: trancl_into_trancl2)
  moreover have "u \<in> (uses (ch_sets C))\<^sup>+ `` {t} - (uses (ch_sets C))\<^sup>+ `` {u}"
    using assms(3) chained_acyclic [OF assms(1,2)] by auto
  ultimately show "(uses (ch_sets C))\<^sup>+ `` {u} \<subset> (uses (ch_sets C))\<^sup>+ `` {t}" by blast
qed

section \<open>The weight of an expansion\<close>

text \<open>The calls that are or may become candidates, by rank; a candidate that is not chained is a root.\<close>

definition call_weight :: "chaining \<Rightarrow> binding_id set \<Rightarrow> nat \<Rightarrow> binding option \<Rightarrow> nat multiset" where
  "call_weight C cands i b =
     (case call_of b of
        None \<Rightarrow> {#}
      | Some t \<Rightarrow> if is_chained C t then {#rank C t#} else if i \<in> cands then {#top_rank C#} else {#})"

definition calls_weight :: "chaining \<Rightarrow> binding_id set \<Rightarrow> expansion \<Rightarrow> nat multiset" where
  "calls_weight C cands X = (\<Sum>i<length (ex_bindings X). call_weight C cands i (ex_bindings X ! i))"

lemma sum_mset_subseteq: "finite S \<Longrightarrow> (\<And>i. i \<in> S \<Longrightarrow> f i \<subseteq># g i) \<Longrightarrow> sum f S \<subseteq># sum g S"
  by (induction S rule: finite_induct) (auto intro: subset_mset.add_mono)

lemma mem_sum_mset: "finite S \<Longrightarrow> k \<in># sum f S \<longleftrightarrow> (\<exists>i\<in>S. k \<in># f i)"
  by (induction S rule: finite_induct) auto

lemma call_weight_thin:
  "b' = Some (rename f b) \<Longrightarrow> cands' \<subseteq> cands \<Longrightarrow> call_weight C cands' i b' \<subseteq># call_weight C cands i (Some b)"
  by (auto simp: call_weight_def split: option.splits)

lemma child_weight:
  assumes "chaining_ok C" "child R X c X'" "c < length (ex_bindings X)" "call_of (ex_bindings X ! c) = Some t"
    and "hm_get (ch_sets C) t = Some R" "c \<in> cands \<or> is_chained C t" "\<forall>i\<in>cands. i < length (ex_bindings X)" "cands' \<subseteq> cands"
  shows "calls_weight C cands' X' < calls_weight C cands X"
proof -
  let ?n = "length (ex_bindings X)" and ?n' = "length (ex_bindings X')"
  let ?w = "\<lambda>i. call_weight C cands i (ex_bindings X ! i)" and ?w' = "\<lambda>i. call_weight C cands' i (ex_bindings X' ! i)"
  have n: "?n \<le> ?n'" using assms(2) by (simp add: child_def)
  obtain x where x: "?w c = {#x#}" "x = (if is_chained C t then rank C t else top_rank C)"
    using assms(4,6) by (auto simp: call_weight_def)
  have split: "calls_weight C cands' X' = (\<Sum>i<?n. ?w' i) + (\<Sum>i=?n..<?n'. ?w' i)"
    unfolding calls_weight_def using sum.atLeastLessThan_concat [of 0 ?n ?n' ?w'] n by (simp add: atLeast0LessThan)
  have old: "?w' i \<subseteq># ?w i" if "i < ?n" for i
  proof (cases "ex_bindings X' ! i")
    case (Some b')
    then obtain f b where "ex_bindings X ! i = Some b" "b' = rename f b" using childD(1) [OF assms(2) \<open>i < ?n\<close>] by blast
    then show ?thesis using Some call_weight_thin assms(8) by simp
  qed (simp add: call_weight_def)
  have "?w' c = {#}" using assms(2) by (simp add: child_def call_weight_def)
  then have "(\<Sum>i<?n. ?w' i) = (\<Sum>i\<in>{..<?n} - {c}. ?w' i)"
    using sum.remove [of "{..<?n}" c ?w'] assms(3) by simp
  also have "\<dots> \<subseteq># (\<Sum>i\<in>{..<?n} - {c}. ?w i)" using old by (intro sum_mset_subseteq) auto
  finally have rest: "(\<Sum>i<?n. ?w' i) \<subseteq># (\<Sum>i\<in>{..<?n} - {c}. ?w i)" .
  have whole: "calls_weight C cands X = {#x#} + (\<Sum>i\<in>{..<?n} - {c}. ?w i)"
    unfolding calls_weight_def using sum.remove [of "{..<?n}" c ?w] assms(3) x(1) by simp
  have "k < x" if "k \<in># (\<Sum>i=?n..<?n'. ?w' i)" for k
  proof -
    from that obtain i where i: "?n \<le> i" "i < ?n'" "k \<in># ?w' i" by (auto simp: mem_sum_mset)
    then have "i \<notin> cands'" using assms(7,8) by (meson not_le subsetD)
    then obtain u where u: "call_of (ex_bindings X' ! i) = Some u" "is_chained C u" "k = rank C u"
      using i(3) by (auto simp: call_weight_def split: option.splits if_splits)
    then obtain b' where b': "ex_bindings X' ! i = Some b'" by (cases "ex_bindings X' ! i") auto
    then obtain f l where "l < length (rs_bindings R)" "b' = rename f (rs_bindings R ! l)"
      using childD(2) [OF assms(2) i(1,2)] by blast
    then have "u \<in> set (used_terms R)" using u(1) b' call_of_used by simp
    then have "(t, u) \<in> uses (ch_sets C)" using assms(5) by (auto simp: uses_def)
    then show ?thesis using rank_decreases [OF assms(1) u(2)] rank_top u(3) x(2) by simp
  qed
  then have "(\<Sum>i=?n..<?n'. ?w' i) < {#x#}" by (simp add: mset_lt_single_right_iff)
  then have "(\<Sum>i<?n. ?w' i) + (\<Sum>i=?n..<?n'. ?w' i) < (\<Sum>i\<in>{..<?n} - {c}. ?w i) + {#x#}"
    using subset_eq_imp_le_multiset [OF rest] by (rule add_le_less_mono [rotated])
  then show ?thesis unfolding split whole by (simp add: add.commute)
qed

section \<open>The expander\<close>

definition sets_ok :: "(term_id, rule_set) hashmap \<Rightarrow> bool" where
  "sets_ok sets \<longleftrightarrow> (\<forall>t R. hm_get sets t = Some R \<longrightarrow> table_ok R \<and> (\<forall>r\<in>set (rs_rules R). forest_ok (equals r)))"

definition partial_ok :: "partial \<Rightarrow> bool" where
  "partial_ok P \<longleftrightarrow> ranged (pa_expansion P) \<and> (\<forall>i\<in>set (pa_candidates P). i < length (ex_bindings (pa_expansion P)))"

definition expander_ok :: "expander \<Rightarrow> bool" where
  "expander_ok S \<longleftrightarrow> sets_ok (x_sets S) \<and> chaining_ok (x_chaining S) \<and> ch_sets (x_chaining S) = x_sets S \<and>
     (\<forall>P\<in>set (x_stack S). partial_ok P)"

lemma chain_rule_ends:
  assumes "call_site_ok R X params c" "r \<in> set (rs_rules R)"
  shows "ends (chain_rule R X params c cands r S) (\<lambda>S'. S' = S \<or>
    (\<exists>X'. child R X c X' \<and> S' = S\<lparr>x_stack := \<lparr>pa_expansion = X', pa_candidates = cands\<rparr> # x_stack S\<rparr>))"
proof -
  let ?Q = "\<lambda>S'. S' = S \<or> (\<exists>X'. child R X c X' \<and> S' = S\<lparr>x_stack := \<lparr>pa_expansion = X', pa_candidates = cands\<rparr> # x_stack S\<rparr>)"
  let ?chained = "after (apply_rule R r params c (application_new X)) (\<lambda>A. after (apply_negations (x_prog S) R r A) application_build)"
  have feasible: "ends (feasible_loop X' cs) (\<lambda>_. True)" for X' cs
    by (induction X' cs rule: feasible_loop.induct) (auto split: option.splits)
  have "ends (after ?chained (\<lambda>chained. after (if x_prune S then is_feasible chained else Some (Ok True)) (\<lambda>keep.
      Some (Ok (if keep then S\<lparr>x_stack := \<lparr>pa_expansion = chained, pa_candidates = cands\<rparr> # x_stack S\<rparr> else S))))) ?Q"
  proof (rule ends_after [OF chained_ends [OF assms]], rule ends_after [of _ "\<lambda>_. True"])
    fix X'
    show "ends (if x_prune S then is_feasible X' else Some (Ok True)) (\<lambda>_. True)"
      using feasible by (auto simp: is_feasible_def expansion_validate_def)
  qed auto
  then show ?thesis by (simp add: chain_rule_def after_assoc)
qed

lemma chain_rules_ends:
  assumes "call_site_ok R X params c"
  shows "set rs \<subseteq> set (rs_rules R) \<Longrightarrow> ends (each (chain_rule R X params c cands) rs S) (\<lambda>S'. \<exists>new. S' = S\<lparr>x_stack := new @ x_stack S\<rparr> \<and>
    (\<forall>P\<in>set new. pa_candidates P = cands \<and> child R X c (pa_expansion P)))"
proof (induction rs arbitrary: S)
  case Nil
  show ?case by (simp add: exI [of _ "[]"])
next
  case (Cons r rs)
  show ?case
    unfolding each.simps
  proof (rule ends_after [OF chain_rule_ends [OF assms]])
    show "r \<in> set (rs_rules R)" using Cons.prems by simp
    fix S1 assume S1: "S1 = S \<or> (\<exists>X'. child R X c X' \<and> S1 = S\<lparr>x_stack := \<lparr>pa_expansion = X', pa_candidates = cands\<rparr> # x_stack S\<rparr>)"
    have "ends (each (chain_rule R X params c cands) rs S1) (\<lambda>S'. \<exists>new. S' = S1\<lparr>x_stack := new @ x_stack S1\<rparr> \<and>
      (\<forall>P\<in>set new. pa_candidates P = cands \<and> child R X c (pa_expansion P)))" using Cons by simp
    then show "ends (each (chain_rule R X params c cands) rs S1) (\<lambda>S'. \<exists>new. S' = S\<lparr>x_stack := new @ x_stack S\<rparr> \<and>
      (\<forall>P\<in>set new. pa_candidates P = cands \<and> child R X c (pa_expansion P)))"
    proof (rule ends_weaken)
      fix S' assume "\<exists>new. S' = S1\<lparr>x_stack := new @ x_stack S1\<rparr> \<and> (\<forall>P\<in>set new. pa_candidates P = cands \<and> child R X c (pa_expansion P))"
      then obtain new where new: "S' = S1\<lparr>x_stack := new @ x_stack S1\<rparr>" "\<forall>P\<in>set new. pa_candidates P = cands \<and> child R X c (pa_expansion P)" by blast
      from S1 show "\<exists>new. S' = S\<lparr>x_stack := new @ x_stack S\<rparr> \<and> (\<forall>P\<in>set new. pa_candidates P = cands \<and> child R X c (pa_expansion P))"
      proof (elim disjE exE conjE)
        fix X' assume "child R X c X'" "S1 = S\<lparr>x_stack := \<lparr>pa_expansion = X', pa_candidates = cands\<rparr> # x_stack S\<rparr>"
        then show ?thesis using new by (intro exI [of _ "new @ [\<lparr>pa_expansion = X', pa_candidates = cands\<rparr>]"]) auto
      qed (use new in auto)
    qed
  qed
qed

lemma ex_binding_Some: "ex_binding X i = Some b \<longleftrightarrow> i < length (ex_bindings X) \<and> ex_bindings X ! i = Some b"
  by (simp add: ex_binding_def)

lemma chain_call_ends:
  assumes "sets_ok (x_sets S)" "ranged X"
  shows "ends (chain_call X c cands S) (\<lambda>S'. \<exists>t params k R new. ex_binding X c = Some (BConstructor t params k) \<and>
    hm_get (x_sets S) t = Some R \<and> S' = S\<lparr>x_stack := new @ x_stack S\<rparr> \<and>
    (\<forall>P\<in>set new. pa_candidates P = cands \<and> child R X c (pa_expansion P)))"
proof (cases "\<exists>t params k R. ex_binding X c = Some (BConstructor t params k) \<and> hm_get (x_sets S) t = Some R \<and> rs_rules R \<noteq> []")
  case True
  then obtain t params k R where c: "ex_binding X c = Some (BConstructor t params k)" "hm_get (x_sets S) t = Some R" "rs_rules R \<noteq> []" by blast
  have "Some (BConstructor t params k) \<in> set (ex_bindings X)" using c(1) by (auto simp: ex_binding_Some in_set_conv_nth)
  then have "call_site_ok R X params c" using assms c by (fastforce simp: call_site_ok_def sets_ok_def ranged_def ex_binding_Some)
  from chain_rules_ends [OF this, of "rev (rs_rules R)" cands S] show ?thesis
    using c by (auto simp: chain_call_def elim!: ends_weaken)
next
  case False
  then have "chain_call X c cands S = Some Panic" by (auto simp: chain_call_def split: option.splits binding.splits)
  then show ?thesis by simp
qed

section \<open>Roots\<close>

text \<open>What does not change while expanding.\<close>

definition frozen :: "expander \<Rightarrow> expander \<Rightarrow> bool" where
  "frozen S S' \<longleftrightarrow> x_prog S' = x_prog S \<and> x_sets S' = x_sets S \<and> x_chaining S' = x_chaining S \<and> x_prune S' = x_prune S"

lemma frozen_trans: "frozen S S1 \<Longrightarrow> frozen S1 S2 \<Longrightarrow> frozen S S2"
  by (simp add: frozen_def)

lemma root_partial_ok: "partial_ok \<lparr>pa_expansion = root_expansion t n, pa_candidates = [n]\<rparr>"
  by (auto simp: partial_ok_def ranged_def root_expansion_def items_def forest_ok_def)

lemma push_constructor_ends:
  "ends (push_constructor t S) (\<lambda>S'. \<exists>td. prog_term (x_prog S) t = Some (Ok td) \<and>
     S' = S\<lparr>x_stack := \<lparr>pa_expansion = root_expansion t (length (arg_tys td)), pa_candidates = [length (arg_tys td)]\<rparr> # x_stack S\<rparr>)"
proof (cases "t < length (p_terms (x_prog S))")
  case True
  let ?td = "p_terms (x_prog S) ! t"
  have sig: "constructor_sig td syms = Ok (Some sig) \<Longrightarrow> param_tys sig = arg_tys td" for td syms sig
    by (auto simp: constructor_sig_def split: term_kind.splits option.splits outcome.splits prod.splits)
  have "ends (is_feasible (root_expansion t n)) (\<lambda>_. True)" for n
    by (simp add: is_feasible_def expansion_validate_def root_expansion_def)
  then show ?thesis
    using True sig unfolding push_constructor_def prog_term_def Let_def
    by (auto split: outcome.splits option.splits intro!: ends_after)
qed (simp add: push_constructor_def prog_term_def)

lemma add_root_ends:
  "ends (add_root t S) (\<lambda>S'. if t \<in> x_roots S then S' = S else \<exists>td. prog_term (x_prog S) t = Some (Ok td) \<and>
     S' = S\<lparr>x_stack := \<lparr>pa_expansion = root_expansion t (length (arg_tys td)), pa_candidates = [length (arg_tys td)]\<rparr> # x_stack S,
       x_roots := insert t (x_roots S)\<rparr>)"
proof (cases "t \<in> x_roots S")
  case False
  have "ends (after (push_constructor t S) (\<lambda>S. Some (Ok (S\<lparr>x_roots := insert t (x_roots S)\<rparr>)))) (\<lambda>S'.
    \<exists>td. prog_term (x_prog S) t = Some (Ok td) \<and> S' = S\<lparr>x_stack := \<lparr>pa_expansion = root_expansion t (length (arg_tys td)),
       pa_candidates = [length (arg_tys td)]\<rparr> # x_stack S, x_roots := insert t (x_roots S)\<rparr>)"
    by (rule ends_after [OF push_constructor_ends]) auto
  then show ?thesis using False by (simp add: add_root_def)
qed (simp add: add_root_def)

text \<open>Finishing an expansion may add roots; each is a term with rules, and none is added twice.\<close>

definition cascaded :: "expander \<Rightarrow> expander \<Rightarrow> bool" where
  "cascaded S S' \<longleftrightarrow> frozen S S' \<and> x_complete S' = x_complete S \<and> x_roots S \<subseteq> x_roots S' \<and>
     (\<exists>new. x_stack S' = new @ x_stack S \<and> (\<forall>P\<in>set new. partial_ok P)) \<and>
     (S' = S \<or> (\<exists>t\<in>x_roots S' - x_roots S. hm_get (x_sets S) t \<noteq> None))"

lemma cascaded_refl: "cascaded S S"
  by (simp add: cascaded_def frozen_def exI [of _ "[]"])

lemma cascaded_roots: "cascaded S S' \<Longrightarrow> x_roots S \<subseteq> x_roots S'"
  by (simp add: cascaded_def)

lemma cascaded_trans:
  assumes "cascaded S S1" "cascaded S1 S2"
  shows "cascaded S S2"
proof -
  obtain n1 n2 where "x_stack S1 = n1 @ x_stack S" "\<forall>P\<in>set n1. partial_ok P" "x_stack S2 = n2 @ x_stack S1" "\<forall>P\<in>set n2. partial_ok P"
    using assms by (auto simp: cascaded_def)
  then have "\<exists>new. x_stack S2 = new @ x_stack S \<and> (\<forall>P\<in>set new. partial_ok P)" by (intro exI [of _ "n2 @ n1"]) auto
  moreover have "S2 = S \<or> (\<exists>t\<in>x_roots S2 - x_roots S. hm_get (x_sets S) t \<noteq> None)"
  proof (cases "S1 = S")
    case False
    then obtain t where "t \<in> x_roots S1 - x_roots S" "hm_get (x_sets S) t \<noteq> None" using assms(1) by (auto simp: cascaded_def)
    then show ?thesis using cascaded_roots [OF assms(2)] by blast
  qed (use assms(2) in \<open>simp add: cascaded_def\<close>)
  moreover have "frozen S S1" "frozen S1 S2" "x_complete S2 = x_complete S" using assms by (simp_all add: cascaded_def)
  moreover have "x_roots S \<subseteq> x_roots S2" using cascaded_roots [OF assms(1)] cascaded_roots [OF assms(2)] by simp
  ultimately show ?thesis using frozen_trans by (simp add: cascaded_def)
qed

lemma expandable_rules: "is_expandable C t = Some (Ok True) \<Longrightarrow> hm_get (ch_sets C) t \<noteq> None"
  by (auto simp: is_expandable_def num_rules_def after_eq_Ok_iff split: option.splits)

lemma is_expandable_ends: "ends (is_expandable C t) (\<lambda>e. is_expandable C t = Some (Ok e))"
  by (simp add: is_expandable_def prog_term_def)

lemma cascade_ends:
  assumes "ch_sets (x_chaining S) = x_sets S"
  shows "ends (cascade c S) (\<lambda>S'. cascaded S S' \<and>
    (is_expandable (x_chaining S) (snd c) = Some (Ok True) \<longrightarrow> snd c \<in> x_roots S'))"
  unfolding cascade_def
proof (rule ends_after [OF is_expandable_ends])
  fix e assume e: "is_expandable (x_chaining S) (snd c) = Some (Ok e)"
  show "ends (if e then add_root (snd c) S else Some (Ok S)) (\<lambda>S'. cascaded S S' \<and>
    (is_expandable (x_chaining S) (snd c) = Some (Ok True) \<longrightarrow> snd c \<in> x_roots S'))"
  proof (cases e)
    case True
    have "ends (add_root (snd c) S) (\<lambda>S'. cascaded S S' \<and> snd c \<in> x_roots S')"
    proof (rule ends_weaken [OF add_root_ends])
      fix S' assume "if snd c \<in> x_roots S then S' = S else \<exists>td. prog_term (x_prog S) (snd c) = Some (Ok td) \<and>
        S' = S\<lparr>x_stack := \<lparr>pa_expansion = root_expansion (snd c) (length (arg_tys td)), pa_candidates = [length (arg_tys td)]\<rparr> # x_stack S,
          x_roots := insert (snd c) (x_roots S)\<rparr>"
      then show "cascaded S S' \<and> snd c \<in> x_roots S'"
        using root_partial_ok expandable_rules [of "x_chaining S" "snd c"] e True assms
        by (auto simp: cascaded_refl split: if_splits) (auto simp: cascaded_def frozen_def)
    qed
    then show ?thesis using True e by simp
  qed (use e in \<open>simp add: cascaded_refl\<close>)
qed

lemma cascades_ends:
  assumes "ch_sets (x_chaining S) = x_sets S"
  shows "ends (each cascade cs S) (\<lambda>S'. cascaded S S' \<and>
    (\<forall>c\<in>set cs. is_expandable (x_chaining S) (snd c) = Some (Ok True) \<longrightarrow> snd c \<in> x_roots S'))"
proof (rule ends_each_prefix)
  fix ys zs :: "(binding_id \<times> term_id) list" and x S1
  assume S1: "cascaded S S1 \<and> (\<forall>c\<in>set ys. is_expandable (x_chaining S) (snd c) = Some (Ok True) \<longrightarrow> snd c \<in> x_roots S1)"
  then have eq: "x_chaining S1 = x_chaining S" "ch_sets (x_chaining S1) = x_sets S1" using assms by (auto simp: cascaded_def frozen_def)
  show "ends (cascade x S1) (\<lambda>S'. cascaded S S' \<and>
    (\<forall>c\<in>set (ys @ [x]). is_expandable (x_chaining S) (snd c) = Some (Ok True) \<longrightarrow> snd c \<in> x_roots S'))"
  proof (rule ends_weaken [OF cascade_ends [OF eq(2)]])
    fix S2 assume S2: "cascaded S1 S2 \<and> (is_expandable (x_chaining S1) (snd x) = Some (Ok True) \<longrightarrow> snd x \<in> x_roots S2)"
    then have "cascaded S S2" "x_roots S1 \<subseteq> x_roots S2" using S1 cascaded_trans cascaded_roots by blast+
    then show "cascaded S S2 \<and>
      (\<forall>c\<in>set (ys @ [x]). is_expandable (x_chaining S) (snd c) = Some (Ok True) \<longrightarrow> snd c \<in> x_roots S2)"
      using S1 S2 eq(1) by auto
  qed
qed (simp add: cascaded_refl)

section \<open>Termination\<close>

definition partial_weight :: "chaining \<Rightarrow> partial \<Rightarrow> nat multiset" where
  "partial_weight C P = calls_weight C (set (pa_candidates P)) (pa_expansion P)"

definition stack_weight :: "expander \<Rightarrow> nat multiset multiset" where
  "stack_weight S = mset (map (partial_weight (x_chaining S)) (x_stack S))"

definition unrooted :: "expander \<Rightarrow> nat" where
  "unrooted S = card (dom (hm_get (x_sets S)) - x_roots S)"

definition smaller :: "expander \<Rightarrow> expander \<Rightarrow> bool" where
  "smaller S' S \<longleftrightarrow> unrooted S' < unrooted S \<or> unrooted S' = unrooted S \<and> stack_weight S' < stack_weight S"

lemma filter_chained_ends:
  "ends (filter_chained C cs found) (\<lambda>cands. \<forall>i\<in>set cands. i \<in> set found \<or> (\<exists>t. (i, t) \<in> set cs \<and> is_chained C t))"
proof (induction C cs found rule: filter_chained.induct)
  case (2 C i t cs found)
  have "ends (should_chain C t) (\<lambda>c. c \<longrightarrow> is_chained C t)"
    by (auto simp: should_chain_def is_chained_def is_chainable_def is_expandable_def prog_term_def is_cyclic_def reachable_def
        split: option.splits)
  then show ?case
    unfolding filter_chained.simps
  proof (rule ends_after)
    fix c assume c: "c \<longrightarrow> is_chained C t"
    show "ends (filter_chained C cs (if c then i # found else found))
      (\<lambda>cands. \<forall>k\<in>set cands. k \<in> set found \<or> (\<exists>u. (k, u) \<in> set ((i, t) # cs) \<and> is_chained C u))"
      by (rule ends_weaken [OF 2]) (use c in \<open>auto split: if_splits\<close>)
  qed
qed simp

lemma constructor_bindings_from_mem:
  "(i, t) \<in> set (constructor_bindings_from k bs) \<longleftrightarrow> k \<le> i \<and> i < k + length bs \<and> call_of (bs ! (i - k)) = Some t"
proof (induction bs arbitrary: k)
  case (Cons b bs)
  have "constructor_bindings_from k (b # bs) = (case call_of b of None \<Rightarrow> [] | Some t \<Rightarrow> [(k, t)]) @ constructor_bindings_from (k + 1) bs"
    by (cases b) (auto simp: call_of_def split: binding.splits)
  then show ?case using Cons [of "k + 1"] by (cases "i = k") (auto simp: nth_Cons' split: option.splits)
qed simp

lemma constructor_bindings_mem:
  "(i, t) \<in> set (constructor_bindings X) \<longleftrightarrow> i < length (ex_bindings X) \<and> call_of (ex_bindings X ! i) = Some t"
  by (simp add: constructor_bindings_def constructor_bindings_from_mem)

text \<open>The candidates of an expansion: those that are given, or the chained calls.\<close>

lemma candidates_ends:
  "ends (if pa_candidates P \<noteq> [] then Some (Ok (pa_candidates P)) else find_candidates S (pa_expansion P))
     (\<lambda>cands. cands = pa_candidates P \<or> pa_candidates P = [] \<and>
        (\<forall>i\<in>set cands. i < length (ex_bindings (pa_expansion P)) \<and>
           (\<exists>t. call_of (ex_bindings (pa_expansion P) ! i) = Some t \<and> is_chained (x_chaining S) t)))"
  unfolding find_candidates_def
  using ends_weaken [OF filter_chained_ends [of "x_chaining S" "constructor_bindings (pa_expansion P)" "[]"]]
  by (auto simp: constructor_bindings_mem)

lemma calls_weight_chained:
  assumes "\<forall>i\<in>cands. \<exists>t. call_of (ex_bindings X ! i) = Some t \<and> is_chained C t"
  shows "calls_weight C cands X = calls_weight C {} X"
  unfolding calls_weight_def call_weight_def using assms by (intro sum.cong) (auto split: option.splits)

text \<open>Every remaining call of a term with rules is a call of a root.\<close>

definition rooted :: "chaining \<Rightarrow> term_id set \<Rightarrow> expansion \<Rightarrow> bool" where
  "rooted C roots X \<longleftrightarrow> (\<forall>i t. (i, t) \<in> set (constructor_bindings X) \<longrightarrow> is_expandable C t = Some (Ok True) \<longrightarrow> t \<in> roots)"

lemma rooted_mono: "rooted C roots X \<Longrightarrow> roots \<subseteq> roots' \<Longrightarrow> rooted C roots' X"
  unfolding rooted_def by blast

definition steps :: "expander \<Rightarrow> expander \<Rightarrow> bool" where
  "steps S S' \<longleftrightarrow> frozen S S' \<and> x_roots S \<subseteq> x_roots S' \<and> expander_ok S' \<and> smaller S' S"

lemma chain_call_steps:
  assumes "expander_ok S" "x_stack S = P # stack" "x_chaining S = C" "calls_weight C (set (c # cands)) (pa_expansion P) = partial_weight C P"
    and "\<forall>i\<in>set (c # cands). i < length (ex_bindings (pa_expansion P))"
  shows "ends (chain_call (pa_expansion P) c cands (S\<lparr>x_stack := stack\<rparr>)) (steps S)"
proof (rule ends_weaken [OF chain_call_ends])
  let ?X = "pa_expansion P"
  show "sets_ok (x_sets (S\<lparr>x_stack := stack\<rparr>))" "ranged ?X" using assms(1,2) by (auto simp: expander_ok_def partial_ok_def)
  fix S' assume "\<exists>t params k R new. ex_binding ?X c = Some (BConstructor t params k) \<and>
    hm_get (x_sets (S\<lparr>x_stack := stack\<rparr>)) t = Some R \<and> S' = S\<lparr>x_stack := stack, x_stack := new @ x_stack (S\<lparr>x_stack := stack\<rparr>)\<rparr> \<and>
    (\<forall>Q\<in>set new. pa_candidates Q = cands \<and> child R ?X c (pa_expansion Q))"
  then obtain t params k R new where c: "c < length (ex_bindings ?X)" "ex_bindings ?X ! c = Some (BConstructor t params k)"
      "hm_get (x_sets S) t = Some R" "S' = S\<lparr>x_stack := new @ stack\<rparr>"
      "\<And>Q. Q \<in> set new \<Longrightarrow> pa_candidates Q = cands \<and> child R ?X c (pa_expansion Q)" by (auto simp: ex_binding_Some)
  have ok: "chaining_ok C" "ch_sets C = x_sets S" using assms(1,3) by (auto simp: expander_ok_def)
  have "call_of (ex_bindings ?X ! c) = Some t" using c(2) by (simp add: call_of_def)
  then have less: "partial_weight C Q < partial_weight C P" if "Q \<in> set new" for Q
    using child_weight [OF ok(1) _ c(1), of R "pa_expansion Q" t "set (c # cands)" "set cands"] c(3,5) that assms(4,5) ok(2)
    by (auto simp: partial_weight_def)
  have "mset (map (partial_weight C) new) < {#partial_weight C P#}" using less by simp
  then have "stack_weight S' < stack_weight S" using assms(2,3) c(4) by (simp add: stack_weight_def)
  moreover have "partial_ok Q" if "Q \<in> set new" for Q
    using c(5) [OF that] assms(5) by (auto simp: partial_ok_def child_def intro: less_le_trans)
  ultimately show "steps S S'"
    using assms(1,2) c(4) by (auto simp: steps_def frozen_def smaller_def unrooted_def expander_ok_def)
qed

lemma finish_steps:
  assumes "expander_ok S" "x_stack S = P # stack"
  shows "ends (finish X (S\<lparr>x_stack := stack\<rparr>)) (\<lambda>S'. steps S S' \<and> x_complete S' = x_complete S @ [X] \<and> rooted (x_chaining S) (x_roots S') X)"
  unfolding finish_def
proof (rule ends_after [OF cascades_ends], use assms(1) in \<open>simp add: expander_ok_def\<close>)
  let ?S0 = "S\<lparr>x_stack := stack\<rparr>"
  fix S1
  assume S1: "cascaded ?S0 S1 \<and> (\<forall>c\<in>set (constructor_bindings X). is_expandable (x_chaining ?S0) (snd c) = Some (Ok True) \<longrightarrow> snd c \<in> x_roots S1)"
  have "unrooted S1 < unrooted S \<or> S1 = ?S0"
  proof (rule disjCI)
    assume "S1 \<noteq> ?S0"
    then obtain t where "t \<in> x_roots S1 - x_roots S" "hm_get (x_sets S) t \<noteq> None" using S1 by (auto simp: cascaded_def)
    moreover have "x_sets S1 = x_sets S" "x_roots S \<subseteq> x_roots S1" using S1 by (auto simp: cascaded_def frozen_def)
    ultimately show "unrooted S1 < unrooted S"
      unfolding unrooted_def by (intro psubset_card_mono) (auto simp: finite_dom_map_of)
  qed
  moreover have "stack_weight ?S0 < stack_weight S" using assms(2) by (simp add: stack_weight_def)
  ultimately have "smaller S1 S" by (auto simp: smaller_def unrooted_def)
  moreover have "expander_ok S1" using S1 assms by (auto simp: cascaded_def frozen_def expander_ok_def)
  ultimately have "steps S (S1\<lparr>x_complete := x_complete S1 @ [X]\<rparr>)"
    using S1 by (auto simp: steps_def cascaded_def frozen_def smaller_def unrooted_def stack_weight_def expander_ok_def)
  then show "ends (after (expansion_validate X) (\<lambda>_. Some (Ok (S1\<lparr>x_complete := x_complete S1 @ [X]\<rparr>))))
    (\<lambda>S'. steps S S' \<and> x_complete S' = x_complete S @ [X] \<and> rooted (x_chaining S) (x_roots S') X)"
    using S1 by (auto simp: expansion_validate_def cascaded_def rooted_def)
qed

lemma extend_steps:
  assumes "expander_ok S" "x_stack S = P # stack"
  shows "ends (extend P (S\<lparr>x_stack := stack\<rparr>)) (steps S)"
  unfolding extend_def Let_def
proof (rule ends_after [OF candidates_ends])
  let ?X = "pa_expansion P" and ?C = "x_chaining S"
  fix cands
  assume cands: "cands = pa_candidates P \<or> pa_candidates P = [] \<and> (\<forall>i\<in>set cands. i < length (ex_bindings ?X) \<and>
    (\<exists>t. call_of (ex_bindings ?X ! i) = Some t \<and> is_chained (x_chaining (S\<lparr>x_stack := stack\<rparr>)) t))"
  have "calls_weight ?C (set cands) ?X = partial_weight ?C P"
    using cands calls_weight_chained [of "set cands" ?X ?C] by (auto simp: partial_weight_def)
  moreover have "\<forall>i\<in>set cands. i < length (ex_bindings ?X)"
    using cands assms by (auto simp: expander_ok_def partial_ok_def)
  moreover have "ends (finish ?X (S\<lparr>x_stack := stack\<rparr>)) (steps S)" by (rule ends_weaken [OF finish_steps [OF assms]]) simp
  ultimately show "ends (case cands of [] \<Rightarrow> finish ?X (S\<lparr>x_stack := stack\<rparr>) | c # cands \<Rightarrow> chain_call ?X c cands (S\<lparr>x_stack := stack\<rparr>)) (steps S)"
    using chain_call_steps [OF assms refl] by (cases cands) auto
qed

text \<open>The work list is used up; an invariant of one step is one of the run.\<close>

lemma expand_ends:
  assumes "\<And>S P stack. expander_ok S \<Longrightarrow> J S \<Longrightarrow> x_stack S = P # stack \<Longrightarrow> ends (extend P (S\<lparr>x_stack := stack\<rparr>)) J"
    and "expander_ok S" "J S"
  shows "ends (expand S) (\<lambda>S'. J S' \<and> expander_ok S' \<and> x_stack S' = [])"
  using assms(2,3)
proof (induction "unrooted S" arbitrary: S rule: less_induct)
  case outer: less
  show ?case using outer.prems outer.hyps
  proof (induction "stack_weight S" arbitrary: S rule: less_induct)
    case inner: less
    show ?case
    proof (cases "x_stack S")
      case Nil
      then show ?thesis using inner.prems by (subst expand.simps) simp
    next
      case (Cons P stack)
      have "ends (after (extend P (S\<lparr>x_stack := stack\<rparr>)) expand) (\<lambda>S'. J S' \<and> expander_ok S' \<and> x_stack S' = [])"
      proof (rule ends_after [OF ends_conj [OF assms(1) [OF inner.prems(1,2) Cons] extend_steps [OF inner.prems(1) Cons]]])
        fix S1 assume S1: "J S1 \<and> steps S S1"
        then have ok: "J S1" "expander_ok S1" "smaller S1 S" by (auto simp: steps_def)
        show "ends (expand S1) (\<lambda>S'. J S' \<and> expander_ok S' \<and> x_stack S' = [])"
        proof (cases "unrooted S1 < unrooted S")
          case True
          then show ?thesis using inner.prems(3) ok by blast
        next
          case False
          then have "unrooted S1 = unrooted S" "stack_weight S1 < stack_weight S" using ok(3) by (auto simp: smaller_def)
          then show ?thesis using inner.hyps [of S1] inner.prems(3) ok by simp
        qed
      qed
      then show ?thesis using Cons by (subst expand.simps) simp
    qed
  qed
qed

section \<open>Roots of everything that is left\<close>

definition cascades :: "expander \<Rightarrow> bool" where
  "cascades S \<longleftrightarrow> (\<forall>X\<in>set (x_complete S). rooted (x_chaining S) (x_roots S) X)"

text \<open>Chaining a call completes nothing.\<close>

lemma chain_call_complete:
  assumes "expander_ok S" "x_stack S = P # stack"
  shows "ends (chain_call (pa_expansion P) c cands (S\<lparr>x_stack := stack\<rparr>))
    (\<lambda>S'. frozen S S' \<and> x_complete S' = x_complete S \<and> x_roots S' = x_roots S)"
  by (rule ends_weaken [OF chain_call_ends]) (use assms in \<open>auto simp: expander_ok_def partial_ok_def frozen_def\<close>)

lemma extend_cascades:
  assumes "expander_ok S" "cascades S" "x_stack S = P # stack"
  shows "ends (extend P (S\<lparr>x_stack := stack\<rparr>)) cascades"
  unfolding extend_def Let_def
proof (rule ends_after [OF candidates_ends])
  fix cands
  have "ends (finish (pa_expansion P) (S\<lparr>x_stack := stack\<rparr>)) cascades"
  proof (rule ends_weaken [OF finish_steps [OF assms(1,3)]])
    fix S' assume S': "steps S S' \<and> x_complete S' = x_complete S @ [pa_expansion P] \<and> rooted (x_chaining S) (x_roots S') (pa_expansion P)"
    then have "x_chaining S' = x_chaining S" "x_roots S \<subseteq> x_roots S'" by (simp_all add: steps_def frozen_def)
    moreover from this(2) have "rooted (x_chaining S) (x_roots S') X" if "X \<in> set (x_complete S)" for X
      using rooted_mono assms(2) that unfolding cascades_def by blast
    ultimately show "cascades S'" using S' by (simp add: cascades_def)
  qed
  moreover have "ends (chain_call (pa_expansion P) c cs (S\<lparr>x_stack := stack\<rparr>)) cascades" for c cs
    by (rule ends_weaken [OF chain_call_complete [OF assms(1,3)]]) (use assms(2) in \<open>auto simp: cascades_def frozen_def\<close>)
  ultimately show "ends (case cands of [] \<Rightarrow> finish (pa_expansion P) (S\<lparr>x_stack := stack\<rparr>)
    | c # cands \<Rightarrow> chain_call (pa_expansion P) c cands (S\<lparr>x_stack := stack\<rparr>)) cascades" by (cases cands) auto
qed

end
