(* ===== verification/Veri_Program.thy ===== *)
theory Veri_Program
  imports Veri_Expand_Ends Trie_Meaning
begin

text \<open>
  Rule sets, configuration and expander put together as the tools of \<^verbatim>\<open>veri/src\<close> do: the rule sets
  come from \<^verbatim>\<open>build_trie\<close>, a chaining configuration is made for them, the roots are added, and the
  expander runs.
\<close>

section \<open>Rule sets of a program\<close>

definition build_trie :: "term_env \<Rightarrow> (isle_error list, (term_id \<times> rule_set) list) outcome option" where
  "build_trie te =
     (case build te of
        Some (Ok (terms, errors)) \<Rightarrow> Some (if errors = [] then Ok terms else Err errors)
      | Some _ \<Rightarrow> Some Panic
      | None \<Rightarrow> None)"

lemma build_trie_Ok: "build_trie te = Some (Ok sets) \<longleftrightarrow> build te = Some (Ok (sets, []))"
  by (auto simp: build_trie_def split: option.splits outcome.splits)

lemma build_trie_sets_ok:
  assumes "build_trie te = Some (Ok sets)"
  shows "sets_ok sets"
  unfolding sets_ok_def
proof (intro allI impI conjI ballI)
  fix t R assume "hm_get sets t = Some R"
  then have "(t, R) \<in> set sets" by (rule map_of_SomeD)
  from build_made_from [OF assms [unfolded build_trie_Ok] this]
  have R: "made_from te (rules_of (env_rules te) t) True R" by simp
  then show "table_ok R" by (simp add: made_from_def)
  fix r assume "r \<in> set (rs_rules R)"
  then obtain rule where "compiles te (rs_bindings R) rule r" using made_from_mem [OF R] by blast
  then have "built (equals r)" by (simp add: compiles_def rule_ok_def)
  then show "forest_ok (equals r)" using built_invariant by blast
qed

section \<open>Configurations and work lists\<close>

text \<open>The configurations that can be made, and the expanders before they run.\<close>

inductive configured :: "program \<Rightarrow> (term_id, rule_set) hashmap \<Rightarrow> chaining \<Rightarrow> bool" for P sets where
  new: "configured P sets (chaining_new P sets)"
| included: "configured P sets C \<Longrightarrow> chain_terms names C = Ok C' \<Longrightarrow> configured P sets C'"
| excluded: "configured P sets C \<Longrightarrow> exclude_chain_terms names C = Ok C' \<Longrightarrow> configured P sets C'"
| macros: "configured P sets C \<Longrightarrow> configured P sets (chain_macros enabled C)"
| max_rules: "configured P sets C \<Longrightarrow> configured P sets (set_max_rules n C)"
| fallback: "configured P sets C \<Longrightarrow> configured P sets (set_default enabled C)"

inductive started :: "program \<Rightarrow> (term_id, rule_set) hashmap \<Rightarrow> chaining \<Rightarrow> expander \<Rightarrow> bool" for P sets C where
  new: "started P sets C (expander_new P sets C)"
| prune: "started P sets C S \<Longrightarrow> started P sets C (set_prune_infeasible enabled S)"
| root: "started P sets C S \<Longrightarrow> add_root t S = Some (Ok S') \<Longrightarrow> started P sets C S'"
| root_name: "started P sets C S \<Longrightarrow> add_root_term_name name S = Some (Ok S') \<Longrightarrow> started P sets C S'"

lemma chain_terms_keep:
  "chain_terms names C = Ok C' \<Longrightarrow> ch_sets C' = ch_sets C \<and> ch_reach C' = ch_reach C"
  "exclude_chain_terms names C = Ok C' \<Longrightarrow> ch_sets C' = ch_sets C \<and> ch_reach C' = ch_reach C"
  by (induction names arbitrary: C) (auto simp: chain_term_def exclude_chain_term_def split: option.splits)

lemma configured_ok: "configured P sets C \<Longrightarrow> chaining_ok C \<and> ch_sets C = sets"
  by (induction rule: configured.induct)
    (auto simp: chaining_new_def chaining_ok_def chain_macros_def set_max_rules_def set_default_def dest: chain_terms_keep)

lemma add_root_name_Ok: "add_root_term_name name S = Some (Ok S') \<Longrightarrow> \<exists>t. add_root t S = Some (Ok S')"
  by (auto simp: add_root_term_name_def split: option.splits outcome.splits)

lemma started_induct [consumes 1, case_names new prune root]:
  assumes "started P sets C S" "J (expander_new P sets C)" "\<And>S enabled. J S \<Longrightarrow> J (set_prune_infeasible enabled S)"
    and "\<And>S t S'. J S \<Longrightarrow> add_root t S = Some (Ok S') \<Longrightarrow> J S'"
  shows "J S"
  using assms(1) by induction (use assms(2-) add_root_name_Ok in blast)+

lemma add_root_ok:
  assumes "expander_ok S" "add_root t S = Some (Ok S')"
  shows "expander_ok S'" "frozen S S'" "x_complete S' = x_complete S"
  using ends_OkD [OF add_root_ends assms(2)] assms(1) root_partial_ok
  by (auto simp: expander_ok_def frozen_def split: if_splits)

lemma started_ok:
  assumes "started P sets C S" "configured P sets C" "sets_ok sets"
  shows "expander_ok S \<and> x_prog S = P \<and> x_sets S = sets \<and> x_chaining S = C \<and> x_complete S = []"
  using assms(1)
proof (induction rule: started_induct)
  case new
  then show ?case using configured_ok [OF assms(2)] assms(3) by (simp add: expander_new_def expander_ok_def)
next
  case (root S t S')
  then show ?case using add_root_ok [of S t S'] by (simp add: frozen_def)
qed (auto simp: set_prune_infeasible_def expander_ok_def)

section \<open>What is left in a complete expansion\<close>

definition unchained :: "chaining \<Rightarrow> expansion \<Rightarrow> bool" where
  "unchained C X \<longleftrightarrow> (\<forall>i t. (i, t) \<in> set (constructor_bindings X) \<longrightarrow> \<not> is_chained C t)"

lemma filter_chained_all:
  "ends (filter_chained C cs found) (\<lambda>cands. set found \<subseteq> set cands \<and> (\<forall>i t. (i, t) \<in> set cs \<longrightarrow> is_chained C t \<longrightarrow> i \<in> set cands))"
proof (induction C cs found rule: filter_chained.induct)
  case (2 C i t cs found)
  have "ends (should_chain C t) (\<lambda>c. is_chained C t \<longrightarrow> c)"
    by (auto simp: should_chain_def is_chained_def is_chainable_def is_expandable_def prog_term_def is_cyclic_def reachable_def
        split: option.splits)
  then show ?case
    unfolding filter_chained.simps
    by (rule ends_after) (rule ends_weaken [OF 2], auto split: if_splits)
qed simp

lemma candidates_unchained:
  "ends (if pa_candidates P \<noteq> [] then Some (Ok (pa_candidates P)) else find_candidates S (pa_expansion P))
     (\<lambda>cands. cands = [] \<longrightarrow> unchained (x_chaining S) (pa_expansion P))"
proof (cases "pa_candidates P")
  case Nil
  have "ends (find_candidates S (pa_expansion P)) (\<lambda>cands. cands = [] \<longrightarrow> unchained (x_chaining S) (pa_expansion P))"
    unfolding find_candidates_def by (rule ends_weaken [OF filter_chained_all]) (auto simp: unchained_def)
  then show ?thesis using Nil by simp
qed simp

definition settled :: "expander \<Rightarrow> bool" where
  "settled S \<longleftrightarrow> (\<forall>X\<in>set (x_complete S). unchained (x_chaining S) X)"

lemma extend_settled:
  assumes "expander_ok S" "settled S" "x_stack S = P # stack"
  shows "ends (Veri_Expander.extend P (S\<lparr>x_stack := stack\<rparr>)) settled"
  unfolding Veri_Expander.extend_def Let_def
proof (rule ends_after [OF candidates_unchained])
  fix cands :: "binding_id list" assume cands: "cands = [] \<longrightarrow> unchained (x_chaining (S\<lparr>x_stack := stack\<rparr>)) (pa_expansion P)"
  have "ends (finish (pa_expansion P) (S\<lparr>x_stack := stack\<rparr>)) settled" if "cands = []"
    by (rule ends_weaken [OF finish_steps [OF assms(1,3)]])
      (use assms(2) cands that in \<open>simp add: settled_def steps_def frozen_def\<close>)
  moreover have "ends (chain_call (pa_expansion P) c cs (S\<lparr>x_stack := stack\<rparr>)) settled" for c cs
    by (rule ends_weaken [OF chain_call_complete [OF assms(1,3)]]) (use assms(2) in \<open>auto simp: settled_def frozen_def\<close>)
  ultimately show "ends (case cands of [] \<Rightarrow> finish (pa_expansion P) (S\<lparr>x_stack := stack\<rparr>)
    | c # cands \<Rightarrow> chain_call (pa_expansion P) c cands (S\<lparr>x_stack := stack\<rparr>)) settled" by (cases cands) auto
qed

text \<open>One invariant of the run: the configuration and what is complete.\<close>

definition running :: "expander \<Rightarrow> expander \<Rightarrow> bool" where
  "running S0 S \<longleftrightarrow> frozen S0 S \<and> x_roots S0 \<subseteq> x_roots S \<and> cascades S \<and> settled S"

lemma expand_running:
  assumes "expander_ok S" "x_complete S = []"
  shows "ends (expand S) (\<lambda>S'. running S S' \<and> expander_ok S' \<and> x_stack S' = [])"
proof (rule expand_ends [OF _ assms(1)])
  show "running S S" using assms(2) by (simp add: running_def frozen_def cascades_def settled_def)
  fix S1 P stack assume S1: "expander_ok S1" "running S S1" "x_stack S1 = P # stack"
  then have "cascades S1" "settled S1" by (simp_all add: running_def)
  note step = ends_conj [OF extend_steps [OF S1(1,3)] ends_conj [OF extend_cascades [OF S1(1) this(1) S1(3)] extend_settled [OF S1(1) this(2) S1(3)]]]
  show "ends (Veri_Expander.extend P (S1\<lparr>x_stack := stack\<rparr>)) (running S)"
    by (rule ends_weaken [OF step]) (use S1(2) in \<open>auto simp: running_def steps_def frozen_def\<close>)
qed

section \<open>An example\<close>

text \<open>
  A term \<open>f\<close> whose rule calls a term \<open>g\<close>, which has a rule for one value and a rule of lower priority
  for all others.
\<close>

definition pair_term :: "nat \<Rightarrow> sema_term" where
  "pair_term i = \<lparr>term_id = i, decl_pos = pos_new 0 0, term_name = i, arg_tys = [5], ret_ty = 5,
     term_kind = Decl \<lparr>is_pure = True, is_multi = False, partial_flag = False\<rparr> (Some InternalConstructor) None\<rparr>"

definition pair_rule :: "nat \<Rightarrow> term_id \<Rightarrow> int \<Rightarrow> sema_pattern \<Rightarrow> sema_expr \<Rightarrow> sema_rule" where
  "pair_rule i t pri p e = \<lparr>sr_id = i, root_term_id = t, sr_args = [p], sr_iflets = [], sr_rhs = e, sr_vars = [],
     sr_prio = pri, sr_name = None, sr_pos = pos_new 0 i\<rparr>"

definition pair_env :: term_env where
  "pair_env = \<lparr>env_terms = [pair_term 0, pair_term 1], term_map = [],
     env_rules = [pair_rule 2 0 7 (PBindPattern 5 4 (PWildcard 5)) (XTerm 5 1 [XVar 5 4]),
       pair_rule 3 1 7 (PBindPattern 5 4 (PWildcard 5)) (XVar 5 4), pair_rule 4 1 9 (PConstInt 5 2) (XConstInt 5 8)],
     rule_map = [], converters = [], expand_internal_extractors = False\<rparr>"

definition f_rules :: rule_set where
  "f_rules = \<lparr>rs_rules = [\<lparr>rule_id = 2, rule_pos = pos_new 0 2, constraints = [], equals = [], iterators = {}, prio = 7,
       rule_name = None, impure = [], result = 1\<rparr>],
     rs_bindings = [BArgument 0, BConstructor 1 [0] 0], rs_map = [(BArgument 0, 0), (BConstructor 1 [0] 0, 1)]\<rparr>"

definition g_rules :: rule_set where
  "g_rules = \<lparr>rs_rules = [\<lparr>rule_id = 3, rule_pos = pos_new 0 3, constraints = [], equals = [], iterators = {}, prio = 7,
       rule_name = None, impure = [], result = 0\<rparr>,
       \<lparr>rule_id = 4, rule_pos = pos_new 0 4, constraints = [(0, CConstInt 2 5)], equals = [], iterators = {}, prio = 9,
       rule_name = None, impure = [], result = 1\<rparr>],
     rs_bindings = [BArgument 0, BConstInt 8 5], rs_map = [(BArgument 0, 0), (BConstInt 8 5, 1)]\<rparr>"

definition pair_sets :: "(term_id \<times> rule_set) list" where
  "pair_sets = [(0, f_rules), (1, g_rules)]"

lemma pair_build: "build_trie pair_env = Some (Ok pair_sets)"
  by (simp add: build_trie_def pair_env_def pair_rule_def pair_term_def build_evaluate add_construct_def next_instance_def
      construct_source_def build_term_def pair_sets_def f_rules_def g_rules_def)

definition pair_program :: program where
  "pair_program = \<lparr>p_terms = env_terms pair_env, p_syms = [''f'', ''g''], p_sym_map = [(''f'', 0), (''g'', 1)],
     p_term_map = [(0, 0), (1, 1)], p_specified = {}, p_chain = {1}, p_priority = {4}, p_overlaps = build_overlaps pair_sets\<rparr>"

definition pair_chaining :: chaining where
  "pair_chaining = chaining_new pair_program pair_sets"

lemmas pair_evaluate = pair_program_def pair_sets_def f_rules_def g_rules_def pair_env_def pair_term_def chaining_new_def

lemma pair_overlaps: "p_overlaps pair_program = [(3, {4})]"
  "p_priority pair_program = {4}"
  by (simp_all add: pair_program_def build_overlaps_def note_overlap_def pair_sets_def f_rules_def g_rules_def may_overlap_def)

lemma pair_uses: "uses pair_sets = {(0, 1)}"
  by (auto simp: uses_def pair_sets_def f_rules_def g_rules_def used_terms_def List.map_filter_simps split: if_splits)

lemma pair_acyclic: "is_cyclic (ch_reach pair_chaining) 1 = Some (Ok False)"
  by (simp add: pair_chaining_def chaining_new_def is_cyclic_def reachable_def reachability_build_get search_exact pair_uses)
     (simp add: pair_sets_def trancl_id [of "{(0, 1)}"] trans_def)

lemma pair_chain: "should_chain pair_chaining 1 = Some (Ok True)"
  using pair_acyclic
  by (simp add: should_chain_def is_chainable_def is_expandable_def num_rules_def chain_policy_def has_spec_def prog_term_def
    pair_chaining_def pair_evaluate has_internal_constructor_def)

definition pair_start :: "chaining \<Rightarrow> expander" where
  "pair_start C = (expander_new pair_program pair_sets C)
     \<lparr>x_stack := [\<lparr>pa_expansion = root_expansion 0 1, pa_candidates = [1]\<rparr>], x_roots := {0}\<rparr>"

lemma pair_push:
  assumes "t < 2" "x_prog S = pair_program"
  shows "push_constructor t S = Some (Ok (S\<lparr>x_stack := \<lparr>pa_expansion = root_expansion t 1, pa_candidates = [1]\<rparr> # x_stack S\<rparr>))"
proof -
  have t: "t = 0 \<or> t = 1" using assms(1) by auto
  have "prog_term pair_program t = Some (Ok (pair_term t))" using t by (auto simp: prog_term_def pair_program_def pair_env_def)
  moreover have "\<exists>sig. constructor_sig (pair_term t) (p_syms pair_program) = Ok (Some sig) \<and> param_tys sig = [5]"
    using t by (auto simp: constructor_sig_def pair_term_def constructor_names_def sym_name_def pair_program_def Let_def)
  moreover have "has_constructor (pair_term t)" by (simp add: has_constructor_def pair_term_def)
  moreover have "is_feasible (root_expansion t 1) = Some (Ok True)"
    by (simp add: is_feasible_def expansion_validate_def expansion_valid_def root_expansion_def is_defined_def ex_binding_def)
  ultimately show ?thesis using assms(2) by (auto simp: push_constructor_def)
qed

lemma pair_root: "add_root 0 (expander_new pair_program pair_sets C) = Some (Ok (pair_start C))"
  by (simp add: add_root_def pair_push expander_new_def pair_start_def)

lemmas expand_evaluate = Veri_Expander.extend_def chain_call_def ex_binding_def root_expansion_def
  chain_rule_def apply_rule_def application_new_def application_build_def with_expansion_def rule_argument_def find_binding_def add_binding_def
  add_bindings_Cons add_bindings.simps [of _ "[]"] is_mapped_def import_binding_def push_binding_def reindex_id_def push_substitution_def rule_constraint_def
  get_constraint_def rule_equal_def rule_result_def apply_negations_def is_negated_def ex_substitute_def is_feasible_def expansion_validate_def
  expansion_valid_def is_defined_def apply_negation_def add_constrain_def add_match_def rule_impure_def find_root.simps [of "[]"] zip_Cons_Cons

abbreviation pair_state :: "chaining \<Rightarrow> term_id set \<Rightarrow> partial list \<Rightarrow> expansion list \<Rightarrow> expander" where
  "pair_state C roots stack complete \<equiv> \<lparr>x_prog = pair_program, x_sets = pair_sets, x_chaining = C, x_prune = True,
     x_stack = stack, x_roots = roots, x_complete = complete\<rparr>"

abbreviation pair_expansion :: "term_id \<Rightarrow> rule_id list \<Rightarrow> rule_id list \<Rightarrow> binding option list \<Rightarrow> constrain list \<Rightarrow> binding_id \<Rightarrow> expansion" where
  "pair_expansion t rs ns bs cs res \<equiv> \<lparr>ex_term = t, ex_rules = rs, ex_negated = ns, ex_bindings = bs, ex_constraints = cs,
     ex_equals = [], ex_parameters = [0], ex_result = res\<rparr>"

lemma expand_Cons: "x_stack S = P # stack \<Longrightarrow> expand S = after (Veri_Expander.extend P (S\<lparr>x_stack := stack\<rparr>)) expand"
  by (subst expand.simps) simp

lemma pair_gets: "hm_get pair_sets 0 = Some f_rules" "hm_get pair_sets (Suc 0) = Some g_rules"
  by (simp_all add: pair_sets_def)

abbreviation f_chained :: expansion where
  "f_chained \<equiv> pair_expansion 0 [2] [] [Some (BArgument 0), None, None, Some (BConstructor 1 [0] 0)] [] 3"

lemma extend_f:
  "Veri_Expander.extend \<lparr>pa_expansion = root_expansion 0 1, pa_candidates = [1]\<rparr> (pair_state C {0} [] []) =
     Some (Ok (pair_state C {0} [\<lparr>pa_expansion = f_chained, pa_candidates = []\<rparr>] []))"
  by (simp add: expand_evaluate pair_gets) (simp add: f_rules_def expand_evaluate pair_overlaps)

abbreviation g_default :: expansion where
  "g_default \<equiv> pair_expansion 0 [2, 3] [4] [Some (BArgument 0), None, None, None, None] [NotAll [Match 0 (CConstInt 2 5)]] 0"

abbreviation g_special :: expansion where
  "g_special \<equiv> pair_expansion 0 [2, 4] [] [Some (BArgument 0), None, None, None, None, Some (BConstInt 8 5)] [Match 0 (CConstInt 2 5)] 5"

lemma extend_g:
  "Veri_Expander.extend \<lparr>pa_expansion = f_chained, pa_candidates = []\<rparr> (pair_state pair_chaining {0} [] []) =
     Some (Ok (pair_state pair_chaining {0} [\<lparr>pa_expansion = g_default, pa_candidates = []\<rparr>, \<lparr>pa_expansion = g_special, pa_candidates = []\<rparr>] []))"
  using pair_chain
  by (simp add: expand_evaluate pair_gets find_candidates_def constructor_bindings_def) (simp add: g_rules_def expand_evaluate pair_overlaps)

lemma extend_finish:
  assumes "constructor_bindings X = []" "expansion_valid X"
  shows "Veri_Expander.extend \<lparr>pa_expansion = X, pa_candidates = []\<rparr> S = Some (Ok (S\<lparr>x_complete := x_complete S @ [X]\<rparr>))"
  using assms by (simp add: Veri_Expander.extend_def find_candidates_def finish_def expansion_validate_def)

lemmas finish_evaluate = extend_finish constructor_bindings_def expansion_valid_def is_defined_def ex_binding_def

lemma pair_start_state: "pair_start C = pair_state C {0} [\<lparr>pa_expansion = root_expansion 0 1, pa_candidates = [1]\<rparr>] []"
  by (simp add: pair_start_def expander_new_def)

lemma pair_expand: "expand (pair_start pair_chaining) = Some (Ok (pair_state pair_chaining {0} [] [g_default, g_special]))"
  unfolding pair_start_state
  by (simp add: expand_Cons extend_f [simplified] extend_g [simplified] finish_evaluate) (simp add: expand.simps)

text \<open>The same without chaining \<open>g\<close>, which then becomes a root.\<close>

definition apart_chaining :: chaining where
  "apart_chaining = pair_chaining\<lparr>ch_exclude := {1}\<rparr>"

lemma apart_exclude: "exclude_chain_terms [''g''] pair_chaining = Ok apart_chaining"
  by (simp add: exclude_chain_term_def get_term_by_name_def intern_def pair_chaining_def chaining_new_def apart_chaining_def pair_program_def)

lemma apart_chain: "should_chain apart_chaining (Suc 0) = Some (Ok False)" "is_expandable apart_chaining (Suc 0) = Some (Ok True)"
  using pair_acyclic
  by (simp_all add: should_chain_def is_chainable_def is_expandable_def num_rules_def chain_policy_def has_spec_def prog_term_def
    apart_chaining_def pair_chaining_def pair_evaluate has_internal_constructor_def)

lemma apart_extend_f:
  "Veri_Expander.extend \<lparr>pa_expansion = f_chained, pa_candidates = []\<rparr> (pair_state apart_chaining {0} [] []) =
     Some (Ok (pair_state apart_chaining {0, 1} [\<lparr>pa_expansion = root_expansion 1 1, pa_candidates = [1]\<rparr>] [f_chained]))"
  by (auto simp: Veri_Expander.extend_def find_candidates_def constructor_bindings_def apart_chain finish_def cascade_def add_root_def
     pair_push [simplified] expansion_validate_def expansion_valid_def is_defined_def ex_binding_def numeral_3_eq_3 Let_def)

abbreviation apart_expansions :: "expansion list" where
  "apart_expansions \<equiv> [pair_expansion 1 [3] [4] [Some (BArgument 0), None, None] [NotAll [Match 0 (CConstInt 2 5)]] 0,
     pair_expansion 1 [4] [] [Some (BArgument 0), None, None, Some (BConstInt 8 5)] [Match 0 (CConstInt 2 5)] 3]"

lemma apart_extend_g:
  "Veri_Expander.extend \<lparr>pa_expansion = root_expansion 1 1, pa_candidates = [1]\<rparr> (pair_state apart_chaining {0, 1} [] [f_chained]) =
     Some (Ok (pair_state apart_chaining {0, 1} (map (\<lambda>X. \<lparr>pa_expansion = X, pa_candidates = []\<rparr>) apart_expansions) [f_chained]))"
  by (simp add: expand_evaluate pair_gets) (simp add: g_rules_def expand_evaluate pair_overlaps)

lemma apart_expand: "expand (pair_start apart_chaining) = Some (Ok (pair_state apart_chaining {0, 1} [] (f_chained # apart_expansions)))"
  unfolding pair_start_state
  by (simp add: expand_Cons extend_f [simplified] apart_extend_f [simplified] apart_extend_g [simplified] finish_evaluate) (simp add: expand.simps)

lemma apart_configured: "configured pair_program pair_sets apart_chaining"
  using configured.excluded [OF _ apart_exclude] configured.new by (simp add: pair_chaining_def)

lemma pair_configured: "configured pair_program pair_sets pair_chaining"
  unfolding pair_chaining_def by (rule configured.new)

lemma pair_started: "started pair_program pair_sets C (pair_start C)"
  using started.root [OF started.new pair_root] .

section \<open>Properties\<close>

text \<open>
  C30. Expansion ends. For rule sets that build_trie makes, a configuration made by the methods of
  Chaining and any roots, the expander's loop is not infinite, although completed expansions add
  new roots as it runs: it returns with an empty work list, unless an assertion fails.
\<close>

theorem expand_terminates:
  assumes "build_trie te = Some (Ok sets)" "configured P sets C" "started P sets C S"
  shows "expand S = Some Panic \<or> (\<exists>S'. expand S = Some (Ok S') \<and> x_stack S' = [] \<and> x_roots S \<subseteq> x_roots S')"
proof -
  have "expander_ok S" "x_complete S = []" using started_ok [OF assms(3,2) build_trie_sets_ok [OF assms(1)]] by simp_all
  from expand_running [OF this] show ?thesis by (auto simp: ends_def running_def)
qed

theorem expand_terminates_witness:
  "expand (pair_start pair_chaining) = Some Panic \<or> (\<exists>S'. expand (pair_start pair_chaining) = Some (Ok S') \<and> x_stack S' = [] \<and> x_roots (pair_start pair_chaining) \<subseteq> x_roots S')"
  using expand_terminates [OF pair_build pair_configured pair_started] .

text \<open>
  C31. Nothing is left out. A constructor call that is left in a completed expansion is not one the
  configuration chains, and if its term has rules, the term is a root, so that the expander started an
  expansion from it.
\<close>

theorem expand_closed:
  assumes "build_trie te = Some (Ok sets)" "configured P sets C" "started P sets C S" "expand S = Some (Ok S')"
    and "X \<in> set (x_complete S')" "(i, t) \<in> set (constructor_bindings X)"
  shows "should_chain C t \<noteq> Some (Ok True) \<and> (is_expandable C t = Some (Ok True) \<longrightarrow> t \<in> x_roots S')"
proof -
  have S: "expander_ok S" "x_complete S = []" "x_chaining S = C"
    using started_ok [OF assms(3,2) build_trie_sets_ok [OF assms(1)]] by simp_all
  from ends_OkD [OF expand_running [OF S(1,2)] assms(4)] have "running S S'" by simp
  then have "x_chaining S' = C" "cascades S'" "settled S'" using S(3) by (simp_all add: running_def frozen_def)
  then show ?thesis using assms(5,6) by (auto simp: cascades_def rooted_def settled_def unchained_def is_chained_def)
qed

theorem expand_closed_witness:
  "\<exists>S'. expand (pair_start apart_chaining) = Some (Ok S') \<and> f_chained \<in> set (x_complete S') \<and>
     (3, 1) \<in> set (constructor_bindings f_chained) \<and> should_chain apart_chaining 1 \<noteq> Some (Ok True) \<and> 1 \<in> x_roots S'"
proof -
  have left: "(3, 1) \<in> set (constructor_bindings f_chained)" by (simp add: constructor_bindings_def)
  from expand_closed [OF pair_build apart_configured pair_started apart_expand _ left] left show ?thesis
    using apart_expand apart_chain by simp
qed

end
