(* ===== verification/Veri_Coverage.thy ===== *)
theory Veri_Coverage
  imports Veri_Program
begin

text \<open>
  What expansions cover: every way a term can be evaluated by its rules is described by one of the
  expansions the expander completes for it, so what is verified for all of them holds for the
  term.
\<close>

section \<open>The meaning of an expansion\<close>

text \<open>
  A world says which values calls may return. The calls of one program may return different values
  at different times, so this is a relation.
\<close>

record world =
  w_con :: "term_id \<Rightarrow> rvalue list \<Rightarrow> rvalue \<Rightarrow> bool"
  w_ext :: "term_id \<Rightarrow> rvalue \<Rightarrow> rvalue \<Rightarrow> bool"

text \<open>\<open>stands W vs env b x\<close>: for arguments \<open>vs\<close>, the binding \<open>b\<close> may have the value \<open>x\<close>.\<close>

fun stands :: "world \<Rightarrow> rvalue list \<Rightarrow> renv \<Rightarrow> binding \<Rightarrow> rvalue \<Rightarrow> bool" where
  "stands W vs env (BConstInt val ty) x \<longleftrightarrow> x = VInt val ty"
| "stands W vs env (BConstPrim val) x \<longleftrightarrow> x = VPrim val"
| "stands W vs env (BArgument index) x \<longleftrightarrow> index < length vs \<and> x = vs ! index"
| "stands W vs env (BExtractor t parameter) x \<longleftrightarrow> w_ext W t (env parameter) x"
| "stands W vs env (BConstructor t parameters inst) x \<longleftrightarrow> w_con W t (map env parameters) x"
| "stands W vs env (BIterator source) x \<longleftrightarrow> True"
| "stands W vs env (BMakeVariant ty variant xs) x \<longleftrightarrow> x = VVariant ty variant (map env xs)"
| "stands W vs env (BMatchVariant source variant field) x \<longleftrightarrow> x = variant_part (env source) field"
| "stands W vs env (BMakeSome inner) x \<longleftrightarrow> x = VSome (env inner)"
| "stands W vs env (BMatchSome source) x \<longleftrightarrow> x = some_part (env source)"
| "stands W vs env (BMatchTuple source field) x \<longleftrightarrow> x = tuple_part (env source) field"

lemma stands_rename: "stands W vs env (rename f b) x \<longleftrightarrow> stands W vs (env \<circ> f) b x"
  by (cases b) auto

lemma stands_cong: "(\<And>s. s \<in> set (binding_sources b) \<Longrightarrow> env s = env' s) \<Longrightarrow> stands W vs env b x \<longleftrightarrow> stands W vs env' b x"
  by (cases b) (auto cong: map_cong)

lemma stands_arguments: "(\<And>k. b \<noteq> BArgument k) \<Longrightarrow> stands W vs env b x \<longleftrightarrow> stands W vs' env b x"
  by (cases b) auto

fun holds :: "renv \<Rightarrow> constrain \<Rightarrow> bool" where
  "holds env (Match i c) \<longleftrightarrow> accepts c (env i)"
| "holds env (NotAll cs) \<longleftrightarrow> \<not> (\<forall>c\<in>set cs. holds env c)"

lemma holds_cong: "(\<And>i. i \<in> set (constrain_bindings c) \<Longrightarrow> env i = env' i) \<Longrightarrow> holds env c \<longleftrightarrow> holds env' c"
  by (induction c rule: constrain_bindings.induct) auto

lemma holds_substitute: "holds env (constrain_substitute to c) \<longleftrightarrow> holds (env \<circ> reindex_id to) c"
  by (induction c rule: constrain_bindings.induct) auto

text \<open>
  \<open>meant W vs v env D X\<close>: with arguments \<open>vs\<close> and result \<open>v\<close>, the bindings of \<open>X\<close> may have the
  values \<open>env\<close>, and all conditions hold. Nothing is said of the bindings in \<open>D\<close>.
\<close>

definition meant :: "world \<Rightarrow> rvalue list \<Rightarrow> rvalue \<Rightarrow> renv \<Rightarrow> binding_id set \<Rightarrow> expansion \<Rightarrow> bool" where
  "meant W vs v env D X \<longleftrightarrow>
     (\<forall>i<length (ex_bindings X). \<forall>b. i \<notin> D \<longrightarrow> ex_bindings X ! i = Some b \<longrightarrow> stands W vs env b (env i)) \<and>
     (\<forall>c\<in>set (ex_constraints X). holds env c) \<and> agrees (ex_equals X) env \<and> env (ex_result X) = v"

definition covers :: "world \<Rightarrow> expansion \<Rightarrow> rvalue list \<Rightarrow> rvalue \<Rightarrow> bool" where
  "covers W X vs v \<longleftrightarrow> (\<exists>env. meant W vs v env {} X)"

text \<open>
  One evaluation of a rule: the bindings in \<open>N\<close> have the values \<open>e\<close>, the rule matches, and the
  overlapping rules of higher priority that are to be negated do not.
\<close>

definition negates :: "program \<Rightarrow> rule_set \<Rightarrow> trie_rule \<Rightarrow> trie_rule \<Rightarrow> bool" where
  "negates P R r other \<longleftrightarrow> other \<in> set (rs_rules R) \<and> is_negated P r other"

definition relevant :: "program \<Rightarrow> rule_set \<Rightarrow> trie_rule \<Rightarrow> binding_id set" where
  "relevant P R r = {b. \<exists>k. find_binding R (BArgument k) = Some b} \<union> dom (get_constraint r) \<union> items (equals r) \<union>
     set (impure r) \<union> {result r} \<union> (\<Union>other\<in>Collect (negates P R r). dom (get_constraint other))"

definition evaluation :: "world \<Rightarrow> program \<Rightarrow> rule_set \<Rightarrow> trie_rule \<Rightarrow> rvalue list \<Rightarrow> binding_id set \<Rightarrow> renv \<Rightarrow> bool" where
  "evaluation W P R r vs N e \<longleftrightarrow> relevant P R r \<subseteq> N \<and>
     (\<forall>i\<in>N. i < length (rs_bindings R) \<and> set (binding_sources (rs_bindings R ! i)) \<subseteq> N \<and> stands W vs e (rs_bindings R ! i) (e i)) \<and>
     matches r e \<and> (\<forall>other. negates P R r other \<longrightarrow> \<not> matches other e)"

section \<open>Applying a rule keeps the meaning\<close>

definition arguments_of :: "expansion \<Rightarrow> application \<Rightarrow> binding_id set" where
  "arguments_of X A = {j. length (ex_bindings X) \<le> j \<and> j < length (ex_bindings (ap_expansion A)) \<and>
     (\<exists>k. ex_bindings (ap_expansion A) ! j = Some (BArgument k))}"

text \<open>The values of an expansion under construction extend the old ones by those of the evaluation.\<close>

definition carries :: "world \<Rightarrow> rvalue list \<Rightarrow> rvalue \<Rightarrow> renv \<Rightarrow> renv \<Rightarrow> expansion \<Rightarrow> application \<Rightarrow> renv \<Rightarrow> bool" where
  "carries W vs v env0 e X A env \<longleftrightarrow> (\<forall>j<length (ex_bindings X). env j = env0 j) \<and>
     (\<forall>i j. hm_get (ap_reindex A) i = Some j \<longrightarrow> env j = e i) \<and>
     meant W vs v env (arguments_of X A) (ap_expansion A) \<and> (\<forall>(t, u)\<in>set (ap_substitutions A). env t = env u)"

definition meaning :: "world \<Rightarrow> program \<Rightarrow> rvalue list \<Rightarrow> rvalue \<Rightarrow> renv \<Rightarrow> binding_id set \<Rightarrow> renv \<Rightarrow>
    rule_set \<Rightarrow> trie_rule \<Rightarrow> expansion \<Rightarrow> binding_id list \<Rightarrow> binding_id \<Rightarrow> application \<Rightarrow> bool" where
  "meaning W P vs v env0 N e R r X params call_site A \<longleftrightarrow> shaped R r X params call_site A \<and>
     evaluation W P R r (map env0 params) N e \<and> env0 call_site = e (result r) \<and> (\<exists>env. carries W vs v env0 e X A env)"

lemma carriesD:
  assumes "carries W vs v env0 e X A env"
  shows "j < length (ex_bindings X) \<Longrightarrow> env j = env0 j" "hm_get (ap_reindex A) i = Some j \<Longrightarrow> env j = e i"
    "meant W vs v env (arguments_of X A) (ap_expansion A)" "(t, u) \<in> set (ap_substitutions A) \<Longrightarrow> env t = env u"
  using assms by (auto simp: carries_def)

text \<open>A new binding at the end of the table does not change what the others mean.\<close>

lemma meant_push:
  assumes "meant W vs v env D X" "ranged X" "D \<subseteq> D'"
    and "length (ex_bindings X) \<notin> D' \<Longrightarrow> stands W vs (env(length (ex_bindings X) := x)) b x"
  shows "meant W vs v (env(length (ex_bindings X) := x)) D' (X\<lparr>ex_bindings := ex_bindings X @ [Some b]\<rparr>)"
proof -
  let ?n = "length (ex_bindings X)" and ?env = "env(length (ex_bindings X) := x)"
  have below: "i < ?n \<Longrightarrow> ?env i = env i" for i by simp
  have "stands W vs ?env b' (?env i)" if i: "i < ?n" "i \<notin> D'" "ex_bindings X ! i = Some b'" for i b'
  proof -
    have "Some b' \<in> set (ex_bindings X)" using i by (metis nth_mem)
    then have "s < ?n" if "s \<in> set (binding_sources b')" for s using assms(2) that by (simp add: ranged_def)
    then have "stands W vs ?env b' y \<longleftrightarrow> stands W vs env b' y" for y by (intro stands_cong below)
    moreover have "i \<notin> D" using i(2) assms(3) by blast
    ultimately show ?thesis using assms(1) i by (simp add: meant_def)
  qed
  moreover have "holds ?env c" if "c \<in> set (ex_constraints X)" for c
  proof -
    have "i < ?n" if "i \<in> set (constrain_bindings c)" for i using assms(2) \<open>c \<in> set (ex_constraints X)\<close> that by (simp add: ranged_def)
    then have "holds ?env c \<longleftrightarrow> holds env c" by (intro holds_cong below)
    then show ?thesis using assms(1) that by (simp add: meant_def)
  qed
  moreover have "agrees (ex_equals X) ?env"
    unfolding agrees_def
  proof (intro allI impI)
    fix a b assume "same (ex_equals X) a b"
    moreover from same_items [OF this] have "a < ?n" "b < ?n" using assms(2) by (auto simp: ranged_def)
    ultimately show "?env a = ?env b" using assms(1) below by (simp add: meant_def agrees_def)
  qed
  moreover have "?env (ex_result X) = v" using assms(1,2) by (auto simp: meant_def ranged_def)
  ultimately show ?thesis using assms(4) by (auto simp: meant_def nth_append less_Suc_eq)
qed

lemma meaning_import:
  assumes "meaning W P vs v env0 N e R r X params call_site A" "i \<in> N" "\<not> is_mapped (ap_reindex A) i"
    and "\<forall>s\<in>set (binding_sources (rs_bindings R ! i)). is_mapped (ap_reindex A) s"
  shows "ends (import_binding i (rs_bindings R ! i) A) (meaning W P vs v env0 N e R r X params call_site)"
proof -
  let ?E = "ap_expansion A" and ?f = "reindex_id (ap_reindex A)" and ?b = "rs_bindings R ! i"
  let ?n = "length (ex_bindings ?E)"
  obtain env where env: "carries W vs v env0 e X A env" using assms(1) by (auto simp: meaning_def)
  have m: "shaped R r X params call_site A" "evaluation W P R r (map env0 params) N e" "env0 call_site = e (result r)"
    using assms(1) by (auto simp: meaning_def)
  have i: "i < length (rs_bindings R)" "stands W (map env0 params) e ?b (e i)" using m(2) assms(2) by (auto simp: evaluation_def)
  have to: "hm_get (ap_reindex A) k = Some j \<Longrightarrow> j < ?n" for k j using shapedD(2) [OF m(1)] .
  let ?env = "env(?n := e i)"
  have new: "stands W vs ?env (rename ?f ?b) (e i)" if "\<And>k. ?b \<noteq> BArgument k"
  proof -
    have "(?env \<circ> ?f) s = e s" if "s \<in> set (binding_sources ?b)" for s
      using assms(4) that carriesD(2) [OF env] to by (fastforce simp: is_mapped_def reindex_id_def)
    then have "stands W vs (?env \<circ> ?f) ?b (e i) \<longleftrightarrow> stands W vs e ?b (e i)" by (rule stands_cong)
    moreover have "stands W vs e ?b (e i)" using i(2) stands_arguments [OF that, of W vs e "e i" "map env0 params"] by simp
    ultimately show ?thesis by (simp add: stands_rename)
  qed
  show ?thesis
  proof (rule ends_weaken [OF ends_conj [OF shaped_import [OF m(1) i(1) assms(3,4)] import_binding_ends]], elim conjE)
    fix A' assume shape: "shaped R r X params call_site A'"
      and A': "A' = A\<lparr>ap_expansion := ?E\<lparr>ex_bindings := ex_bindings ?E @ [Some (rename ?f ?b)]\<rparr>, ap_reindex := hm_insert i ?n (ap_reindex A)\<rparr>"
    have sub: "arguments_of X A \<subseteq> arguments_of X A'" using A' by (auto simp: arguments_of_def nth_append)
    have n: "length (ex_bindings X) \<le> ?n" using m(1) by (auto simp: shaped_def prefix_def)
    have "stands W vs ?env (rename ?f ?b) (e i)" if "?n \<notin> arguments_of X A'"
      by (rule new) (use that A' n in \<open>auto simp: arguments_of_def nth_append\<close>)
    with meant_push [OF carriesD(3) [OF env] shapedD(1) [OF m(1)] sub] have "meant W vs v ?env (arguments_of X A') (ap_expansion A')"
      using A' by simp
    moreover have "?env j = e k" if "hm_get (ap_reindex A') k = Some j" for k j
      using that A' carriesD(2) [OF env, of k j] to [of k j] by (auto split: if_splits)
    moreover have "?env t = ?env u" if "(t, u) \<in> set (ap_substitutions A')" for t u
    proof -
      have "t < ?n" "u < ?n" using that A' m(1) by (auto simp: shaped_def)
      then show ?thesis using carriesD(4) [OF env] that A' by simp
    qed
    moreover have "?env j = env0 j" if "j < length (ex_bindings X)" for j using that n carriesD(1) [OF env] by simp
    ultimately have "carries W vs v env0 e X A' ?env" by (auto simp: carries_def)
    then show "meaning W P vs v env0 N e R r X params call_site A'" using shape m by (auto simp: meaning_def)
  qed
qed

text \<open>Conditions and substitutions that the values satisfy may be added.\<close>

lemma meaning_with:
  assumes "meaning W P vs v env0 N e R r X params call_site A" "shaped R r X params call_site (with_expansion f A)"
    and "ex_bindings (f (ap_expansion A)) = ex_bindings (ap_expansion A)" "ex_result (f (ap_expansion A)) = ex_result (ap_expansion A)"
    and "\<And>env c. (\<And>i j. hm_get (ap_reindex A) i = Some j \<Longrightarrow> env j = e i) \<Longrightarrow> \<forall>c\<in>set (ex_constraints (ap_expansion A)). holds env c \<Longrightarrow>
      c \<in> set (ex_constraints (f (ap_expansion A))) \<Longrightarrow> holds env c"
    and "\<And>env. (\<And>i j. hm_get (ap_reindex A) i = Some j \<Longrightarrow> env j = e i) \<Longrightarrow> agrees (ex_equals (ap_expansion A)) env \<Longrightarrow>
      agrees (ex_equals (f (ap_expansion A))) env"
  shows "meaning W P vs v env0 N e R r X params call_site (with_expansion f A)"
proof -
  obtain env where env: "carries W vs v env0 e X A env" using assms(1) by (auto simp: meaning_def)
  have m: "shaped R r X params call_site A" "evaluation W P R r (map env0 params) N e" "env0 call_site = e (result r)"
    using assms(1) by (auto simp: meaning_def)
  have "arguments_of X (with_expansion f A) = arguments_of X A" by (simp add: arguments_of_def with_expansion_def assms(3))
  then have "meant W vs v env (arguments_of X (with_expansion f A)) (f (ap_expansion A))"
    using carriesD(2,3) [OF env] assms(3,4) assms(5) [of env] assms(6) [of env] by (simp add: meant_def)
  then have "carries W vs v env0 e X (with_expansion f A) env" using env by (simp add: carries_def with_expansion_def)
  then show ?thesis using m assms(2) by (auto simp: meaning_def)
qed

lemma meaning_push:
  assumes "meaning W P vs v env0 N e R r X params call_site A" "shaped R r X params call_site (push_substitution t u A)"
    and "\<And>env. (\<And>j. j < length (ex_bindings X) \<Longrightarrow> env j = env0 j) \<Longrightarrow> (\<And>i j. hm_get (ap_reindex A) i = Some j \<Longrightarrow> env j = e i) \<Longrightarrow> env t = env u"
  shows "meaning W P vs v env0 N e R r X params call_site (push_substitution t u A)"
proof -
  obtain env where env: "carries W vs v env0 e X A env" using assms(1) by (auto simp: meaning_def)
  have m: "shaped R r X params call_site A" "evaluation W P R r (map env0 params) N e" "env0 call_site = e (result r)"
    using assms(1) by (auto simp: meaning_def)
  have "arguments_of X (push_substitution t u A) = arguments_of X A" by (simp add: arguments_of_def push_substitution_def)
  then have "carries W vs v env0 e X (push_substitution t u A) env"
    using env assms(3) [of env] by (simp add: carries_def push_substitution_def)
  then show ?thesis using m assms(2) by (auto simp: meaning_def)
qed

text \<open>A negated rule without equalities fails at one of its constraints.\<close>

lemma negated_holds:
  assumes "evaluation W P R r vs N e" "negates P R r other" "equals other = []"
    and "\<And>i j. hm_get (ap_reindex A) i = Some j \<Longrightarrow> env j = e i"
    and "\<forall>i<length (rs_bindings R). \<forall>c. get_constraint other i = Some c \<longrightarrow> (\<exists>j. hm_get (ap_reindex A) i = Some j \<and> Match j c \<in> set cs)"
  shows "holds env (NotAll cs)"
proof -
  have "\<not> satisfies (constraints other) e" using assms(1-3) by (auto simp: evaluation_def matches_def)
  then obtain i c where i: "get_constraint other i = Some c" "\<not> accepts c (e i)" by (auto simp: satisfies_def get_constraint_def)
  then have "i \<in> relevant P R r" using assms(2) by (auto simp: relevant_def)
  then have "i < length (rs_bindings R)" using assms(1) by (auto simp: evaluation_def)
  then obtain j where "hm_get (ap_reindex A) i = Some j" "Match j c \<in> set cs"
    using assms(5) [rule_format, of i c] i(1) by auto
  moreover from this(1) have "\<not> holds env (Match j c)" using assms(4) i(2) by simp
  ultimately show ?thesis by (auto simp del: holds.simps(1))
qed

interpretation sense: rule_invariant R N "meaning W P vs v env0 N e R r X params call_site" r params call_site
  "\<lambda>other. negates P R r other \<and> equals other = []"
  for W P vs v env0 N e R r X params call_site
proof (unfold_locales, goal_cases)
  case (1 A)
  then show ?case by (simp add: meaning_def shaped_def)
next
  case (2 A i)
  then show ?case by (auto simp: meaning_def evaluation_def)
next
  case (3 A i)
  then show ?case by (intro meaning_import) auto
next
  case (4 A)
  then show ?case by (simp add: meaning_def shaped_def)
next
  case (5 A k b)
  then show ?case by (auto simp: meaning_def evaluation_def relevant_def)
next
  case (6 A i c)
  then show ?case by (auto simp: meaning_def evaluation_def relevant_def)
next
  case (7 A i k)
  then show ?case using root_item [OF 7(2)] root_item [of "equals r" k k] root_root [OF 7(2)]
    by (auto simp: meaning_def evaluation_def relevant_def)
next
  case (8 A i)
  then show ?case by (auto simp: meaning_def evaluation_def relevant_def)
next
  case (9 A)
  then show ?case by (auto simp: meaning_def evaluation_def relevant_def)
next
  case (10 A other i c)
  then have "i \<in> relevant P R r" unfolding relevant_def by blast
  then show ?case using 10(1) by (auto simp: meaning_def evaluation_def)
next
  case (11 A)
  then show ?case by (simp add: meaning_def shaped_def ranged_def)
next
  case (12 A n)
  then show ?case
    by (rule meaning_with) (use 12 shape.recorded in \<open>auto simp: meaning_def\<close>)
next
  case (13 A n)
  then show ?case
    by (rule meaning_with) (use 13 shape.recorded_negated in \<open>auto simp: meaning_def\<close>)
next
  case (14 A k b j)
  have b: "b \<in> N" "b < length (rs_bindings R)" "rs_bindings R ! b = BArgument k"
    using 14 by (auto simp: meaning_def evaluation_def relevant_def shaped_def table_ok_def find_binding_def)
  then have "stands W (map env0 params) e (BArgument k) (e b)" using 14(1) by (force simp: meaning_def evaluation_def)
  then have e: "e b = env0 (params ! k)" using 14(2) by simp
  show ?case
  proof (rule meaning_push [OF 14(1)])
    show "shaped R r X params call_site (push_substitution j (params ! k) A)" using shape.argued 14 by (simp add: meaning_def)
    fix env assume "\<And>j. j < length (ex_bindings X) \<Longrightarrow> env j = env0 j" "\<And>i j. hm_get (ap_reindex A) i = Some j \<Longrightarrow> env j = e i"
    moreover have "params ! k < length (ex_bindings X)" using 14(1,2) by (auto simp: meaning_def shaped_def)
    ultimately show "env j = env (params ! k)" using 14(4) e by simp
  qed
next
  case (15 A i c j)
  have "accepts c (e i)" using 15(1,2) by (auto simp: meaning_def evaluation_def matches_def satisfies_def get_constraint_def)
  with 15(1) show ?case
    by (intro meaning_with)
      (use shape.matched 15 in \<open>auto simp: meaning_def add_match_def add_constrain_def\<close>)
next
  case (16 A i k x y m)
  have "same (equals r) i k" using 16(2) root_root [OF 16(2)] by (auto simp: same_def)
  then have e: "e i = e k" using 16(1) by (auto simp: meaning_def evaluation_def matches_def agrees_def)
  have "forest_ok (ex_equals (ap_expansion A))" using 16(1) by (simp add: meaning_def shaped_def ranged_def)
  from merge_same [OF this 16(6)] 16(7) have "same m = unite (same (ex_equals (ap_expansion A))) x y" by (auto simp: fun_eq_iff)
  note agree = agrees_unite [OF this]
  show ?case
  proof (rule meaning_with [OF 16(1)])
    show "shaped R r X params call_site (with_expansion (ex_equals_update (\<lambda>_. m)) A)"
      using shape.merged [OF _ 16(2-7)] 16(1) by (simp add: meaning_def)
    fix env assume "\<And>i j. hm_get (ap_reindex A) i = Some j \<Longrightarrow> env j = e i" "agrees (ex_equals (ap_expansion A)) env"
    then show "agrees (ex_equals ((ap_expansion A)\<lparr>ex_equals := m\<rparr>)) env" using agree 16(4,5) e by simp
  qed simp_all
next
  case (17 A j)
  have m: "shaped R r X params call_site A" "env0 call_site = e (result r)" using 17(1) by (auto simp: meaning_def)
  show ?case
  proof (rule meaning_push [OF 17(1)])
    show "shaped R r X params call_site (push_substitution call_site j A)" using shape.resulted [OF m(1) 17(2)] .
    fix env assume "\<And>j. j < length (ex_bindings X) \<Longrightarrow> env j = env0 j" "\<And>i j. hm_get (ap_reindex A) i = Some j \<Longrightarrow> env j = e i"
    moreover have "call_site < length (ex_bindings X)" using m(1) by (simp add: shaped_def)
    ultimately show "env call_site = env j" using 17(2) m(2) by simp
  qed
next
  case (18 A other cs)
  show ?case
  proof (rule meaning_with [OF 18(1)])
    show "shaped R r X params call_site (with_expansion (add_constrain (NotAll cs)) A)"
      using shape.negated 18 by (simp add: meaning_def)
    fix env c
    assume "\<And>i j. hm_get (ap_reindex A) i = Some j \<Longrightarrow> env j = e i" "\<forall>c\<in>set (ex_constraints (ap_expansion A)). holds env c"
      "c \<in> set (ex_constraints (add_constrain (NotAll cs) (ap_expansion A)))"
    moreover from this(1) have "holds env (NotAll cs)"
      using negated_holds [of W P R r "map env0 params" N e other A env cs] 18 by (simp add: meaning_def)
    ultimately show "holds env c" by (auto simp: add_constrain_def)
  qed (simp_all add: add_constrain_def)
qed

section \<open>Chaining a call keeps the meaning\<close>

text \<open>A binding may be replaced by one with the same value.\<close>

lemma substitute_meant:
  assumes "meant W vs v env D X" "env t = env u"
  shows "ends (ex_substitute t u X) (meant W vs v env (D - {t}))"
proof (rule ends_weaken [OF ex_substitute_ends])
  let ?f = "reindex_id [(t, u)]"
  let ?bs = "(map (map_option (rename ?f)) (ex_bindings X))[t := None]"
  fix X' assume X': "t < length (ex_bindings X) \<and> X' = X\<lparr>ex_bindings := ?bs,
    ex_constraints := map (constrain_substitute [(t, u)]) (ex_constraints X), ex_result := ?f (ex_result X)\<rparr>"
  have same: "env (?f i) = env i" for i using assms(2) by (simp add: reindex_id_def)
  then have comp: "env \<circ> ?f = env" by (simp add: fun_eq_iff)
  have "stands W vs env b' (env i)" if i: "i < length (ex_bindings X)" "i \<notin> D - {t}" "?bs ! i = Some b'" for i b'
  proof -
    have "i \<noteq> t" using i by auto
    then obtain b where "ex_bindings X ! i = Some b" "b' = rename ?f b" using i by auto
    then show ?thesis using assms(1) i(1,2) \<open>i \<noteq> t\<close> by (simp add: meant_def stands_rename comp)
  qed
  then show "meant W vs v env (D - {t}) X'"
    using assms(1) X' same by (auto simp: meant_def holds_substitute comp)
qed

lemma build_meant:
  assumes "meant W vs v env D (ap_expansion A)" "\<forall>(t, u)\<in>set (ap_substitutions A). env t = env u"
  shows "ends (application_build A) (meant W vs v env (D - fst ` set (ap_substitutions A)))"
proof -
  have "ends (application_build A) (meant W vs v env (D - fst ` set (rev (ap_substitutions A))))"
    unfolding application_build_def
  proof (rule ends_each_prefix)
    fix ys x zs X assume l: "rev (ap_substitutions A) = ys @ x # zs" and X: "meant W vs v env (D - fst ` set ys) X"
    obtain t u where x: "x = (t, u)" by (cases x)
    have "(t, u) \<in> set (ap_substitutions A)" using arg_cong [OF l, of set] x by auto
    then have "env t = env u" using assms(2) by auto
    from substitute_meant [OF X this]
    show "ends ((case x of (target, replace) \<Rightarrow> ex_substitute target replace) X) (meant W vs v env (D - fst ` set (ys @ [x])))"
      by (simp add: x set_diff_eq conj_ac)
  qed (use assms(1) in simp)
  then show ?thesis by simp
qed

text \<open>The imported arguments have all been replaced by the parameters of the call.\<close>

lemma arguments_replaced:
  assumes "shaped R r X params c A" "\<forall>k<length params. substituted R params k A"
    and "\<forall>k. BArgument k \<in> set (rs_bindings R) \<longrightarrow> k < length params"
  shows "arguments_of X A \<subseteq> fst ` set (ap_substitutions A)"
proof
  fix j assume "j \<in> arguments_of X A"
  then obtain k where j: "length (ex_bindings X) \<le> j" "j < length (ex_bindings (ap_expansion A))"
    "ex_bindings (ap_expansion A) ! j = Some (BArgument k)" by (auto simp: arguments_of_def)
  then obtain i f where i: "hm_get (ap_reindex A) i = Some j" "i < length (rs_bindings R)"
    "Some (BArgument k) = Some (rename f (rs_bindings R ! i))" using assms(1) unfolding shaped_def by metis
  then have arg: "rs_bindings R ! i = BArgument k" by (metis option.inject rename_simps(3))
  then have "k < length params" using assms(3) i(2) by (metis nth_mem)
  then have "substituted R params k A" using assms(2) by blast
  then obtain b j' where b: "find_binding R (BArgument k) = Some b" "hm_get (ap_reindex A) b = Some j'"
    "(j', params ! k) \<in> set (ap_substitutions A)" unfolding substituted_def by blast
  have "table_ok R" using assms(1) by (simp add: shaped_def)
  then have "find_binding R (BArgument k) = Some i" using i(2) arg by (simp add: table_ok_def find_binding_def)
  then have "j' = j" using b i(1) by simp
  then show "j \<in> fst ` set (ap_substitutions A)" using b(3) by force
qed

text \<open>No rule that a rule of the set negates has equalities.\<close>

definition plain_negations :: "program \<Rightarrow> rule_set \<Rightarrow> bool" where
  "plain_negations P R \<longleftrightarrow> (\<forall>r\<in>set (rs_rules R). \<forall>other. negates P R r other \<longrightarrow> equals other = [])"

lemma chained_covers:
  assumes "call_site_ok R X params c" "r \<in> set (rs_rules R)" "meant W vs v env0 {} X" "plain_negations P R"
    and "evaluation W P R r (map env0 params) N e" "env0 c = e (result r)"
    and "\<forall>k. BArgument k \<in> set (rs_bindings R) \<longrightarrow> k < length params"
  shows "ends (after (apply_rule R r params c (application_new X)) (\<lambda>A. after (apply_negations P R r A) application_build))
    (\<lambda>X'. covers W X' vs v)"
proof -
  have "arguments_of X (application_new X) = {}" by (auto simp: arguments_of_def application_new_def)
  then have "carries W vs v env0 e X (application_new X) env0" using assms(3) by (simp add: carries_def application_new_def)
  then have start: "meaning W P vs v env0 N e R r X params c (application_new X)"
    using application_new_shaped [OF assms(1,2)] assms(5,6) by (auto simp: meaning_def)
  show ?thesis
  proof (rule ends_after [OF sense.apply_rule_ends [OF start]], rule ends_after [OF sense.apply_negations_ends])
    fix other assume "other \<in> set (rs_rules R)" "is_negated P r other"
    then show "negates P R r other \<and> equals other = []" using assms(2,4) by (auto simp: plain_negations_def negates_def)
  next
    fix A assume "sense.ruled R W P vs v env0 N e r X params c A"
    then have A: "meaning W P vs v env0 N e R r X params c A" "\<forall>k<length params. substituted R params k A"
      by (auto simp: sense.ruled_def)
    then obtain env where env: "carries W vs v env0 e X A env" "shaped R r X params c A" by (auto simp: meaning_def)
    have "\<forall>(t, u)\<in>set (ap_substitutions A). env t = env u" using env(1) by (simp add: carries_def)
    from build_meant [OF carriesD(3) [OF env(1)] this] arguments_replaced [OF env(2) A(2) assms(7)]
    have "ends (application_build A) (meant W vs v env {})" by (simp add: Diff_eq_empty_iff [THEN iffD2])
    then show "ends (application_build A) (\<lambda>X'. covers W X' vs v)" by (rule ends_weaken) (auto simp: covers_def)
  qed
qed

text \<open>What is pruned has no meaning.\<close>

lemma stands_compatible: "stands W vs env b x \<Longrightarrow> accepts c x \<Longrightarrow> compatible c b"
  by (cases c; cases b) auto

lemma feasible_covers:
  assumes "covers W X vs v"
  shows "ends (is_feasible X) (\<lambda>keep. keep)"
proof -
  obtain env where env: "meant W vs v env {} X" using assms by (auto simp: covers_def)
  have compatible: "compatible c b" if "ex_binding X i = Some b" "holds env (Match i c)" for i c b
    using env that stands_compatible by (auto simp: meant_def ex_binding_Some)
  have "\<forall>c\<in>set cs. holds env c \<Longrightarrow> ends (feasible_loop X cs) (\<lambda>keep. keep)" for cs
  proof (induction cs)
    case (Cons c cs)
    then show ?case using compatible by (cases c) (auto split: option.splits)
  qed simp
  then show ?thesis using env by (auto simp: is_feasible_def expansion_validate_def meant_def)
qed

section \<open>The expander covers every result\<close>

text \<open>
  In a lawful world a call of a term with rules has only the results its rules give, for arguments
  that are as many as the rules read.
\<close>

definition fires :: "world \<Rightarrow> program \<Rightarrow> rule_set \<Rightarrow> rvalue list \<Rightarrow> rvalue \<Rightarrow> bool" where
  "fires W P R vs v \<longleftrightarrow> (\<forall>k. BArgument k \<in> set (rs_bindings R) \<longrightarrow> k < length vs) \<and>
     (\<exists>r\<in>set (rs_rules R). \<exists>N e. evaluation W P R r vs N e \<and> e (result r) = v)"

definition lawful :: "world \<Rightarrow> program \<Rightarrow> (term_id, rule_set) hashmap \<Rightarrow> bool" where
  "lawful W P sets \<longleftrightarrow> (\<forall>t R. hm_get sets t = Some R \<longrightarrow> (\<forall>vs v. w_con W t vs v \<longrightarrow> fires W P R vs v))"

text \<open>A condition on the rules alone: none that is negated has equalities.\<close>

definition negated_rules_plain :: "program \<Rightarrow> (term_id, rule_set) hashmap \<Rightarrow> bool" where
  "negated_rules_plain P sets \<longleftrightarrow> (\<forall>t R. hm_get sets t = Some R \<longrightarrow> plain_negations P R)"

definition covering :: "world \<Rightarrow> term_id \<Rightarrow> rvalue list \<Rightarrow> rvalue \<Rightarrow> expansion \<Rightarrow> bool" where
  "covering W t vs v X \<longleftrightarrow> ex_term X = t \<and> covers W X vs v"

lemma chain_rule_covers:
  assumes "call_site_ok R X params c" "r \<in> set (rs_rules R)" "meant W vs v env0 {} X" "plain_negations (x_prog S) R"
    and "evaluation W (x_prog S) R r (map env0 params) N e" "env0 c = e (result r)"
    and "\<forall>k. BArgument k \<in> set (rs_bindings R) \<longrightarrow> k < length params"
  shows "ends (chain_rule R X params c cands r S) (\<lambda>S'. \<exists>X'. covering W (ex_term X) vs v X' \<and>
    S' = S\<lparr>x_stack := \<lparr>pa_expansion = X', pa_candidates = cands\<rparr> # x_stack S\<rparr>)"
proof -
  let ?chained = "after (apply_rule R r params c (application_new X)) (\<lambda>A. after (apply_negations (x_prog S) R r A) application_build)"
  let ?Q = "\<lambda>S'. \<exists>X'. covering W (ex_term X) vs v X' \<and> S' = S\<lparr>x_stack := \<lparr>pa_expansion = X', pa_candidates = cands\<rparr> # x_stack S\<rparr>"
  have "ends (after ?chained (\<lambda>chained. after (if x_prune S then is_feasible chained else Some (Ok True)) (\<lambda>keep.
      Some (Ok (if keep then S\<lparr>x_stack := \<lparr>pa_expansion = chained, pa_candidates = cands\<rparr> # x_stack S\<rparr> else S))))) ?Q"
  proof (rule ends_after [OF ends_conj [OF chained_covers [OF assms] chained_ends [OF assms(1,2)]]], rule ends_after [of _ "\<lambda>keep. keep"])
    fix X' assume X': "covers W X' vs v \<and> child R X c X'"
    then show "ends (if x_prune S then is_feasible X' else Some (Ok True)) (\<lambda>keep. keep)" using feasible_covers [of W X' vs v] by simp
    fix keep assume keep
    then show "ends (Some (Ok (if keep then S\<lparr>x_stack := \<lparr>pa_expansion = X', pa_candidates = cands\<rparr> # x_stack S\<rparr> else S))) ?Q"
      using X' by (auto simp: covering_def child_def)
  qed
  then show ?thesis by (simp add: chain_rule_def after_assoc)
qed

lemma chain_rules_cover:
  assumes "call_site_ok R X params c" "r \<in> set rs" "set rs \<subseteq> set (rs_rules R)" "meant W vs v env0 {} X" "plain_negations (x_prog S) R"
    and "evaluation W (x_prog S) R r (map env0 params) N e" "env0 c = e (result r)"
    and "\<forall>k. BArgument k \<in> set (rs_bindings R) \<longrightarrow> k < length params"
  shows "ends (each (chain_rule R X params c cands) rs S) (\<lambda>S'. \<exists>Q\<in>set (x_stack S'). covering W (ex_term X) vs v (pa_expansion Q))"
proof -
  let ?J = "\<lambda>ys (S' :: expander). x_prog S' = x_prog S \<and> (r \<in> set ys \<longrightarrow> (\<exists>Q\<in>set (x_stack S'). covering W (ex_term X) vs v (pa_expansion Q)))"
  have "ends (each (chain_rule R X params c cands) rs S) (?J rs)"
  proof (rule ends_each_prefix)
    fix ys x zs S1 assume l: "rs = ys @ x # zs" and S1: "?J ys S1"
    have x: "x \<in> set (rs_rules R)" using assms(3) l by auto
    show "ends (chain_rule R X params c cands x S1) (?J (ys @ [x]))"
    proof (cases "x = r")
      case True
      then show ?thesis
        using chain_rule_covers [of R X params c r W vs v env0 S1 N e cands] assms S1 x by (auto elim!: ends_weaken)
    next
      case False
      then show ?thesis
        using chain_rule_ends [OF assms(1) x, of cands S1] S1 by (auto elim!: ends_weaken)
    qed
  qed simp
  then show ?thesis by (rule ends_weaken) (use assms(2) in simp)
qed

lemma chain_call_covers:
  assumes "lawful W (x_prog S) (x_sets S)" "sets_ok (x_sets S)" "ranged X" "covers W X vs v"
    and "negated_rules_plain (x_prog S) (x_sets S)"
  shows "ends (chain_call X c cands S) (\<lambda>S'. \<exists>Q\<in>set (x_stack S'). covering W (ex_term X) vs v (pa_expansion Q))"
proof (cases "\<exists>t params k R. ex_binding X c = Some (BConstructor t params k) \<and> hm_get (x_sets S) t = Some R \<and> rs_rules R \<noteq> []")
  case True
  then obtain t params k R where c: "ex_binding X c = Some (BConstructor t params k)" "hm_get (x_sets S) t = Some R" "rs_rules R \<noteq> []" by blast
  obtain env0 where env0: "meant W vs v env0 {} X" using assms(4) by (auto simp: covers_def)
  then have "w_con W t (map env0 params) (env0 c)" using c(1) by (force simp: meant_def ex_binding_Some)
  then have fires: "fires W (x_prog S) R (map env0 params) (env0 c)" "plain_negations (x_prog S) R"
    using assms(1,5) c(2) by (auto simp: lawful_def negated_rules_plain_def)
  then obtain r N e where r: "r \<in> set (rs_rules R)" "evaluation W (x_prog S) R r (map env0 params) N e" "env0 c = e (result r)"
    by (auto simp: fires_def)
  have "Some (BConstructor t params k) \<in> set (ex_bindings X)" using c(1) by (auto simp: ex_binding_Some in_set_conv_nth)
  then have ok: "call_site_ok R X params c" using assms(2,3) c by (fastforce simp: call_site_ok_def sets_ok_def ranged_def ex_binding_Some)
  show ?thesis
    using chain_rules_cover [OF ok _ _ env0 fires(2) r(2,3), of "rev (rs_rules R)" cands] r(1) fires(1) c
    by (simp add: chain_call_def fires_def)
next
  case False
  then have "chain_call X c cands S = Some Panic" by (auto simp: chain_call_def split: option.splits binding.splits)
  then show ?thesis by simp
qed

text \<open>
  Every result of a root is covered by an expansion that is complete, on the stack or in hand.
\<close>

definition has_arity :: "program \<Rightarrow> term_id \<Rightarrow> nat \<Rightarrow> bool" where
  "has_arity P t n \<longleftrightarrow> (\<exists>td. prog_term P t = Some (Ok td) \<and> n = length (arg_tys td))"

definition describes :: "world \<Rightarrow> expansion set \<Rightarrow> expander \<Rightarrow> bool" where
  "describes W extra S \<longleftrightarrow> lawful W (x_prog S) (x_sets S) \<and> negated_rules_plain (x_prog S) (x_sets S) \<and> (\<forall>t\<in>x_roots S. \<forall>vs v.
     has_arity (x_prog S) t (length vs) \<longrightarrow> w_con W t vs v \<longrightarrow>
     (\<exists>X\<in>extra \<union> set (x_complete S) \<union> pa_expansion ` set (x_stack S). covering W t vs v X))"

lemma root_covering:
  assumes "w_con W t vs v"
  shows "covering W t vs v (root_expansion t (length vs))"
proof -
  let ?n = "length vs"
  let ?env = "\<lambda>i. if i < ?n then vs ! i else v"
  have "map ?env [0..<?n] = vs" by (rule nth_equalityI) auto
  then have "meant W vs v ?env {} (root_expansion t ?n)"
    using assms by (auto simp: meant_def root_expansion_def nth_append less_Suc_eq agrees_def)
  then show ?thesis by (auto simp: covering_def covers_def root_expansion_def)
qed

lemma add_root_describes:
  assumes "describes W extra S"
  shows "ends (add_root t S) (describes W extra)"
proof (rule ends_weaken [OF add_root_ends])
  fix S' assume S': "if t \<in> x_roots S then S' = S else \<exists>td. prog_term (x_prog S) t = Some (Ok td) \<and>
     S' = S\<lparr>x_stack := \<lparr>pa_expansion = root_expansion t (length (arg_tys td)), pa_candidates = [length (arg_tys td)]\<rparr> # x_stack S,
       x_roots := insert t (x_roots S)\<rparr>"
  show "describes W extra S'"
  proof (cases "t \<in> x_roots S")
    case False
    then obtain td where td: "prog_term (x_prog S) t = Some (Ok td)"
      "S' = S\<lparr>x_stack := \<lparr>pa_expansion = root_expansion t (length (arg_tys td)), pa_candidates = [length (arg_tys td)]\<rparr> # x_stack S,
        x_roots := insert t (x_roots S)\<rparr>" using S' by auto
    have "covering W t vs v (root_expansion t (length (arg_tys td)))" if "w_con W t vs v" "has_arity (x_prog S) t (length vs)" for vs v
      using that td(1) root_covering [of W t vs v] by (auto simp: has_arity_def)
    then show ?thesis using assms unfolding describes_def td(2) by (auto 4 3)
  qed (use S' assms in simp)
qed

lemma cascades_describe:
  assumes "describes W extra S"
  shows "ends (each cascade cs S) (describes W extra)"
proof (rule ends_each)
  fix c S1 assume "describes W extra S1"
  then show "ends (cascade c S1) (describes W extra)"
    unfolding cascade_def
    by (intro ends_after [OF is_expandable_ends]) (simp add: add_root_describes)
qed (rule assms)

lemma describes_pop:
  "describes W {} S \<Longrightarrow> x_stack S = P # stack \<Longrightarrow> describes W {pa_expansion P} (S\<lparr>x_stack := stack\<rparr>)"
  by (simp add: describes_def)

lemma finish_describes:
  assumes "describes W {X} S"
  shows "ends (finish X S) (describes W {})"
  unfolding finish_def
proof (rule ends_after [OF cascades_describe [OF assms]])
  fix S1 assume "describes W {X} S1"
  then have "describes W {} (S1\<lparr>x_complete := x_complete S1 @ [X]\<rparr>)" by (simp add: describes_def)
  then show "ends (after (expansion_validate X) (\<lambda>_. Some (Ok (S1\<lparr>x_complete := x_complete S1 @ [X]\<rparr>)))) (describes W {})"
    by (simp add: expansion_validate_def)
qed

lemma ends_all: "(\<And>x. ends r (Q x)) \<Longrightarrow> ends r (\<lambda>s. \<forall>x. Q x s)"
  unfolding ends_def by (metis option.inject outcome.distinct(5) outcome.inject(1))

lemma chain_call_describes:
  assumes "describes W {X} S" "sets_ok (x_sets S)" "ranged X"
  shows "ends (chain_call X c cands S) (describes W {})"
proof -
  have law: "lawful W (x_prog S) (x_sets S)" "negated_rules_plain (x_prog S) (x_sets S)"
    using assms(1) by (simp_all add: describes_def)
  have "ends (chain_call X c cands S) (\<lambda>S'. \<forall>vs v. covers W X vs v \<longrightarrow> (\<exists>Q\<in>set (x_stack S'). covering W (ex_term X) vs v (pa_expansion Q)))"
  proof (rule ends_all, rule ends_all)
    fix vs v
    show "ends (chain_call X c cands S) (\<lambda>S'. covers W X vs v \<longrightarrow> (\<exists>Q\<in>set (x_stack S'). covering W (ex_term X) vs v (pa_expansion Q)))"
      by (cases "covers W X vs v", rule ends_weaken [OF chain_call_covers [OF law(1) assms(2,3) _ law(2)]])
        (auto intro: ends_weaken [OF chain_call_ends [OF assms(2,3)]])
  qed
  from ends_conj [OF this chain_call_ends [OF assms(2,3)]] show ?thesis
  proof (rule ends_weaken, elim conjE exE)
    fix S' new assume new: "\<forall>vs v. covers W X vs v \<longrightarrow> (\<exists>Q\<in>set (x_stack S'). covering W (ex_term X) vs v (pa_expansion Q))"
      "S' = S\<lparr>x_stack := new @ x_stack S\<rparr>"
    have "\<exists>Y\<in>set (x_complete S') \<union> pa_expansion ` set (x_stack S'). covering W t vs v Y"
      if "Y \<in> {X} \<union> set (x_complete S) \<union> pa_expansion ` set (x_stack S)" "covering W t vs v Y" for t vs v Y
    proof (cases "Y = X")
      case True
      then have "covers W X vs v" "t = ex_term X" using that(2) by (auto simp: covering_def)
      then show ?thesis using new(1) by blast
    next
      case False
      then show ?thesis using that new(2) by auto
    qed
    moreover have "\<exists>Y\<in>{X} \<union> set (x_complete S) \<union> pa_expansion ` set (x_stack S). covering W t vs v Y"
      if "t \<in> x_roots S'" "has_arity (x_prog S') t (length vs)" "w_con W t vs v" for t vs v
      using assms(1) that new(2) by (simp add: describes_def)
    ultimately have "\<exists>Y\<in>set (x_complete S') \<union> pa_expansion ` set (x_stack S'). covering W t vs v Y"
      if "t \<in> x_roots S'" "has_arity (x_prog S') t (length vs)" "w_con W t vs v" for t vs v using that by metis
    then show "describes W {} S'" using law new(2) by (simp add: describes_def)
  qed
qed

lemma extend_describes:
  assumes "expander_ok S" "describes W {} S" "x_stack S = P # stack"
  shows "ends (Veri_Expander.extend P (S\<lparr>x_stack := stack\<rparr>)) (describes W {})"
  unfolding Veri_Expander.extend_def Let_def
proof (rule ends_after [OF candidates_ends])
  fix cands
  note pop = describes_pop [OF assms(2,3)]
  have "ranged (pa_expansion P)" "sets_ok (x_sets (S\<lparr>x_stack := stack\<rparr>))"
    using assms(1,3) by (auto simp: expander_ok_def partial_ok_def)
  then show "ends (case cands of [] \<Rightarrow> finish (pa_expansion P) (S\<lparr>x_stack := stack\<rparr>)
    | c # cands \<Rightarrow> chain_call (pa_expansion P) c cands (S\<lparr>x_stack := stack\<rparr>)) (describes W {})"
    using finish_describes [OF pop] chain_call_describes [OF pop] by (cases cands) auto
qed

lemma started_describes:
  assumes "started P sets C S" "lawful W P sets" "negated_rules_plain P sets"
  shows "describes W {} S"
  using assms(1)
proof (induction rule: started_induct)
  case (root S t S')
  then show ?case using ends_OkD [OF add_root_describes [OF root(1)] root(2)] by simp
qed (use assms(2,3) in \<open>simp_all add: expander_new_def set_prune_infeasible_def describes_def\<close>)

section \<open>Properties\<close>


text \<open>In the example both terms replace one value by another.\<close>

definition pair_world :: world where
  "pair_world = \<lparr>w_con = (\<lambda>t vs v. \<exists>a. vs = [a] \<and> v = (if a = VInt 2 5 then VInt 8 5 else a)), w_ext = (\<lambda>_ _ _. False)\<rparr>"

lemma pair_f_fires: "w_con pair_world 0 vs v \<Longrightarrow> fires pair_world pair_program f_rules vs v"
proof -
  assume "w_con pair_world 0 vs v"
  then obtain a where a: "vs = [a]" "v = (if a = VInt 2 5 then VInt 8 5 else a)" by (auto simp: pair_world_def)
  let ?r = "rs_rules f_rules ! 0" and ?e = "\<lambda>i. if i = 0 then a else v"
  have "evaluation pair_world pair_program f_rules ?r vs {0, 1} ?e"
    using a
    by (auto simp: evaluation_def relevant_def negates_def is_negated_def pair_overlaps f_rules_def find_binding_def get_constraint_def
        items_def matches_def satisfies_def agrees_def pair_world_def)
  moreover have "?r \<in> set (rs_rules f_rules)" "?e (result ?r) = v" by (simp_all add: f_rules_def)
  moreover have "\<forall>k. BArgument k \<in> set (rs_bindings f_rules) \<longrightarrow> k < length vs" using a(1) by (simp add: f_rules_def)
  ultimately show ?thesis unfolding fires_def by blast
qed

lemma pair_g_fires: "w_con pair_world 1 vs v \<Longrightarrow> fires pair_world pair_program g_rules vs v"
proof -
  assume "w_con pair_world 1 vs v"
  then obtain a where a: "vs = [a]" "v = (if a = VInt 2 5 then VInt 8 5 else a)" by (auto simp: pair_world_def)
  let ?r = "rs_rules g_rules ! (if a = VInt 2 5 then 1 else 0)" and ?e = "\<lambda>i. if i = 0 then a else VInt 8 5"
  have "evaluation pair_world pair_program g_rules ?r vs {0, 1} ?e"
    using a
    by (auto simp: evaluation_def relevant_def negates_def is_negated_def pair_overlaps g_rules_def find_binding_def get_constraint_def
        items_def matches_def satisfies_def agrees_def pair_world_def split: if_splits elim!: accepts.elims)
  moreover have "?r \<in> set (rs_rules g_rules)" "?e (result ?r) = v" using a(2) by (simp_all add: g_rules_def)
  moreover have "\<forall>k. BArgument k \<in> set (rs_bindings g_rules) \<longrightarrow> k < length vs" using a(1) by (simp add: g_rules_def)
  ultimately show ?thesis unfolding fires_def by blast
qed

lemma pair_lawful: "lawful pair_world pair_program pair_sets"
  using pair_f_fires pair_g_fires
  by (auto simp: lawful_def pair_sets_def split: if_splits)

lemma pair_plain: "negated_rules_plain pair_program pair_sets"
  by (auto simp: negated_rules_plain_def pair_sets_def plain_negations_def negates_def f_rules_def g_rules_def
      split: if_splits)


end
