(* ===== verification/Veri_Equalities.thy ===== *)
theory Veri_Equalities
  imports Veri_Coverage
begin

text \<open>
  Two defects of \<^verbatim>\<open>veri/src/expand.rs\<close> in the treatment of equalities between bindings, on a term with
  a rule for equal arguments and a rule of lower priority for all others.
\<close>

section \<open>The example\<close>

abbreviation twin_env :: term_env where
  "twin_env \<equiv> example_env [example_rule 2 7 [PBindPattern 5 4 (PWildcard 5), PWildcard 5] (XVar 5 4),
     example_rule 3 9 [PBindPattern 5 4 (PWildcard 5), PVar 5 4] (XConstInt 5 8)]"

definition any_rule :: trie_rule where
  "any_rule = \<lparr>rule_id = 2, rule_pos = pos_new 0 2, constraints = [], equals = [],
     iterators = {}, prio = 7, rule_name = None, impure = [], result = 0\<rparr>"

definition twin_rule :: trie_rule where
  "twin_rule = \<lparr>rule_id = 3, rule_pos = pos_new 0 3, constraints = [], equals = [(1, 1, 1), (0, 1, 0)],
     iterators = {}, prio = 9, rule_name = None, impure = [], result = 2\<rparr>"

definition twin_rules :: rule_set where
  "twin_rules = \<lparr>rs_rules = [any_rule, twin_rule], rs_bindings = [BArgument 0, BArgument 1, BConstInt 8 5],
     rs_map = [(BArgument 0, 0), (BArgument 1, 1), (BConstInt 8 5, 2)]\<rparr>"

definition twin_sets :: "(term_id \<times> rule_set) list" where
  "twin_sets = [(0, twin_rules)]"

lemma twin_build: "build_trie twin_env = Some (Ok twin_sets)"
  by (simp add: build_trie_def build_evaluate twin_sets_def twin_rules_def twin_rule_def any_rule_def)

definition twin_program :: program where
  "twin_program = \<lparr>p_terms = env_terms twin_env, p_syms = [''f''], p_sym_map = [(''f'', 0)], p_term_map = [(0, 0)],
     p_specified = {}, p_chain = {}, p_priority = {3}, p_overlaps = build_overlaps twin_sets\<rparr>"

lemma twin_overlaps: "p_overlaps twin_program = [(2, {3})]" "p_priority twin_program = {3}"
  by (simp_all add: twin_program_def build_overlaps_def note_overlap_def twin_sets_def twin_rules_def any_rule_def twin_rule_def may_overlap_def)

definition twin_chaining :: chaining where
  "twin_chaining = chaining_new twin_program twin_sets"

abbreviation twin_state :: "partial list \<Rightarrow> expansion list \<Rightarrow> expander" where
  "twin_state stack complete \<equiv> \<lparr>x_prog = twin_program, x_sets = twin_sets, x_chaining = twin_chaining, x_prune = True,
     x_stack = stack, x_roots = {0}, x_complete = complete\<rparr>"

abbreviation twin_start :: expander where
  "twin_start \<equiv> twin_state [\<lparr>pa_expansion = root_expansion 0 2, pa_candidates = [2]\<rparr>] []"

abbreviation any_expansion :: expansion where
  "any_expansion \<equiv> \<lparr>ex_term = 0, ex_rules = [2], ex_negated = [3],
     ex_bindings = [Some (BArgument 0), Some (BArgument 1), None, None, None], ex_constraints = [NotAll []],
     ex_equals = [], ex_parameters = [0, 1], ex_result = 0\<rparr>"

abbreviation twin_expansion :: expansion where
  "twin_expansion \<equiv> \<lparr>ex_term = 0, ex_rules = [3], ex_negated = [],
     ex_bindings = [Some (BArgument 0), Some (BArgument 1), None, None, None, Some (BConstInt 8 5)], ex_constraints = [],
     ex_equals = [(3, 3, 1), (4, 3, 0)], ex_parameters = [0, 1], ex_result = 5\<rparr>"

lemma twin_root: "root_expansion 0 2 = \<lparr>ex_term = 0, ex_rules = [], ex_negated = [],
  ex_bindings = [Some (BArgument 0), Some (BArgument 1), Some (BConstructor 0 [0, 1] 0)], ex_constraints = [], ex_equals = [],
  ex_parameters = [0, 1], ex_result = 2\<rparr>"
  by (simp add: root_expansion_def numeral_2_eq_2)

lemma twin_extend:
  "Veri_Expander.extend \<lparr>pa_expansion = root_expansion 0 2, pa_candidates = [2]\<rparr> (twin_state [] []) =
    Some (Ok (twin_state (map (\<lambda>X. \<lparr>pa_expansion = X, pa_candidates = []\<rparr>) [any_expansion, twin_expansion]) []))"
proof -
  have "hm_get twin_sets 0 = Some twin_rules" by (simp add: twin_sets_def)
  then show ?thesis
    unfolding twin_root
    by (simp add: expand_evaluate)
      (simp add: expand_evaluate twin_overlaps twin_rules_def twin_rule_def any_rule_def find_root.simps merge_def root_node_def find_mut.simps
        link_def saturating_add_u8_def)
qed

lemma twin_expand: "expand twin_start = Some (Ok (twin_state [] [any_expansion, twin_expansion]))"
  by (simp add: expand_Cons twin_extend [simplified] finish_evaluate expander_new_def) (simp add: expand.simps)

lemma twin_started: "started twin_program twin_sets twin_chaining twin_start"
proof -
  let ?S = "expander_new twin_program twin_sets twin_chaining"
  have p: "prog_term twin_program 0 = Some (Ok example_term)" by (simp add: prog_term_def twin_program_def example_env_def)
  obtain sig where "constructor_sig example_term (p_syms twin_program) = Ok (Some sig)" "param_tys sig = [5, 5]"
    by (simp add: constructor_sig_def example_term_def constructor_names_def sym_name_def twin_program_def Let_def)
  moreover have "has_constructor example_term" by (simp add: has_constructor_def example_term_def)
  moreover have "is_feasible (root_expansion 0 2) = Some (Ok True)"
    by (simp add: twin_root is_feasible_def expansion_validate_def expansion_valid_def is_defined_def ex_binding_def)
  ultimately have "push_constructor 0 ?S = Some (Ok (?S\<lparr>x_stack := [\<lparr>pa_expansion = root_expansion 0 2, pa_candidates = [2]\<rparr>]\<rparr>))"
    using p by (simp add: push_constructor_def expander_new_def Let_def numeral_2_eq_2)
  then have "add_root 0 ?S = Some (Ok twin_start)" by (simp add: add_root_def expander_new_def)
  then show ?thesis by (rule started.root [OF started.new])
qed

lemma pair_agrees: "x \<noteq> y \<Longrightarrow> agrees [(y, y, 1), (x, y, 0)] env \<longleftrightarrow> env x = env y"
proof -
  assume "x \<noteq> y"
  then have xy: "y \<noteq> x" by simp
  have "merge [] y x = Some (Ok [(y, y, 1), (x, y, 0)])"
    using xy by (simp add: merge_def root_node_def find_mut.simps link_def saturating_add_u8_def)
  with merge_agrees [OF built.default xy] have "agrees [(y, y, 1), (x, y, 0)] env \<longleftrightarrow> agrees [] env \<and> env y = env x" by auto
  then show ?thesis by (auto simp: agrees_def)
qed

lemma twin_matches: "matches twin_rule env \<longleftrightarrow> env 0 = env 1"
  using pair_agrees [of 0 1 env] by (simp add: matches_def satisfies_def twin_rule_def)

section \<open>Properties\<close>

text \<open>
  C33. The expansion of a rule for equal arguments forgets that they are equal. substitute renames the
  bindings and the constraints of an expansion but not its equalities, which keep naming the
  bindings that were replaced. The rule for equal arguments matches only equal arguments, but its
  completed expansion has no constraint and no equality, and describes unequal arguments as well.
\<close>

theorem equal_arguments_forgotten:
  "build_trie twin_env = Some (Ok twin_sets) \<and> started twin_program twin_sets twin_chaining twin_start \<and>
     (\<exists>S' X. expand twin_start = Some (Ok S') \<and> X \<in> set (x_complete S') \<and> ex_rules X = [rule_id twin_rule] \<and>
        (\<forall>env. matches twin_rule env = (env 0 = env 1)) \<and> ex_constraints X = [] \<and> equalities X = Some (Ok []) \<and>
        covers W X [VInt 2 5, VInt 9 5] (VInt 8 5))"
proof -
  have "covers W twin_expansion [VInt 2 5, VInt 9 5] (VInt 8 5)"
    unfolding covers_def
    by (intro exI [of _ "\<lambda>i. if i = 0 then VInt 2 5 else if i = 1 then VInt 9 5 else VInt 8 5"])
      (use pair_agrees [of 4 3] in \<open>auto simp: meant_def less_Suc_eq\<close>)
  moreover have "equalities twin_expansion = Some (Ok [])"
    by (simp add: equalities_def find_root.simps)
  ultimately show ?thesis
    using twin_build twin_started twin_expand twin_matches
    by (intro conjI exI [of _ "twin_state [] [any_expansion, twin_expansion]"] exI [of _ twin_expansion]) (simp_all add: twin_rule_def)
qed

text \<open>
  C32. Negating a rule for equal arguments leaves no execution. The negation of a rule is that not all
  its constraints hold, and equalities are not among them. If equalities are all a rule has, the
  negation is that not all of nothing holds, which is false: the rule of lower priority matches
  unequal arguments, which the other does not, but no completed expansion describes its result.
\<close>

theorem negated_equality_ignored:
  "build_trie twin_env = Some (Ok twin_sets) \<and> started twin_program twin_sets twin_chaining twin_start \<and>
     is_negated twin_program any_rule twin_rule \<and>
     (\<exists>S' env. expand twin_start = Some (Ok S') \<and> env 0 = VInt 2 5 \<and> env 1 = VInt 9 5 \<and>
        matches any_rule env \<and> \<not> matches twin_rule env \<and>
        \<not> (\<exists>X. X \<in> set (x_complete S') \<and> covers W X [VInt 2 5, VInt 9 5] (env (result any_rule))))"
proof -
  let ?env = "\<lambda>i::nat. if i = 0 then VInt 2 5 else VInt 9 5"
  have "env 5 = VInt 8 5" if "meant W vs v env {} twin_expansion" for vs v env
    using that by (auto simp: meant_def dest!: spec [of _ 5])
  moreover have "env 5 = v" if "meant W vs v env {} twin_expansion" for vs v env using that by (simp add: meant_def)
  ultimately have "\<not> meant W [VInt 2 5, VInt 9 5] (VInt 2 5) env {} twin_expansion" for env by fastforce
  moreover have "\<not> meant W vs v env {} any_expansion" for vs v env by (simp add: meant_def)
  ultimately have "\<not> covers W X [VInt 2 5, VInt 9 5] (VInt 2 5)" if "X \<in> {any_expansion, twin_expansion}" for X
    using that by (auto simp: covers_def)
  moreover have "matches any_rule ?env" by (simp add: matches_def satisfies_def any_rule_def agrees_def)
  moreover have "\<not> matches twin_rule ?env" by (simp add: twin_matches)
  moreover have "is_negated twin_program any_rule twin_rule" by (simp add: is_negated_def twin_overlaps any_rule_def twin_rule_def)
  ultimately show ?thesis
    using twin_build twin_started twin_expand
    by (intro conjI exI [of _ "twin_state [] [any_expansion, twin_expansion]"] exI [of _ ?env])
      (auto simp: any_rule_def)
qed

end
