(* ===== verification/Spec2Isabelle.thy ===== *)
theory Spec2Isabelle
  imports Type_Inference Encoded_Names Isle_Overlap Veri_Equalities
begin

text \<open>
  Verification of the core of the ISLE compiler and of the VeriISLE verification engine. ISLE is the
  term-rewriting language in which the instruction selectors of a compiler are written; VeriISLE
  proves its rules correct with an SMT solver. All paths are below \<^verbatim>\<open>src/cranelift/isle/\<close>.

  \<^bold>\<open>The parts and how they interact.\<close>

  \<^item> A rule is written as a syntax tree (\<^verbatim>\<open>isle/src/ast.rs\<close>), checked into a semantic rule
    (\<^verbatim>\<open>isle/src/sema.rs\<close>) and compiled into a rule set: a table of shared bindings and, for every rule,
    constraints on them (\<^verbatim>\<open>isle/src/trie_again.rs\<close>, which uses \<^verbatim>\<open>isle/src/disjointsets.rs\<close>). The overlap
    check (\<^verbatim>\<open>isle/src/overlap.rs\<close>) compares the rules of a set.
  \<^item> The verifier (\<^verbatim>\<open>veri/veri/src/\<close>) joins the rules of the rule sets into expansions (\<^verbatim>\<open>expand.rs\<close>,
    \<^verbatim>\<open>reachability.rs\<close>, \<^verbatim>\<open>program.rs\<close>), turns each expansion into conditions over a language of
    expressions (\<^verbatim>\<open>veri.rs\<close>), infers their types (\<^verbatim>\<open>type_inference.rs\<close>, \<^verbatim>\<open>types.rs\<close>) and hands them to
    the solver (\<^verbatim>\<open>solver.rs\<close>, \<^verbatim>\<open>encoded/\<close>).

  \<^bold>\<open>Conventions.\<close> \<open>Arrival_Prelude\<close> holds what the theories share. The result of a fallible function is
  an \<open>outcome\<close>: \<open>Ok\<close>, \<open>Err\<close> for an error that is returned, \<open>Panic\<close> for a failed assertion, unwrap or
  index. A loop that need not end is a \<open>partial_function (option)\<close> and its type is \<open>run\<close>, where \<open>None\<close>
  is no result; \<open>ends r Q\<close> says that \<open>r\<close> panics or returns a value with \<open>Q\<close>, so in particular that it
  does not run forever. Hash maps are association lists with one entry per key; where the code
  iterates over a map or a set, the order is that of the list. Ids are natural numbers, and every
  conversion to \<^verbatim>\<open>u8\<close> or \<^verbatim>\<open>u16\<close> that can fail is a panic in the model.

  \<^bold>\<open>Type inference.\<close> \<open>Veri_Types\<close>, \<open>Type_Values\<close>, \<open>Veri_Compound\<close>: widths, types, constants, type values
  with their order, compound types and the resolution of named types. \<open>Veri_Expr\<close>, \<open>Veri_Symbolic\<close>:
  the expressions and conditions. \<open>Type_Constraints\<close>: the constraints and the reference check.
  \<open>Type_Builder\<close>: the constraints generated for a condition. \<open>Type_Solver\<close>, \<open>Type_System\<close>: propagation and
  the search over branches. \<open>Type_Inference\<close> has the properties: a solved system types every
  expression and satisfies every constraint but clauses, propagation computes the least solution,
  the search misses no choice of arms (choices are defined independently of the code's fork), and
  two defects of the clauses: those of an implication force it to be true, so that a condition which
  assumes its negation has no solution, and a clause whose literals are all false is ignored. The fuel of \<open>resolve\<close> bounds the depth of nested names; for an acyclic
  lookup enough fuel is shown to exist.

  \<^bold>\<open>Encodings of bit operations.\<close> \<open>Smt_Context\<close> models the solver context through which the encodings
  act. The SMT library is a parameter: a record of its operations, and the locale \<open>smt_theory\<close> that says
  what it promises (SMT-LIB's meaning of the terms that are built, and that declarations and
  assertions reach the solver), which is interpreted on S-expressions with an evaluator. \<open>Bit_Reference\<close> defines the counts and the reversal on numbers. \<open>Encoded_Count\<close> proves one
  round of a counting encoding; \<open>Encoded_Clz\<close>, \<open>Encoded_Cls\<close>, \<open>Encoded_Rev\<close>, \<open>Encoded_Popcnt\<close> have the
  routines of \<^verbatim>\<open>encoded/*.rs\<close> statement by statement and show that each encoding only adds definitions
  (every model extends) and that its result is the reference operation in every model. They suppose
  that the context does not declare the names that the routine itself declares for the number of the
  operand; other names, such as that of a variable with the same number, may be there.
  \<open>Encoded_Names\<close> shows that two of the routines clash, at every width above one bit.

  \<^bold>\<open>Rules and rule sets.\<close> \<open>Isle_Pos\<close>, \<open>Isle_Ast\<close>: positions, patterns, macro templates. The substitution of
  macro arguments is shown for bodies that do not bind a parameter as \<^verbatim>\<open>x @ p\<close>, where the code keeps
  the parameter. \<open>Isle_Disjointsets\<close>:
  the union-find forest, refined to an equivalence relation. \<open>Sema_Terms\<close>: terms, rules and
  their traversal by a visitor, which is a record of functions. \<open>Sema_Semantics\<close> gives rules a meaning;
  \<open>Sema_Visitors\<close> states what a visitor must satisfy as locales, which the rule-set builder interprets.
  \<open>Trie_Rules\<close>, \<open>Trie_Builder\<close>, \<open>Trie_Normalize\<close>, \<open>Trie_Visitor\<close>: bindings, the builder, normalisation of
  equalities, and the builder as a visitor. \<open>Trie_Meaning\<close>: compiled rules mean what the source rules
  mean and none that can match is lost; a rule that requires a value to equal its own field keeps a
  binding with both a constraint and an equality. \<open>Isle_Overlap\<close>: what the overlap check accepts is unambiguous,
  what it reports is justified, and it ends.

  \<^bold>\<open>Expansions.\<close> \<open>Veri_Reachability\<close>: the search for reachable terms is exact. \<open>Veri_Expansion\<close>: expansions
  and the application of one rule. \<open>Veri_Expander\<close>: the program, the chaining configuration and the
  expander with its work list. \<open>Veri_Import\<close>: a locale for properties that every step of an application
  keeps, interpreted on the shape of the expansion there and on its meaning in \<open>Veri_Coverage\<close>.
  \<open>Veri_Expand_Ends\<close>: a measure on multisets of ranks of calls, by which the expander ends.
  \<open>Veri_Program\<close>: expansion for rule sets made by \<open>build_trie\<close>, which ends and leaves nothing out.
  \<open>Veri_Coverage\<close>: every result of a root term is described by a completed expansion. This supposes a
  world in which a call of a term with rules returns only what a rule gives (\<open>lawful\<close>), and, as a
  separate condition on the program, that rules which are negated have no equalities
  (\<open>negated_rules_plain\<close>). \<open>Veri_Equalities\<close> shows that the last supposition is needed, and that an
  equality between arguments is lost.

  \<^bold>\<open>Bounds.\<close> Ranks of the forest saturate at 255, argument indices are below 256, binding ids below
  65536, widths below the limit of \<^verbatim>\<open>usize\<close>; the model panics where the code does. The bounds of an
  extraction are \<^verbatim>\<open>i32\<close> values, and the population count casts bit indices to them, so its property
  covers the widths up to 2^31.

  \<^bold>\<open>Not modelled.\<close>
  \<^item> The lexer, parser and printer of ISLE, its serialisation and generation of Rust code, and the
    construction of type, term and specification environments from definitions: the properties start
    from environments and hold for all of them.
  \<^item> The builder that turns an expansion into conditions, the translation of expressions other than the
    bit counts and the reversal, the calls of the solver process, model evaluation, and the runner,
    explorer and reports, which are input and output.
  \<^item> The ISA specification generators (\<^verbatim>\<open>veri/isaspec\<close>, \<^verbatim>\<open>veri/aslp\<close>, \<^verbatim>\<open>veri/meta\<close>), which translate data from
    external tools, and test macros.
  \<^item> Everything outside the ISLE tools: the compiler back ends, the WebAssembly runtime and its crates,
    Winch and Pulley are separate systems that the tools only read rules from.
\<close>

end
